(* ===== verification/Prelude.thy ===== *)
theory Prelude
  imports Main "HOL-Library.AList" "HOL-Library.Char_ord" "HOL-Library.List_Lexorder"
    "HOL-Library.Product_Lexorder" "HOL-Library.Multiset" "HOL-Library.Sublist" "HOL-Library.Word"
begin

text \<open>
  Shared foundations of the development: the result type of fallible operations, the
  comparator sorts of the Go library (\<open>sort.Slice\<close>, \<open>slices.SortFunc\<close>), association
  lists as Go maps, and the generic lemmas the component theories rest on.
\<close>

named_theorems go_simps \<open>characteristic equations of the modelled Go library functions\<close>
named_theorems inv_intros \<open>preservation of the components' invariants\<close>

type_synonym ('e, 'a) result = "'e + 'a"

text \<open>The value of a result, where its error does not matter.\<close>

definition succeeded :: "('e, 'a) result \<Rightarrow> 'a option" where
  "succeeded r = (case r of Inl _ \<Rightarrow> None | Inr x \<Rightarrow> Some x)"

lemma succeeded_simps [simp]: "succeeded (Inl e) = None" "succeeded (Inr x) = Some x"
  by (simp_all add: succeeded_def)

section \<open>Comparator sorts\<close>

text \<open>
  \<open>sort.Slice(xs, less)\<close> and \<open>slices.SortFunc(xs, cmp)\<close> sort with a strict comparator.
  The Go library runs an insertion sort on short slices, which is what is written here:
  an element moves left past every element it is less than.  On long slices the library
  uses other algorithms; their result is also a sorted permutation, and \<open>sort_Slice_unique\<close>
  shows that such a result is the same list wherever elements with equal keys are equal.
\<close>

fun insert_by :: "('a \<Rightarrow> 'a \<Rightarrow> bool) \<Rightarrow> 'a \<Rightarrow> 'a list \<Rightarrow> 'a list" where
  "insert_by lt x [] = [x]"
| "insert_by lt x (y # ys) = (if lt y x then y # insert_by lt x ys else x # y # ys)"

definition sort_Slice :: "('a \<Rightarrow> 'a \<Rightarrow> bool) \<Rightarrow> 'a list \<Rightarrow> 'a list" where
  "sort_Slice lt xs = foldr (insert_by lt) xs []"

lemma insert_by_insort_key: "insert_by (\<lambda>a b. f a < f b) x ys = insort_key f x ys"
  by (induction ys) (auto simp: not_less)

lemma sort_Slice_sort_key: "sort_Slice (\<lambda>a b. f a < f b) xs = sort_key f xs"
  unfolding sort_Slice_def sort_key_def
  by (induction xs) (simp_all add: insert_by_insort_key)

lemma mset_insert_by [simp]: "mset (insert_by lt x ys) = add_mset x (mset ys)"
  by (induction ys) auto

lemma mset_sort_Slice [simp]: "mset (sort_Slice lt xs) = mset xs"
  unfolding sort_Slice_def by (induction xs) simp_all

lemma set_sort_Slice [simp]: "set (sort_Slice lt xs) = set xs"
  by (metis mset_sort_Slice set_mset_mset)

lemma length_sort_Slice [simp]: "length (sort_Slice lt xs) = length xs"
  by (metis mset_sort_Slice size_mset)

lemma distinct_sort_Slice [simp]: "distinct (sort_Slice lt xs) = distinct xs"
  by (metis mset_sort_Slice mset_eq_imp_distinct_iff)

lemma distinct_map_sort_Slice [simp]: "distinct (map f (sort_Slice lt xs)) = distinct (map f xs)"
  by (metis mset_map mset_sort_Slice mset_eq_imp_distinct_iff)

lemma sort_Slice_unique:
  fixes f :: "'a \<Rightarrow> 'k::linorder"
  assumes "mset xs = mset ys" "inj_on f (set ys)" "sorted (map f ys)"
  shows "sort_Slice (\<lambda>a b. f a < f b) xs = ys"
  using assms sort_key_inj_key_eq [of xs ys f] set_mset_mset
  by (metis sort_Slice_sort_key)

lemma sort_key_map_self: "sorted (map f xs) \<Longrightarrow> sort_key f xs = xs"
  by (induction xs) (auto simp: insort_is_Cons)

lemma sort_key_idem [simp]: "sort_key f (sort_key f xs) = sort_key f xs"
  by (rule sort_key_map_self) simp

section \<open>Association lists as Go maps\<close>

text \<open>
  A Go map is an association list with distinct keys; the order of the list stands for
  the unspecified iteration order.  Two lists with the same lookups are permutations of
  each other, so whatever is computed from a map and then sorted by its keys does not
  depend on the order.
\<close>

lemma alist_mset_eqI:
  assumes "distinct (map fst xs)" "distinct (map fst ys)" "map_of xs = map_of ys"
  shows "mset xs = mset ys"
  using assms by (metis distinct_map map_of_inject_set set_eq_iff_mset_eq_distinct)

lemma map_of_in_set: "map_of xs k = Some v \<Longrightarrow> (k, v) \<in> set xs"
  by (rule map_of_SomeD)

lemma alist_update_set:
  "distinct (map fst al) \<Longrightarrow> set (AList.update k v al) = insert (k, v) {p \<in> set al. fst p \<noteq> k}"
  by (induction al) (auto simp: rev_image_eqI)

lemma alist_update_dom: "dom (map_of (AList.update k v al)) = insert k (dom (map_of al))"
  by (simp add: update_conv')

lemma alist_delete_set: "set (AList.delete k al) = {p \<in> set al. fst p \<noteq> k}"
  by (auto simp: AList.delete_eq)

section \<open>Loops that collect a set\<close>

text \<open>
  A loop whose step adds the elements \<open>g x\<close> to what the state represents adds the union
  of them; \<open>R st S\<close> reads: the state \<open>st\<close> represents the set \<open>S\<close>.
\<close>

lemma foldl_collect:
  assumes "\<And>st S x. x \<in> set xs \<Longrightarrow> R st S \<Longrightarrow> R (f st x) (S \<union> g x)" and "R st S"
  shows "R (foldl f st xs) (S \<union> (\<Union>x\<in>set xs. g x))"
  using assms
proof (induction xs arbitrary: st S)
  case (Cons x xs)
  have "R (f st x) (S \<union> g x)" using Cons.prems by simp
  then have "R (foldl f (f st x) xs) ((S \<union> g x) \<union> (\<Union>x\<in>set xs. g x))"
    using Cons.prems by (intro Cons.IH) simp_all
  then show ?case by (simp add: Un_assoc)
qed simp

lemma append_sep_inj:
  assumes "c \<notin> set a" "c \<notin> set b"
  shows "a @ c # x = b @ c # y \<longleftrightarrow> a = b \<and> x = y"
  using assms by (auto simp: append_eq_append_conv2 append_eq_Cons_conv Cons_eq_append_conv)

end
