(* ===== verification/Go_Strings.thy ===== *)
theory Go_Strings
  imports Prelude
begin

text \<open>
  The parts of the Go packages \<open>strings\<close>, \<open>strconv\<close>, \<open>unicode/utf8\<close> and \<open>fmt\<close> that the
  program uses.  A Go string is a byte sequence, and so is a \<open>string\<close> here: a \<open>char\<close> is one
  byte.  Functions that work on runes decode UTF-8 explicitly.
\<close>

section \<open>White space\<close>

text \<open>The UTF-8 encodings of the runes for which \<open>unicode.IsSpace\<close> holds.\<close>

definition spaceRunes :: "string list" where
  "spaceRunes =
     [[CHR 0x20], [CHR 0x09], [CHR 0x0A], [CHR 0x0B], [CHR 0x0C], [CHR 0x0D],
      [CHR 0xC2, CHR 0x85], [CHR 0xC2, CHR 0xA0], [CHR 0xE1, CHR 0x9A, CHR 0x80]] @
     map (\<lambda>b. [CHR 0xE2, CHR 0x80, b])
       [CHR 0x80, CHR 0x81, CHR 0x82, CHR 0x83, CHR 0x84, CHR 0x85, CHR 0x86, CHR 0x87, CHR 0x88,
        CHR 0x89, CHR 0x8A, CHR 0xA8, CHR 0xA9, CHR 0xAF] @
     [[CHR 0xE2, CHR 0x81, CHR 0x9F], [CHR 0xE3, CHR 0x80, CHR 0x80]]"

text \<open>\<open>leading encs s\<close>: the length of the encoding of \<open>encs\<close> that \<open>s\<close> starts with, or 0.\<close>

definition leading :: "string list \<Rightarrow> string \<Rightarrow> nat" where
  "leading encs s = (case find (\<lambda>p. prefix p s) encs of None \<Rightarrow> 0 | Some p \<Rightarrow> length p)"

function dropRunes :: "string list \<Rightarrow> string \<Rightarrow> string" where
  "dropRunes encs [] = []"
| "dropRunes encs (c # s) =
     (let n = leading encs (c # s) in if n = 0 then c # s else dropRunes encs (drop (n - 1) s))"
  by pat_completeness auto
termination
  by (relation "measure (\<lambda>(_, s). length s)") auto

text \<open>
  \<open>strings.TrimSpace\<close>: drop white space at the front, then at the back, where the runes
  are met byte-reversed.
\<close>

definition TrimSpace :: "string \<Rightarrow> string" where
  "TrimSpace s = rev (dropRunes (map rev spaceRunes) (rev (dropRunes spaceRunes s)))"

text \<open>\<open>strings.Fields\<close>: the maximal runs between white space.\<close>

function fieldsFrom :: "string \<Rightarrow> string \<Rightarrow> string list" where
  "fieldsFrom cur [] = (if cur = [] then [] else [rev cur])"
| "fieldsFrom cur (c # s) =
     (let n = leading spaceRunes (c # s) in
      if n = 0 then fieldsFrom (c # cur) s
      else (if cur = [] then [] else [rev cur]) @ fieldsFrom [] (drop (n - 1) s))"
  by pat_completeness auto
termination
  by (relation "measure (\<lambda>(_, s). length s)") auto

definition Fields :: "string \<Rightarrow> string list" where
  "Fields s = fieldsFrom [] s"

section \<open>Splitting, trimming, joining, replacing\<close>

text \<open>\<open>strings.Split(s, sep)\<close> for a one-byte separator; the empty string gives one empty part.\<close>

fun Split :: "char \<Rightarrow> string \<Rightarrow> string list" where
  "Split sep [] = [[]]"
| "Split sep (c # s) =
     (if c = sep then [] # Split sep s
      else case Split sep s of [] \<Rightarrow> [[c]] | p # ps \<Rightarrow> (c # p) # ps)"

text \<open>\<open>strings.Trim(s, cutset)\<close> for a cutset of one ASCII character.\<close>

definition Trim :: "char \<Rightarrow> string \<Rightarrow> string" where
  "Trim c s = rev (dropWhile (\<lambda>x. x = c) (rev (dropWhile (\<lambda>x. x = c) s)))"

fun Join :: "string \<Rightarrow> string list \<Rightarrow> string" where
  "Join sep [] = []"
| "Join sep [s] = s"
| "Join sep (s # ss) = s @ sep @ Join sep ss"

text \<open>
  \<open>strings.ReplaceAll(s, old, new)\<close> for a non-empty \<open>old\<close>: non-overlapping occurrences
  from the left.
\<close>

function ReplaceAll :: "string \<Rightarrow> string \<Rightarrow> string \<Rightarrow> string" where
  "ReplaceAll [] old new = []"
| "ReplaceAll (c # s) old new =
     (if old \<noteq> [] \<and> prefix old (c # s) then new @ ReplaceAll (drop (length old - 1) s) old new
      else c # ReplaceAll s old new)"
  by pat_completeness auto
termination
  by (relation "measure (\<lambda>(s, _, _). length s)") auto

definition ContainsAny :: "string \<Rightarrow> string \<Rightarrow> bool" where
  "ContainsAny s chars = list_ex (\<lambda>c. c \<in> set chars) s"

section \<open>Case\<close>

definition isUpper :: "char \<Rightarrow> bool" where
  "isUpper c = (CHR ''A'' \<le> c \<and> c \<le> CHR ''Z'')"

definition lowerByte :: "char \<Rightarrow> char" where
  "lowerByte c = (if isUpper c then char_of (of_char c + 32 :: nat) else c)"

text \<open>
  \<open>strings.ToLower\<close>.  ASCII letters are lowered, and so are the two non-ASCII runes whose
  lower case is ASCII (U+0130, dotted capital I, and U+212A, the Kelvin sign).  Every other
  non-ASCII rune has a non-ASCII lower case; it is kept as it is, because the program only
  compares lowered strings with ASCII constants or replaces their non-ASCII runes.
\<close>

fun ToLower :: "string \<Rightarrow> string" where
  "ToLower [] = []"
| "ToLower (c # s) =
     (if c = CHR 0xC4 \<and> prefix [CHR 0xB0] s then CHR ''i'' # ToLower (drop 1 s)
      else if c = CHR 0xE2 \<and> prefix [CHR 0x84, CHR 0xAA] s then CHR ''k'' # ToLower (drop 2 s)
      else lowerByte c # ToLower s)"

text \<open>
  \<open>strings.EqualFold(s, t)\<close> for a \<open>t\<close> of ASCII letters that no non-ASCII rune folds to
  (such as \<open>TCP\<close>).
\<close>

definition EqualFold :: "string \<Rightarrow> string \<Rightarrow> bool" where
  "EqualFold s t = (map lowerByte s = map lowerByte t)"

section \<open>Runes\<close>

abbreviation byte :: "char \<Rightarrow> nat" where
  "byte c \<equiv> of_char c"

definition contByte :: "nat \<Rightarrow> nat \<Rightarrow> string \<Rightarrow> nat \<Rightarrow> bool" where
  "contByte lo hi s i = (i < length s \<and> lo \<le> byte (s ! i) \<and> byte (s ! i) \<le> hi)"

text \<open>
  \<open>utf8.DecodeRuneInString\<close> on a string that starts with \<open>c\<close>: the rune and its width in
  bytes; an invalid encoding is U+FFFD of width 1.
\<close>

definition decodeRune :: "char \<Rightarrow> string \<Rightarrow> nat \<times> nat" where
  "decodeRune c s =
     (let b = byte c; x = (\<lambda>i. byte (s ! i) mod 64);
          cont = contByte 0x80 0xBF s;
          lo3 = (if b = 0xE0 then 0xA0 else 0x80); hi3 = (if b = 0xED then 0x9F else 0xBF);
          lo4 = (if b = 0xF0 then 0x90 else 0x80); hi4 = (if b = 0xF4 then 0x8F else 0xBF)
      in if b < 0x80 then (b, 1)
         else if 0xC2 \<le> b \<and> b \<le> 0xDF \<and> cont 0 then ((b mod 32) * 64 + x 0, 2)
         else if 0xE0 \<le> b \<and> b \<le> 0xEF \<and> contByte lo3 hi3 s 0 \<and> cont 1
           then ((b mod 16) * 4096 + x 0 * 64 + x 1, 3)
         else if 0xF0 \<le> b \<and> b \<le> 0xF4 \<and> contByte lo4 hi4 s 0 \<and> cont 1 \<and> cont 2
           then ((b mod 8) * 262144 + x 0 * 4096 + x 1 * 64 + x 2, 4)
         else (0xFFFD, 1))"

text \<open>The runes a \<open>for _, r := range s\<close> loop visits.\<close>

function runes :: "string \<Rightarrow> nat list" where
  "runes [] = []"
| "runes (c # s) = (case decodeRune c s of (r, n) \<Rightarrow> r # runes (drop (n - 1) s))"
  by pat_completeness auto
termination
  by (relation "measure length") auto

section \<open>Numbers\<close>

definition digitChar :: "nat \<Rightarrow> char" where
  "digitChar d = char_of (48 + d)"

definition isDigit :: "char \<Rightarrow> bool" where
  "isDigit c = (CHR ''0'' \<le> c \<and> c \<le> CHR ''9'')"

definition digitVal :: "char \<Rightarrow> nat" where
  "digitVal c = byte c - 48"

fun itoa :: "nat \<Rightarrow> string" where
  "itoa n = (if n < 10 then [digitChar n] else itoa (n div 10) @ [digitChar (n mod 10)])"

declare itoa.simps [simp del]

text \<open>\<open>strconv.FormatInt(v, 10)\<close>, which is also what \<open>%d\<close> prints.\<close>

definition FormatInt :: "int \<Rightarrow> string" where
  "FormatInt v = (if v < 0 then CHR ''-'' # itoa (nat (- v)) else itoa (nat v))"

text \<open>\<open>%04d\<close> of a non-negative number.\<close>

definition pad4 :: "nat \<Rightarrow> string" where
  "pad4 n = replicate (4 - length (itoa n)) CHR ''0'' @ itoa n"

fun digitsVal :: "nat \<Rightarrow> string \<Rightarrow> nat option" where
  "digitsVal acc [] = Some acc"
| "digitsVal acc (c # s) =
     (if isDigit c then digitsVal (acc * 10 + digitVal c) s else None)"

text \<open>
  \<open>strconv.Atoi\<close>: an optional sign and at least one decimal digit, in the range of a 64-bit
  \<open>int\<close>; \<open>None\<close> is an error.
\<close>

definition Atoi :: "string \<Rightarrow> int option" where
  "Atoi s =
     (let (neg, ds) = (case s of [] \<Rightarrow> (False, []) | c # r \<Rightarrow>
            if c = CHR ''-'' then (True, r) else if c = CHR ''+'' then (False, r) else (False, s))
      in if ds = [] then None
         else case digitsVal 0 ds of None \<Rightarrow> None
         | Some n \<Rightarrow> (let v = (if neg then - int n else int n) in
             if - (2 ^ 63) \<le> v \<and> v < 2 ^ 63 then Some v else None))"

section \<open>Lemmas on white space\<close>

lemma leading_0_iff: "[] \<notin> set encs \<Longrightarrow> leading encs s = 0 \<longleftrightarrow> (\<forall>p\<in>set encs. \<not> prefix p s)"
proof (cases "find (\<lambda>p. prefix p s) encs")
  case None
  then have "\<forall>p\<in>set encs. \<not> prefix p s" by (simp add: find_None_iff)
  with None show ?thesis by (simp add: leading_def)
next
  case (Some p)
  assume ne: "[] \<notin> set encs"
  from Some have "p \<in> set encs" "prefix p s" by (auto simp: find_Some_iff)
  with Some ne show ?thesis by (auto simp: leading_def)
qed

lemma leading_prefix:
  assumes "[] \<notin> set encs" "prefix t s" "leading encs s = 0"
  shows "leading encs t = 0"
  using assms by (meson leading_0_iff prefix_order.trans)

lemma dropRunes_id: "leading encs s = 0 \<Longrightarrow> dropRunes encs s = s"
  by (cases s) (simp_all add: Let_def)

lemma dropRunes_leading:
  assumes "[] \<notin> set encs"
  shows "leading encs (dropRunes encs s) = 0"
  using assms
proof (induction encs s rule: dropRunes.induct)
  case (1 encs)
  then show ?case by (auto simp: leading_0_iff)
qed (auto simp: Let_def)

lemma dropRunes_suffix: "suffix (dropRunes encs s) s"
proof (induction encs s rule: dropRunes.induct)
  case (2 encs c s)
  show ?case
  proof (cases "leading encs (c # s) = 0")
    case False
    with 2 have "suffix (dropRunes encs (drop (leading encs (c # s) - 1) s))
        (drop (leading encs (c # s) - 1) s)" by simp
    then show ?thesis using False
      by (simp add: Let_def suffix_Cons) (meson suffix_drop suffix_order.trans)
  qed (simp add: Let_def)
qed simp

lemma spaceRunes_ne: "[] \<notin> set spaceRunes" "[] \<notin> set (map rev spaceRunes)"
  by (simp_all add: spaceRunes_def)

lemma TrimSpace_prefix_front: "prefix (TrimSpace s) (dropRunes spaceRunes s)"
proof -
  have "suffix (dropRunes (map rev spaceRunes) (rev (dropRunes spaceRunes s)))
      (rev (dropRunes spaceRunes s))" by (rule dropRunes_suffix)
  then show ?thesis by (simp add: TrimSpace_def suffix_to_prefix)
qed

lemma TrimSpace_sublist: "set (TrimSpace s) \<subseteq> set s"
  using set_mono_prefix [OF TrimSpace_prefix_front [of s]]
    set_mono_suffix [OF dropRunes_suffix [of spaceRunes s]] by blast

lemma TrimSpace_fix:
  "leading spaceRunes s = 0 \<Longrightarrow> leading (map rev spaceRunes) (rev s) = 0 \<Longrightarrow> TrimSpace s = s"
  by (simp add: TrimSpace_def dropRunes_id)

lemma TrimSpace_idem [simp]: "TrimSpace (TrimSpace s) = TrimSpace s"
proof (rule TrimSpace_fix)
  show "leading spaceRunes (TrimSpace s) = 0"
    by (rule leading_prefix [OF spaceRunes_ne(1) TrimSpace_prefix_front
          dropRunes_leading [OF spaceRunes_ne(1)]])
  show "leading (map rev spaceRunes) (rev (TrimSpace s)) = 0"
    by (simp add: TrimSpace_def dropRunes_leading [OF spaceRunes_ne(2)])
qed

text \<open>Printable ASCII bytes other than the space start and end no white-space encoding.\<close>

definition plain :: "char \<Rightarrow> bool" where
  "plain c = (0x20 < byte c \<and> byte c < 0x7F)"

lemma leading_plain_front: "list_all plain s \<Longrightarrow> leading spaceRunes s = 0"
  unfolding leading_0_iff [OF spaceRunes_ne(1)]
  by (cases s) (auto simp: spaceRunes_def plain_def)

lemma leading_plain_back: "list_all plain s \<Longrightarrow> leading (map rev spaceRunes) s = 0"
  unfolding leading_0_iff [OF spaceRunes_ne(2)]
  by (cases s) (auto simp: spaceRunes_def plain_def)

lemma TrimSpace_plain: "list_all plain s \<Longrightarrow> TrimSpace s = s"
  by (rule TrimSpace_fix) (auto intro!: leading_plain_front leading_plain_back simp: list_all_iff)

lemma TrimSpace_Nil [simp]: "TrimSpace [] = []"
  by (simp add: TrimSpace_def)

section \<open>Lemmas on numbers\<close>

lemma byte_digitChar: "d < 10 \<Longrightarrow> byte (digitChar d) = 48 + d"
  by (simp add: digitChar_def of_char_of)

lemma isDigit_iff: "isDigit c \<longleftrightarrow> 48 \<le> byte c \<and> byte c \<le> (57::nat)"
  by (simp add: isDigit_def less_eq_char_def)

lemma isDigit_digitChar [simp]: "d < 10 \<Longrightarrow> isDigit (digitChar d)"
  by (simp add: isDigit_iff byte_digitChar)

lemma digitVal_digitChar [simp]: "d < 10 \<Longrightarrow> digitVal (digitChar d) = d"
  by (simp add: digitVal_def byte_digitChar)

lemma isDigit_plain: "isDigit c \<Longrightarrow> plain c"
  by (simp add: isDigit_iff plain_def)

lemma itoa_digits: "list_all isDigit (itoa n)"
proof (induction n rule: itoa.induct)
  case (1 n)
  then show ?case by (subst itoa.simps) auto
qed

lemma itoa_ne [simp]: "itoa n \<noteq> []"
  by (subst itoa.simps) simp

lemma digitsVal_append:
  "digitsVal acc (s @ t) = (case digitsVal acc s of None \<Rightarrow> None | Some a \<Rightarrow> digitsVal a t)"
  by (induction s arbitrary: acc) auto

lemma digitsVal_itoa: "digitsVal 0 (itoa n) = Some n"
proof (induction n rule: itoa.induct)
  case (1 n)
  show ?case
  proof (cases "n < 10")
    case True
    then show ?thesis by (subst itoa.simps) simp
  next
    case False
    with 1 have "digitsVal 0 (itoa (n div 10)) = Some (n div 10)" by simp
    with False show ?thesis
      by (subst itoa.simps) (simp add: digitsVal_append)
  qed
qed

lemma itoa_inj [simp]: "itoa m = itoa n \<longleftrightarrow> m = n"
  by (metis digitsVal_itoa option.inject)

lemma itoa_not_minus: "itoa n \<noteq> CHR ''-'' # s"
proof
  assume "itoa n = CHR ''-'' # s"
  with itoa_digits [of n] show False by (simp add: isDigit_iff)
qed

lemma FormatInt_inj [simp]: "FormatInt v = FormatInt w \<longleftrightarrow> v = w"
  by (auto simp: FormatInt_def itoa_not_minus dest: sym [THEN notE [OF itoa_not_minus]])

lemma itoa_plain: "list_all plain (itoa n)"
  using itoa_digits by (auto simp: list_all_iff isDigit_plain)

lemma FormatInt_plain: "list_all plain (FormatInt v)"
proof -
  have "plain CHR ''-''" by (simp add: plain_def)
  then show ?thesis by (simp add: FormatInt_def itoa_plain)
qed

lemma itoa_pos_no_zero: "0 < n \<Longrightarrow> hd (itoa n) \<noteq> CHR ''0''"
proof (induction n rule: itoa.induct)
  case (1 n)
  show ?case
  proof (cases "n < 10")
    case True
    have "byte (digitChar n) \<noteq> byte CHR ''0''" using True 1(2) by (simp add: byte_digitChar)
    then have "digitChar n \<noteq> CHR ''0''" by metis
    with True show ?thesis by (simp add: itoa.simps [of n])
  next
    case False
    then have "0 < n div 10" by simp
    with False 1 show ?thesis by (simp add: itoa.simps [of n] hd_append)
  qed
qed

section \<open>Lemmas on runes and case\<close>

lemma decodeRune_ascii: "byte c < 0x80 \<Longrightarrow> decodeRune c s = (byte c, 1)"
  by (simp add: decodeRune_def)

lemma runes_ascii: "list_all (\<lambda>c. byte c < 0x80) s \<Longrightarrow> runes s = map of_char s"
  by (induction s) (simp_all add: decodeRune_ascii)

lemma length_runes_le: "length (runes s) \<le> length s"
proof (induction s rule: runes.induct)
  case (2 c s)
  obtain r n where rn: "decodeRune c s = (r, n)" by force
  from 2 [OF rn [symmetric]] have "length (runes (drop (n - 1) s)) \<le> length s" by simp
  then show ?case by (simp add: rn)
qed simp

lemma runes_Nil_iff [simp]: "runes s = [] \<longleftrightarrow> s = []"
  by (cases s) (auto split: prod.splits)

section \<open>Lemmas on splitting\<close>

lemma Split_ne [simp]: "Split sep s \<noteq> []"
  by (induction s) (auto split: list.splits)

lemma Split_no_sep: "sep \<notin> set s \<Longrightarrow> Split sep s = [s]"
  by (induction s) auto

lemma Split_append: "sep \<notin> set s \<Longrightarrow> Split sep (s @ sep # t) = s # Split sep t"
  by (induction s) auto

lemma Split_Join: "ss \<noteq> [] \<Longrightarrow> \<forall>s\<in>set ss. sep \<notin> set s \<Longrightarrow> Split sep (Join [sep] ss) = ss"
  by (induction "[sep]" ss rule: Join.induct) (auto simp: Split_no_sep Split_append)

lemma Join_Cons: "Join sep (x # xs) = (if xs = [] then x else x @ sep @ Join sep xs)"
  by (cases xs) simp_all

lemma leading_plain:
  "plain c \<Longrightarrow> leading spaceRunes (c # s) = 0" "plain c \<Longrightarrow> leading (map rev spaceRunes) (c # s) = 0"
  unfolding leading_0_iff [OF spaceRunes_ne(1)] leading_0_iff [OF spaceRunes_ne(2)]
  by (auto simp: spaceRunes_def plain_def)

lemma TrimSpace_ends:
  assumes "s \<noteq> []" "plain (hd s)" "plain (last s)"
  shows "TrimSpace s = s"
proof (rule TrimSpace_fix)
  show "leading spaceRunes s = 0" using leading_plain(1) [OF assms(2), of "tl s"] assms(1) by simp
  show "leading (map rev spaceRunes) (rev s) = 0"
    using leading_plain(2) [OF assms(3), of "rev (butlast s)"] assms(1)
    by (metis append_butlast_last_id rev.simps(2) rev_rev_ident rev_append append_Cons append_Nil rev.simps(1))
qed

lemma Join_hd: "xs \<noteq> [] \<Longrightarrow> hd xs \<noteq> [] \<Longrightarrow> hd (Join sep xs) = hd (hd xs)"
  by (cases "(sep, xs)" rule: Join.cases) simp_all

lemma Join_last: "xs \<noteq> [] \<Longrightarrow> last xs \<noteq> [] \<Longrightarrow> Join sep xs \<noteq> [] \<and> last (Join sep xs) = last (last xs)"
  by (induction sep xs rule: Join.induct) auto

lemma fieldsFrom_plain: "list_all plain w \<Longrightarrow> fieldsFrom cur (w @ t) = fieldsFrom (rev w @ cur) t"
proof (induction w arbitrary: cur)
  case (Cons c w)
  have "leading spaceRunes (c # w @ t) = 0" using Cons.prems by (intro leading_plain) simp
  then show ?case using Cons by simp
qed simp

lemma fieldsFrom_space: "cur \<noteq> [] \<Longrightarrow> fieldsFrom cur (CHR '' '' # t) = rev cur # fieldsFrom [] t"
proof -
  have "leading spaceRunes (CHR '' '' # t) = 1" by (simp add: leading_def spaceRunes_def)
  then show "cur \<noteq> [] \<Longrightarrow> fieldsFrom cur (CHR '' '' # t) = rev cur # fieldsFrom [] t" by simp
qed

lemma Fields_Join: "\<forall>w \<in> set ws. w \<noteq> [] \<and> list_all plain w \<Longrightarrow> Fields (Join '' '' ws) = ws"
  unfolding Fields_def
proof (induction "'' ''" ws rule: Join.induct)
  case (2 x)
  then show ?case using fieldsFrom_plain [of x "[]" "[]"] by simp
next
  case (3 x y ws)
  then show ?case by (simp add: fieldsFrom_plain fieldsFrom_space del: fieldsFrom.simps)
qed simp

lemma Atoi_FormatInt: "Atoi (FormatInt v) = (if - (2 ^ 63) \<le> v \<and> v < 2 ^ 63 then Some v else None)"
proof (cases "v < 0")
  case True
  then show ?thesis by (simp add: Atoi_def FormatInt_def digitsVal_itoa)
next
  case False
  have p: "itoa n \<noteq> CHR ''+'' # s" for n s using itoa_digits [of n] by (auto simp: isDigit_iff)
  obtain c u where cu: "itoa (nat v) = c # u" by (cases "itoa (nat v)") auto
  then have "c \<noteq> CHR ''-''" "c \<noteq> CHR ''+''" "digitsVal 0 (c # u) = Some (nat v)"
    using p itoa_not_minus digitsVal_itoa [of "nat v"] by metis+
  then show ?thesis using False cu by (simp add: Atoi_def FormatInt_def del: digitsVal.simps)
qed

end
