(* ===== verification/Netip.thy ===== *)
theory Netip
  imports Go_Strings
begin

text \<open>
  The Go package \<open>net/netip\<close> as the program uses it: the address type with its equality,
  order and printing, \<open>ParseAddr\<close> for IPv4 and IPv6 text, and \<open>ParsePrefix\<close>.  The main
  results are that printing an IPv4 address and parsing it back is the identity, and that
  whatever parses as IPv4 is the canonical text of its address.
\<close>

section \<open>Addresses\<close>

text \<open>
  \<open>netip.Addr\<close>: the zero value, an IPv4 address of four octets, or an IPv6 address of
  sixteen octets with a zone (empty for none).
\<close>

datatype addr =
    InvalidAddr
  | V4 "8 word" "8 word" "8 word" "8 word"
  | V6 "8 word list" string

fun Is4 :: "addr \<Rightarrow> bool" where
  "Is4 (V4 _ _ _ _) = True"
| "Is4 _ = False"

fun IsValid :: "addr \<Rightarrow> bool" where
  "IsValid InvalidAddr = False"
| "IsValid _ = True"

text \<open>\<open>Addr.Compare\<close> orders by bit length, then by value, then by zone.\<close>

fun addrKey :: "addr \<Rightarrow> nat \<times> 8 word list \<times> string" where
  "addrKey InvalidAddr = (0, [], [])"
| "addrKey (V4 a b c d) = (32, [a, b, c, d], [])"
| "addrKey (V6 bs zone) = (128, bs, zone)"

lemma addrKey_inj: "addrKey a = addrKey b \<Longrightarrow> a = b"
  by (cases a; cases b) auto

instantiation addr :: linorder
begin

definition less_eq_addr :: "addr \<Rightarrow> addr \<Rightarrow> bool" where
  "less_eq_addr a b = (addrKey a \<le> addrKey b)"

definition less_addr :: "addr \<Rightarrow> addr \<Rightarrow> bool" where
  "less_addr a b = (addrKey a < addrKey b)"

instance
  by standard (auto simp: less_eq_addr_def less_addr_def dest: addrKey_inj)

end

text \<open>
  \<open>slices.SortFunc(xs, Addr.Compare)\<close>.
\<close>

definition sortAddrs :: "addr list \<Rightarrow> addr list" where
  "sortAddrs xs = sort_Slice (\<lambda>left right. left < right) xs"

lemma sortAddrs_sort: "sortAddrs xs = sort xs"
  unfolding sortAddrs_def by (simp add: sort_Slice_sort_key [of "\<lambda>x. x"])

lemma sortAddrs_props [simp]:
  "set (sortAddrs xs) = set xs" "distinct (sortAddrs xs) = distinct xs" "sorted (sortAddrs xs)"
  by (simp_all add: sortAddrs_sort)

section \<open>Printing\<close>

definition octet :: "8 word \<Rightarrow> string" where
  "octet b = itoa (unat b)"

text \<open>\<open>Addr.String\<close> of an IPv4 address.\<close>

definition dotted :: "8 word \<Rightarrow> 8 word \<Rightarrow> 8 word \<Rightarrow> 8 word \<Rightarrow> string" where
  "dotted a b c d = octet a @ ''.'' @ octet b @ ''.'' @ octet c @ ''.'' @ octet d"

text \<open>
  \<open>Addr.String\<close> of an IPv6 address: eight groups in hexadecimal, the first longest run of
  at least two zero groups as \<open>::\<close>; an IPv4-mapped address ends in dotted decimal.
\<close>

definition hexDigit :: "nat \<Rightarrow> char" where
  "hexDigit d = char_of (if d < 10 then 48 + d else 87 + d)"

fun hexString :: "nat \<Rightarrow> string" where
  "hexString n = (if n < 16 then [hexDigit n] else hexString (n div 16) @ [hexDigit (n mod 16)])"

declare hexString.simps [simp del]

fun groups16 :: "8 word list \<Rightarrow> nat list" where
  "groups16 (hi # lo # bs) = (unat hi * 256 + unat lo) # groups16 bs"
| "groups16 _ = []"

definition zeroRun :: "nat list \<Rightarrow> nat \<Rightarrow> nat" where
  "zeroRun gs i = length (takeWhile (\<lambda>g. g = 0) (drop i gs))"

definition longestZeroRun :: "nat list \<Rightarrow> nat \<times> nat" where
  "longestZeroRun gs =
     foldl (\<lambda>(st, n) i. if 2 \<le> zeroRun gs i \<and> n < zeroRun gs i then (i, zeroRun gs i) else (st, n))
       (0, 0) [0..<length gs]"

definition v6String :: "8 word list \<Rightarrow> string" where
  "v6String bs =
     (let gs = groups16 bs; (st, n) = longestZeroRun gs; hex = (\<lambda>l. Join '':'' (map hexString l)) in
      if n = 0 then hex gs else hex (take st gs) @ ''::'' @ hex (drop (st + n) gs))"

fun AddrString :: "addr \<Rightarrow> string" where
  "AddrString InvalidAddr = ''invalid IP''"
| "AddrString (V4 a b c d) = dotted a b c d"
| "AddrString (V6 bs zone) =
     (if length bs = 16 \<and> take 12 bs = replicate 10 0 @ [255, 255]
      then ''::ffff:'' @ dotted (bs ! 12) (bs ! 13) (bs ! 14) (bs ! 15)
      else v6String bs) @ (if zone = [] then [] else ''%'' @ zone)"

section \<open>Parsing IPv4\<close>

datatype parse_error =
    MissingIPv6Address | UnableToParseIP
  | LeadingZero | ValueTooBig | MissingDigit | TooLong | UnexpectedCharacter | TooShort
  | EmptyZone | GroupTooLong | FieldOverflow | FieldWithoutDigit | MisplacedIPv4 | NoRoomForIPv4
  | WantColon | TrailingColon | MultipleEllipsis | TrailingGarbage | UselessEllipsis

text \<open>
  \<open>parseIPv4Fields\<close>: one pass over the characters with the octets finished so far, the
  value and the number of digits of the current octet.  A dot needs a digit before it and
  a character after it.
\<close>

fun parseIPv4Fields :: "8 word list \<Rightarrow> nat \<Rightarrow> nat \<Rightarrow> string \<Rightarrow> (parse_error, 8 word list) result" where
  "parseIPv4Fields fields val digLen [] =
     (if length fields < 3 then Inl TooShort else Inr (fields @ [word_of_nat val]))"
| "parseIPv4Fields fields val digLen (c # s) =
     (if isDigit c then
        if digLen = 1 \<and> val = 0 then Inl LeadingZero
        else if val * 10 + digitVal c > 255 then Inl ValueTooBig
        else parseIPv4Fields fields (val * 10 + digitVal c) (digLen + 1) s
      else if c = CHR ''.'' then
        if digLen = 0 \<or> s = [] then Inl MissingDigit
        else if length fields = 3 then Inl TooLong
        else parseIPv4Fields (fields @ [word_of_nat val]) 0 0 s
      else Inl UnexpectedCharacter)"

definition parseIPv4 :: "string \<Rightarrow> (parse_error, addr) result" where
  "parseIPv4 s =
     (case parseIPv4Fields [] 0 0 s of Inl e \<Rightarrow> Inl e
      | Inr [a, b, c, d] \<Rightarrow> Inr (V4 a b c d)
      | Inr _ \<Rightarrow> Inl TooShort)"

section \<open>Parsing IPv6\<close>

definition hexVal :: "char \<Rightarrow> nat option" where
  "hexVal c =
     (let b = byte c in
      if 48 \<le> b \<and> b \<le> 57 then Some (b - 48)
      else if 97 \<le> b \<and> b \<le> 102 then Some (b - 87)
      else if 65 \<le> b \<and> b \<le> 70 then Some (b - 55) else None)"

text \<open>The hexadecimal digits of one group: its value, their number and the rest.\<close>

fun hexGroup :: "nat \<Rightarrow> nat \<Rightarrow> string \<Rightarrow> (parse_error, nat \<times> nat \<times> string) result" where
  "hexGroup acc off [] = Inr (acc, off, [])"
| "hexGroup acc off (c # s) =
     (case hexVal c of None \<Rightarrow> Inr (acc, off, c # s)
      | Some h \<Rightarrow>
          if off > 3 then Inl GroupTooLong
          else if acc * 16 + h > 65535 then Inl FieldOverflow
          else hexGroup (acc * 16 + h) (off + 1) s)"

text \<open>
  The loop over the groups of \<open>parseIPv6\<close>.  \<open>room\<close> is the number of 16-bit groups still
  free (\<open>16 - i\<close> halved), \<open>ip\<close> the octets so far and \<open>ell\<close> the position of the ellipsis.
  The result carries the unread rest.
\<close>

fun ipv6Groups ::
  "nat \<Rightarrow> 8 word list \<Rightarrow> nat option \<Rightarrow> string \<Rightarrow> (parse_error, 8 word list \<times> nat option \<times> string) result"
  where
  "ipv6Groups 0 ip ell s = Inr (ip, ell, s)"
| "ipv6Groups (Suc room) ip ell s =
     (case hexGroup 0 0 s of Inl e \<Rightarrow> Inl e
      | Inr (acc, off, rest) \<Rightarrow>
          if off = 0 then Inl FieldWithoutDigit
          else if rest \<noteq> [] \<and> hd rest = CHR ''.'' then
            if ell = None \<and> length ip \<noteq> 12 then Inl MisplacedIPv4
            else if length ip + 4 > 16 then Inl NoRoomForIPv4
            else (case parseIPv4Fields [] 0 0 s of Inl e \<Rightarrow> Inl e
                  | Inr fs \<Rightarrow> Inr (ip @ fs, ell, []))
          else
            let ip' = ip @ [word_of_nat (acc div 256), word_of_nat (acc mod 256)] in
            (case rest of
               [] \<Rightarrow> Inr (ip', ell, [])
             | c # r \<Rightarrow>
                 if c \<noteq> CHR '':'' then Inl WantColon
                 else case r of [] \<Rightarrow> Inl TrailingColon
                 | c2 # r2 \<Rightarrow>
                     if c2 = CHR '':'' then
                       if ell \<noteq> None then Inl MultipleEllipsis
                       else if r2 = [] then Inr (ip', Some (length ip'), [])
                       else ipv6Groups room ip' (Some (length ip')) r2
                     else ipv6Groups room ip' ell r))"

definition parseIPv6 :: "string \<Rightarrow> (parse_error, addr) result" where
  "parseIPv6 inp =
     (let hasZone = CHR ''%'' \<in> set inp;
          s = takeWhile (\<lambda>c. c \<noteq> CHR ''%'') inp;
          zone = drop (length s + 1) inp
      in if hasZone \<and> zone = [] then Inl EmptyZone
         else
           let lead = prefix ''::'' s; s1 = (if lead then drop 2 s else s) in
           if lead \<and> s1 = [] then Inr (V6 (replicate 16 0) zone)
           else case ipv6Groups 8 [] (if lead then Some 0 else None) s1 of
             Inl e \<Rightarrow> Inl e
           | Inr (ip, ell, rest) \<Rightarrow>
               if rest \<noteq> [] then Inl TrailingGarbage
               else if length ip < 16 then
                 (case ell of None \<Rightarrow> Inl TooShort
                  | Some e \<Rightarrow> Inr (V6 (take e ip @ replicate (16 - length ip) 0 @ drop e ip) zone))
               else if ell \<noteq> None then Inl UselessEllipsis
               else Inr (V6 ip zone))"

section \<open>ParseAddr and ParsePrefix\<close>

text \<open>\<open>netip.ParseAddr\<close>: the first dot, colon or percent sign selects the syntax.\<close>

definition ParseAddr :: "string \<Rightarrow> (parse_error, addr) result" where
  "ParseAddr s =
     (case find (\<lambda>c. c = CHR ''.'' \<or> c = CHR '':'' \<or> c = CHR ''%'') s of
        None \<Rightarrow> Inl UnableToParseIP
      | Some c \<Rightarrow>
          if c = CHR ''.'' then parseIPv4 s
          else if c = CHR '':'' then parseIPv6 s
          else Inl MissingIPv6Address)"

text \<open>The test \<open>err != nil || !addr.Is4()\<close> that guards most uses of \<open>ParseAddr\<close>.\<close>

definition parse4 :: "string \<Rightarrow> addr option" where
  "parse4 s = (case ParseAddr s of Inl _ \<Rightarrow> None | Inr a \<Rightarrow> if Is4 a then Some a else None)"

text \<open>\<open>netip.Prefix\<close>: an address and a prefix length.\<close>

type_synonym ip_prefix = "addr \<times> nat"

definition ParsePrefix :: "string \<Rightarrow> ip_prefix option" where
  "ParsePrefix s =
     (if CHR ''/'' \<notin> set s then None
      else
        let bitsStr = rev (takeWhile (\<lambda>c. c \<noteq> CHR ''/'') (rev s));
            ipStr = take (length s - length bitsStr - 1) s
        in case ParseAddr ipStr of Inl _ \<Rightarrow> None
           | Inr ip \<Rightarrow>
               if (case ip of V6 _ zone \<Rightarrow> zone \<noteq> [] | _ \<Rightarrow> False) then None
               else if length bitsStr > 1 \<and> \<not> (CHR ''1'' \<le> hd bitsStr \<and> hd bitsStr \<le> CHR ''9'') then None
               else case Atoi bitsStr of None \<Rightarrow> None
                 | Some bits \<Rightarrow>
                     if bits < 0 \<or> bits > (if Is4 ip then 32 else 128) then None
                     else Some (ip, nat bits))"

section \<open>Round trips of IPv4 text\<close>

lemma parse_digits:
  assumes "n \<le> 255"
  shows "parseIPv4Fields fields 0 0 (itoa n @ s) = parseIPv4Fields fields n (length (itoa n)) s"
  using assms
proof (induction n arbitrary: s rule: itoa.induct)
  case (1 n)
  show ?case
  proof (cases "n < 10")
    case True
    then show ?thesis by (simp add: itoa.simps [of n])
  next
    case False
    have "parseIPv4Fields fields 0 0 (itoa (n div 10) @ digitChar (n mod 10) # s)
        = parseIPv4Fields fields (n div 10) (length (itoa (n div 10))) (digitChar (n mod 10) # s)"
      using 1 False by simp
    also have "\<dots> = parseIPv4Fields fields n (length (itoa n)) s"
      using False 1(2) div_greater_zero_iff [of n 10] by (auto simp: itoa.simps [of n])
    finally show ?thesis using False by (simp add: itoa.simps [of n])
  qed
qed

lemma parse_octet: "parseIPv4Fields fields 0 0 (octet b @ s)
    = parseIPv4Fields fields (unat b) (length (octet b)) s"
proof -
  have "unat b < 2 ^ LENGTH(8)" by (rule unsigned_less)
  then have "unat b \<le> 255" by simp
  then show ?thesis by (simp add: octet_def parse_digits)
qed

lemma octet_ne [simp]: "octet b \<noteq> []"
  by (simp add: octet_def)

lemma parse_dot:
  "d \<noteq> 0 \<Longrightarrow> s \<noteq> [] \<Longrightarrow> length fields < 3 \<Longrightarrow>
   parseIPv4Fields fields v d (CHR ''.'' # s) = parseIPv4Fields (fields @ [word_of_nat v]) 0 0 s"
  by (simp add: isDigit_iff)

lemma parseIPv4_dotted: "parseIPv4 (dotted a b c d) = Inr (V4 a b c d)"
proof -
  have "parseIPv4Fields [] 0 0 (dotted a b c d) = Inr [a, b, c, d]"
    using parse_octet [of "[a, b, c]" d "[]"]
    by (simp add: dotted_def parse_octet parse_dot del: parseIPv4Fields.simps(2))
  then show ?thesis by (simp add: parseIPv4_def)
qed

lemma octet_digits: "list_all isDigit (octet b)"
  by (simp add: octet_def itoa_digits)

lemma find_skip: "list_all (\<lambda>c. \<not> P c) s \<Longrightarrow> find P (s @ t) = find P t"
  by (induction s) auto

lemma find_dotted:
  "find (\<lambda>c. c = CHR ''.'' \<or> c = CHR '':'' \<or> c = CHR ''%'') (dotted a b c d) = Some CHR ''.''"
proof -
  have "list_all (\<lambda>c. \<not> (c = CHR ''.'' \<or> c = CHR '':'' \<or> c = CHR ''%'')) (octet a)"
    using octet_digits [of a] by (auto simp: list_all_iff isDigit_iff)
  from find_skip [OF this] show ?thesis by (simp add: dotted_def)
qed

lemma ParseAddr_dotted [simp]: "ParseAddr (dotted a b c d) = Inr (V4 a b c d)"
  by (simp add: ParseAddr_def find_dotted parseIPv4_dotted)

lemma parse4_AddrString: "Is4 a \<Longrightarrow> parse4 (AddrString a) = Some a"
  by (cases a) (simp_all add: parse4_def)

text \<open>
  Conversely, accepted digits of one octet are the decimal text of its value: no leading
  zeros pass, so distinct texts are distinct addresses.
\<close>

lemma parse_fields_text:
  assumes "parseIPv4Fields fields val digLen s = Inr out"
    and "(digLen = 0 \<and> val = 0 \<and> done = []) \<or> (digLen = length done \<and> done = itoa val \<and> val \<le> 255)"
    and "length fields \<le> 3" and "s = [] \<longrightarrow> digLen \<noteq> 0"
  shows "length out = 4 \<and> take (length fields) out = fields \<and>
    done @ s = Join ''.'' (map octet (drop (length fields) out))"
  using assms
proof (induction fields val digLen s arbitrary: "done" rule: parseIPv4Fields.induct)
  case (1 fields val digLen)
  then have "done = itoa val" "val \<le> 255" "length fields = 3" "out = fields @ [word_of_nat val]"
    by (auto split: if_splits)
  then show ?case by (simp add: octet_def unat_of_nat)
next
  case (2 fields val digLen c s)
  show ?case
  proof (cases "isDigit c")
    case True
    let ?v = "val * 10 + digitVal c"
    from True 2(3) have ok: "\<not> (digLen = 1 \<and> val = 0)" "?v \<le> 255"
        "parseIPv4Fields fields ?v (digLen + 1) s = Inr out"
      by (auto split: if_splits)
    have dv: "digitVal c < 10" "c = digitChar (digitVal c)"
      using True by (auto simp: isDigit_iff digitVal_def digitChar_def)
    have it: "done @ [c] = itoa ?v"
    proof (cases "digLen = 0")
      case True
      with 2(4) have "val = 0" "done = []" using itoa_ne [of val] by (metis length_0_conv)+
      with dv show ?thesis by (simp add: itoa.simps [of "digitVal c"])
    next
      case False
      with 2(4) have d: "done = itoa val" "digLen = length (itoa val)" by auto
      have "length (itoa 0) = 1" by (simp add: itoa.simps [of 0])
      then have "val \<noteq> 0" using ok(1) d(2) by metis
      with dv d show ?thesis by (simp add: itoa.simps [of ?v])
    qed
    have len: "digLen + 1 = length (done @ [c])" using 2(4) by auto
    have "length out = 4 \<and> take (length fields) out = fields \<and>
        (done @ [c]) @ s = Join ''.'' (map octet (drop (length fields) out))"
      using 2(1) [of "done @ [c]"] True ok it len 2(5) by simp
    then show ?thesis by simp
  next
    case False
    with 2(3) have dot: "c = CHR ''.''" "digLen \<noteq> 0" "s \<noteq> []" "length fields \<noteq> 3"
        "parseIPv4Fields (fields @ [word_of_nat val]) 0 0 s = Inr out"
      by (auto split: if_splits)
    from dot(2) 2(4) have d: "done = itoa val" "val \<le> 255" by auto
    have IH: "length out = 4 \<and> take (Suc (length fields)) out = fields @ [word_of_nat val] \<and>
        s = Join ''.'' (map octet (drop (Suc (length fields)) out))"
      using 2(2) [of "[]"] False dot 2(5) by simp
    let ?n = "length fields"
    have n: "?n < 3" using dot(4) 2(5) by simp
    with IH have nth: "out ! ?n = word_of_nat val"
      by (metis length_append_singleton lessI nth_append_length nth_take)
    have fs: "take ?n out = fields"
      using IH by (metis append_eq_conv_conj le_SucI order_refl take_take min.absorb1)
    have "drop ?n out = out ! ?n # drop (Suc ?n) out" "drop (Suc ?n) out \<noteq> []"
      using IH n by (simp_all add: Cons_nth_drop_Suc)
    then obtain x xs where "drop ?n out = word_of_nat val # x # xs" "drop (Suc ?n) out = x # xs"
      using nth by (metis neq_Nil_conv)
    moreover have "octet (word_of_nat val) = itoa val"
      using d(2) by (simp add: octet_def unat_of_nat)
    ultimately show ?thesis using IH fs d dot(1) by simp
  qed
qed

lemma parseIPv4_canonical:
  assumes "parseIPv4 s = Inr a"
  shows "Is4 a \<and> AddrString a = s"
proof (cases "s = []")
  case True
  with assms show ?thesis by (simp add: parseIPv4_def)
next
  case False
  from assms obtain w x y z where f: "parseIPv4Fields [] 0 0 s = Inr [w, x, y, z]" "a = V4 w x y z"
    by (auto simp: parseIPv4_def split: sum.splits list.splits)
  from parse_fields_text [OF f(1), of "[]"] False
  have "s = Join ''.'' (map octet [w, x, y, z])" by simp
  with f(2) show ?thesis by (simp add: dotted_def)
qed

lemma parseIPv6_not_Is4: "parseIPv6 s = Inr a \<Longrightarrow> \<not> Is4 a"
  by (auto simp: parseIPv6_def Let_def split: if_splits sum.splits option.splits)

lemma parse4_Some: "parse4 s = Some a \<longleftrightarrow> Is4 a \<and> s = AddrString a"
proof
  assume p: "parse4 s = Some a"
  then have "ParseAddr s = Inr a" "Is4 a" by (auto simp: parse4_def split: sum.splits if_splits)
  then have "parseIPv4 s = Inr a"
    by (auto simp: ParseAddr_def dest: parseIPv6_not_Is4 split: option.splits if_splits)
  then show "Is4 a \<and> s = AddrString a" using parseIPv4_canonical by blast
next
  assume "Is4 a \<and> s = AddrString a"
  then show "parse4 s = Some a" using parse4_AddrString by blast
qed

lemma AddrString_inj4: "Is4 a \<Longrightarrow> Is4 b \<Longrightarrow> AddrString a = AddrString b \<longleftrightarrow> a = b"
  by (metis parse4_AddrString option.inject)

lemma AddrString_plain: "Is4 a \<Longrightarrow> list_all plain (AddrString a)"
proof (cases a)
  case (V4 w x y z)
  have "plain CHR ''.''" by (simp add: plain_def)
  then show ?thesis using V4 by (simp add: dotted_def octet_def itoa_plain)
qed simp_all

lemma AddrString_TrimSpace [simp]: "Is4 a \<Longrightarrow> TrimSpace (AddrString a) = AddrString a"
  by (rule TrimSpace_plain [OF AddrString_plain])

lemma AddrString_ne [simp]: "Is4 a \<Longrightarrow> AddrString a \<noteq> []"
  by (cases a) (simp_all add: dotted_def)

lemma ParseAddr_Nil [simp]: "ParseAddr [] = Inl UnableToParseIP"
  by (simp add: ParseAddr_def)

lemma parse4_Nil [simp]: "parse4 [] = None"
  by (simp add: parse4_def)

end
