(* ===== verification/Provider_Model.thy ===== *)
theory Provider_Model
  imports Netip
begin

text \<open>
  The provider package: the desired load-balancer state of one Service
  (\<open>internal/provider/provider.go\<close>), the in-memory \<open>MockProvider\<close>
  (\<open>internal/provider/mock_provider.go\<close>), and the contract that every keyed store of
  desired state satisfies, as a locale that the stores of the program interpret.
  Port numbers are Go \<open>int32\<close> values; the program compares and prints them and does no
  arithmetic on them, so they are \<open>int\<close>.
\<close>

section \<open>Data\<close>

record service_ref =
  Namespace :: string
  Name :: string

record backend_endpoint =
  Address :: string
  Port :: int

record service_port =
  sp_Name :: string
  Protocol :: string
  sp_Port :: int
  TargetPort :: string
  Backends :: "backend_endpoint list"

record p_service =
  svc_Namespace :: string
  svc_Name :: string
  LoadBalancerClass :: string
  ExternalIP :: string
  Ports :: "service_port list"

definition RefString :: "service_ref \<Rightarrow> string" where
  "RefString r = Namespace r @ ''/'' @ Name r"

definition Ref :: "p_service \<Rightarrow> service_ref" where
  "Ref s = \<lparr>Namespace = svc_Namespace s, Name = svc_Name s\<rparr>"

fun EqualFunc :: "('a \<Rightarrow> 'a \<Rightarrow> bool) \<Rightarrow> 'a list \<Rightarrow> 'a list \<Rightarrow> bool" where
  "EqualFunc eq [] [] = True"
| "EqualFunc eq (x # xs) (y # ys) = (eq x y \<and> EqualFunc eq xs ys)"
| "EqualFunc eq _ _ = False"

definition ServicePort_Equal :: "service_port \<Rightarrow> service_port \<Rightarrow> bool" where
  "ServicePort_Equal p other =
     (sp_Name p = sp_Name other \<and> Protocol p = Protocol other \<and> sp_Port p = sp_Port other \<and>
      TargetPort p = TargetPort other \<and> EqualFunc (=) (Backends p) (Backends other))"

definition Service_Equal :: "p_service \<Rightarrow> p_service \<Rightarrow> bool" where
  "Service_Equal s other =
     (if svc_Namespace s \<noteq> svc_Namespace other \<or> svc_Name s \<noteq> svc_Name other \<or>
         LoadBalancerClass s \<noteq> LoadBalancerClass other \<or> ExternalIP s \<noteq> ExternalIP other \<or>
         length (Ports s) \<noteq> length (Ports other)
      then False
      else EqualFunc ServicePort_Equal (Ports s) (Ports other))"

text \<open>
  Values are immutable here, so the detached copies of \<open>DeepCopy\<close> are the values
  themselves, rebuilt field by field as the code does.
\<close>

definition ServicePort_DeepCopy :: "service_port \<Rightarrow> service_port" where
  "ServicePort_DeepCopy p = p\<lparr>Backends := map (\<lambda>b. b) (Backends p)\<rparr>"

definition Service_DeepCopy :: "p_service \<Rightarrow> p_service" where
  "Service_DeepCopy s = s\<lparr>Ports := map ServicePort_DeepCopy (Ports s)\<rparr>"

text \<open>Sorting a service list by namespace and name, as every listing of the program does.\<close>

definition serviceLess :: "p_service \<Rightarrow> p_service \<Rightarrow> bool" where
  "serviceLess a b =
     (if svc_Namespace a = svc_Namespace b then svc_Name a < svc_Name b
      else svc_Namespace a < svc_Namespace b)"

definition serviceKey :: "p_service \<Rightarrow> string \<times> string" where
  "serviceKey s = (svc_Namespace s, svc_Name s)"

text \<open>The order of backends, by address and then by port, of discovery and of the dataplane store.\<close>

definition backendLess :: "backend_endpoint \<Rightarrow> backend_endpoint \<Rightarrow> bool" where
  "backendLess a b = (if Address a = Address b then Port a < Port b else Address a < Address b)"

section \<open>The mock provider\<close>

record mock_provider =
  mock_services :: "(service_ref \<times> p_service) list"

definition NewMockProvider :: mock_provider where
  "NewMockProvider = \<lparr>mock_services = []\<rparr>"

definition Mock_Ensure :: "p_service \<Rightarrow> mock_provider \<Rightarrow> mock_provider \<times> bool" where
  "Mock_Ensure service p =
     (case map_of (mock_services p) (Ref service) of
        Some current \<Rightarrow>
          if Service_Equal current service then (p, False)
          else (p\<lparr>mock_services := AList.update (Ref service) (Service_DeepCopy service) (mock_services p)\<rparr>, True)
      | None \<Rightarrow>
          (p\<lparr>mock_services := AList.update (Ref service) (Service_DeepCopy service) (mock_services p)\<rparr>, True))"

definition Mock_Delete :: "service_ref \<Rightarrow> mock_provider \<Rightarrow> mock_provider \<times> bool" where
  "Mock_Delete ref p =
     (case map_of (mock_services p) ref of
        None \<Rightarrow> (p, False)
      | Some _ \<Rightarrow> (p\<lparr>mock_services := AList.delete ref (mock_services p)\<rparr>, True))"

definition Mock_Get :: "mock_provider \<Rightarrow> service_ref \<Rightarrow> p_service option" where
  "Mock_Get p ref = map_option Service_DeepCopy (map_of (mock_services p) ref)"

definition Mock_List :: "mock_provider \<Rightarrow> p_service list" where
  "Mock_List p = sort_Slice serviceLess (map (\<lambda>(_, s). Service_DeepCopy s) (mock_services p))"

definition Mock_Snapshot :: "mock_provider \<Rightarrow> (service_ref \<times> p_service) list" where
  "Mock_Snapshot p = map (\<lambda>(ref, s). (ref, Service_DeepCopy s)) (mock_services p)"

section \<open>Equality and copies\<close>

lemma EqualFunc_list_all2: "EqualFunc eq xs ys \<longleftrightarrow> list_all2 eq xs ys"
  by (induction eq xs ys rule: EqualFunc.induct) auto

lemma ServicePort_Equal_iff [simp]: "ServicePort_Equal p q \<longleftrightarrow> p = q"
  by (cases p; cases q) (auto simp: ServicePort_Equal_def EqualFunc_list_all2 list_all2_eq)

lemma Service_Equal_iff [simp]: "Service_Equal s t \<longleftrightarrow> s = t"
proof -
  have "EqualFunc ServicePort_Equal xs ys \<longleftrightarrow> xs = ys" for xs ys
    by (simp add: EqualFunc_list_all2 list_all2_eq [symmetric] cong: list.rel_cong)
  then show ?thesis by (cases s; cases t) (auto simp: Service_Equal_def)
qed

lemma Service_DeepCopy_id [simp]: "Service_DeepCopy s = s"
proof -
  have "map ServicePort_DeepCopy ps = ps" for ps
    by (rule map_idI) (simp add: ServicePort_DeepCopy_def)
  then show ?thesis by (simp add: Service_DeepCopy_def)
qed

lemma serviceLess_key: "serviceLess a b \<longleftrightarrow> serviceKey a < serviceKey b"
  by (auto simp: serviceLess_def serviceKey_def less_prod_def less_le)

lemma sort_serviceLess: "sort_Slice serviceLess xs = sort_key serviceKey xs"
proof -
  have "serviceLess = (\<lambda>a b. serviceKey a < serviceKey b)"
    by (intro ext) (rule serviceLess_key)
  then show ?thesis using sort_Slice_sort_key [of serviceKey xs] by simp
qed

lemma Ref_eq_iff: "Ref a = Ref b \<longleftrightarrow> serviceKey a = serviceKey b"
  by (auto simp: Ref_def serviceKey_def)

definition backendKey2 :: "backend_endpoint \<Rightarrow> string \<times> int" where
  "backendKey2 b = (Address b, Port b)"

lemma backendKey2_inj: "inj backendKey2"
  by (rule injI) (simp add: backendKey2_def)

lemma backendLess_key: "backendLess = (\<lambda>a b. backendKey2 a < backendKey2 b)"
  by (intro ext) (auto simp: backendLess_def backendKey2_def less_prod_def less_le)

lemma sort_backendLess: "sort_Slice backendLess xs = sort_key backendKey2 xs"
  unfolding backendLess_key by (rule sort_Slice_sort_key)

lemma sort_backends_unique:
  "mset xs = mset ys \<Longrightarrow> sort_Slice backendLess xs = sort_Slice backendLess ys"
  unfolding sort_backendLess
  using sort_key_inj_key_eq [of xs "sort_key backendKey2 ys" backendKey2]
    inj_on_subset [OF backendKey2_inj subset_UNIV] by simp

section \<open>The contract of a store of desired state\<close>

text \<open>
  A store keeps one canonical Service per reference: \<open>put\<close> replaces the entry of the
  Service's own reference by its canonical form, \<open>del\<close> drops an entry, \<open>get\<close> looks one
  up, \<open>listing\<close> gives every stored Service ordered by namespace and name.
\<close>

locale desired_state =
  fixes empty :: 's
    and put :: "p_service \<Rightarrow> 's \<Rightarrow> 's"
    and del :: "service_ref \<Rightarrow> 's \<Rightarrow> 's"
    and get :: "'s \<Rightarrow> service_ref \<Rightarrow> p_service option"
    and listing :: "'s \<Rightarrow> p_service list"
    and canon :: "p_service \<Rightarrow> p_service"
    and invar :: "'s \<Rightarrow> bool"
  assumes get_empty: "get empty = Map.empty"
    and get_put: "invar s \<Longrightarrow> get (put v s) = (get s)(Ref v \<mapsto> canon v)"
    and get_del: "invar s \<Longrightarrow> get (del r s) = (get s)(r := None)"
    and invar_empty: "invar empty"
    and invar_put: "invar s \<Longrightarrow> invar (put v s)"
    and invar_del: "invar s \<Longrightarrow> invar (del r s)"
    and canon_idem: "canon (canon v) = canon v"
    and canon_ref: "Ref (canon v) = Ref v"
    and get_canon: "invar s \<Longrightarrow> get s r = Some v \<Longrightarrow> Ref v = r \<and> canon v = v"
    and set_listing: "invar s \<Longrightarrow> set (listing s) = ran (get s)"
    and sorted_listing: "invar s \<Longrightarrow> sorted (map serviceKey (listing s))"
    and distinct_listing: "invar s \<Longrightarrow> distinct (map serviceKey (listing s))"
begin

lemma get_after_put: "invar s \<Longrightarrow> get (put v s) (Ref v) = Some (canon v)"
  by (simp add: get_put)

lemma put_frame: "invar s \<Longrightarrow> r \<noteq> Ref v \<Longrightarrow> get (put v s) r = get s r"
  by (simp add: get_put)

lemma get_after_del: "invar s \<Longrightarrow> get (del r s) r = None"
  by (simp add: get_del)

lemma put_put: "invar s \<Longrightarrow> Ref v = Ref w \<Longrightarrow> get (put w (put v s)) = get (put w s)"
  by (simp add: get_put invar_put)

lemma put_commute:
  "invar s \<Longrightarrow> Ref v \<noteq> Ref w \<Longrightarrow> get (put w (put v s)) = get (put v (put w s))"
  by (simp add: get_put invar_put fun_upd_twist)

lemma del_put: "invar s \<Longrightarrow> get s (Ref v) = None \<Longrightarrow> get (del (Ref v) (put v s)) = get s"
  by (simp add: get_put get_del invar_put fun_upd_idem)

text \<open>
  The listing is a function of the lookups alone: two stores with the same lookups list
  the same Services in the same order, however their maps are iterated.
\<close>

lemma listing_determined:
  assumes s: "invar s" and t: "invar t" and same: "get s = get t"
  shows "listing s = listing t"
proof -
  have inj: "inj_on serviceKey (set (listing t))" and d: "distinct (listing s)" "distinct (listing t)"
    using distinct_listing [OF t] distinct_listing [OF s] by (simp_all add: distinct_map)
  have "set (listing s) = set (listing t)"
    using set_listing [OF s] set_listing [OF t] same by simp
  with d have "mset (listing s) = mset (listing t)"
    using set_eq_iff_mset_eq_distinct by blast
  then show ?thesis
    using sort_Slice_unique [OF _ inj sorted_listing [OF t]]
      sort_key_map_self [OF sorted_listing [OF s]] by (metis sort_Slice_sort_key)
qed

lemma listing_put_same:
  assumes "invar s" "get s (Ref v) = Some (canon v)"
  shows "listing (put v s) = listing s"
  using assms by (intro listing_determined) (auto simp: get_put invar_put fun_upd_idem)

lemma listing_empty: "listing empty = []"
  using set_listing [OF invar_empty] by (simp add: get_empty)

lemma listing_canon: "invar s \<Longrightarrow> v \<in> set (listing s) \<Longrightarrow> canon v = v \<and> get s (Ref v) = Some v"
  using set_listing get_canon by (fastforce simp: ran_def)

end

section \<open>The mock provider meets the contract\<close>

definition mock_ok :: "mock_provider \<Rightarrow> bool" where
  "mock_ok p = (distinct (map fst (mock_services p)) \<and>
     list_all (\<lambda>(r, s). Ref s = r) (mock_services p))"

lemma Mock_Get_map_of [simp]: "Mock_Get p = map_of (mock_services p)"
proof
  fix r
  show "Mock_Get p r = map_of (mock_services p) r"
    by (cases "map_of (mock_services p) r") (simp_all add: Mock_Get_def)
qed

lemma mock_services_Ensure:
  "mock_ok p \<Longrightarrow> map_of (mock_services (fst (Mock_Ensure v p))) = (map_of (mock_services p))(Ref v \<mapsto> v)"
  by (auto simp: Mock_Ensure_def update_conv' split: option.splits)

lemma mock_ok_Ensure: "mock_ok p \<Longrightarrow> mock_ok (fst (Mock_Ensure v p))"
  by (auto simp: mock_ok_def Mock_Ensure_def distinct_update alist_update_set list_all_iff
      split: option.splits)

lemma mock_ok_Delete: "mock_ok p \<Longrightarrow> mock_ok (fst (Mock_Delete r p))"
  by (auto simp: mock_ok_def Mock_Delete_def distinct_delete alist_delete_set list_all_iff
      split: option.splits)

lemma alist_values_ran: "distinct (map fst al) \<Longrightarrow> snd ` set al = ran (map_of al)"
  by (simp add: ran_distinct)

lemma keyed_alist_distinct:
  assumes "distinct (map fst al)" "\<forall>(r, s) \<in> set al. Ref s = r"
  shows "distinct (map (\<lambda>p. serviceKey (snd p)) al)"
  using assms by (induction al) (auto simp: Ref_eq_iff [symmetric] rev_image_eqI)

interpretation mock: desired_state NewMockProvider "\<lambda>v p. fst (Mock_Ensure v p)"
  "\<lambda>r p. fst (Mock_Delete r p)" Mock_Get Mock_List "\<lambda>v. v" mock_ok
proof (unfold_locales, goal_cases)
  case 1 show ?case by (simp add: NewMockProvider_def)
next
  case (2 s v) then show ?case by (simp add: mock_services_Ensure)
next
  case (3 s r) then show ?case
    by (auto simp: Mock_Delete_def delete_conv' fun_eq_iff split: option.splits)
next
  case 4 show ?case by (simp add: NewMockProvider_def mock_ok_def)
next
  case (5 s v) then show ?case by (rule mock_ok_Ensure)
next
  case (6 s r) then show ?case by (rule mock_ok_Delete)
next
  case (9 s r v) then show ?case
    by (auto simp: mock_ok_def list_all_iff dest!: map_of_in_set)
next
  case (10 s) then show ?case
    by (simp add: Mock_List_def mock_ok_def ran_distinct case_prod_beta)
next
  case (11 s) show ?case by (simp add: Mock_List_def sort_serviceLess)
next
  case (12 s) then show ?case
    using keyed_alist_distinct [of "mock_services s"]
    by (simp add: Mock_List_def mock_ok_def list_all_iff case_prod_beta comp_def del: distinct_map)
qed simp_all

end
