(* ===== verification/Store.thy ===== *)
theory Store
  imports Provider_Model
begin

text \<open>
  \<open>internal/dataplane/store.go\<close>: the in-memory store of desired Services of the dataplane,
  which keeps every Service in canonical form (ports and backends sorted).  The store is an
  instance of the store contract; in particular its listing depends on its lookups only.
\<close>

section \<open>Model\<close>

record store =
  services :: "(service_ref \<times> p_service) list"

definition portLess :: "service_port \<Rightarrow> service_port \<Rightarrow> bool" where
  "portLess a b =
     (if sp_Port a \<noteq> sp_Port b then sp_Port a < sp_Port b
      else if Protocol a \<noteq> Protocol b then Protocol a < Protocol b
      else if sp_Name a \<noteq> sp_Name b then sp_Name a < sp_Name b
      else TargetPort a < TargetPort b)"

definition normalizeService :: "p_service \<Rightarrow> p_service" where
  "normalizeService service =
     (let copied = Service_DeepCopy service;
          sorted_ports = sort_Slice portLess (Ports copied)
      in copied\<lparr>Ports :=
           map (\<lambda>p. p\<lparr>Backends := sort_Slice backendLess (Backends p)\<rparr>) sorted_ports\<rparr>)"

definition NewStore :: store where
  "NewStore = \<lparr>services = []\<rparr>"

definition Clone :: "store \<Rightarrow> store" where
  "Clone s = NewStore\<lparr>services := map (\<lambda>(ref, service). (ref, normalizeService service)) (services s)\<rparr>"

definition Upsert :: "p_service \<Rightarrow> store \<Rightarrow> store" where
  "Upsert service s =
     (let normalized = normalizeService service in
      s\<lparr>services := AList.update (Ref normalized) normalized (services s)\<rparr>)"

definition Store_Delete :: "service_ref \<Rightarrow> store \<Rightarrow> store \<times> bool" where
  "Store_Delete ref s =
     (case map_of (services s) ref of
        None \<Rightarrow> (s, False)
      | Some _ \<Rightarrow> (s\<lparr>services := AList.delete ref (services s)\<rparr>, True))"

definition Store_Get :: "store \<Rightarrow> service_ref \<Rightarrow> p_service option" where
  "Store_Get s ref = map_option Service_DeepCopy (map_of (services s) ref)"

definition sortedServiceListFromMap :: "(service_ref \<times> p_service) list \<Rightarrow> p_service list" where
  "sortedServiceListFromMap m =
     sort_Slice serviceLess (map (\<lambda>(_, service). normalizeService service) m)"

definition Store_List :: "store \<Rightarrow> p_service list" where
  "Store_List s = sortedServiceListFromMap (services s)"

definition Store_Snapshot :: "store \<Rightarrow> (service_ref \<times> p_service) list" where
  "Store_Snapshot s = map (\<lambda>(ref, service). (ref, Service_DeepCopy service)) (services s)"

definition Store_Len :: "store \<Rightarrow> nat" where
  "Store_Len s = length (services s)"

section \<open>The canonical form\<close>

definition portKey :: "service_port \<Rightarrow> int \<times> string \<times> string \<times> string" where
  "portKey p = (sp_Port p, Protocol p, sp_Name p, TargetPort p)"

lemma portLess_key: "portLess = (\<lambda>a b. portKey a < portKey b)"
  by (intro ext) (auto simp: portLess_def portKey_def less_prod_def less_le)

lemma sort_portLess: "sort_Slice portLess xs = sort_key portKey xs"
  unfolding portLess_key by (rule sort_Slice_sort_key)

lemma normalizeService_eq:
  "normalizeService s = s\<lparr>Ports :=
     map (\<lambda>p. p\<lparr>Backends := sort_key backendKey2 (Backends p)\<rparr>) (sort_key portKey (Ports s))\<rparr>"
  by (simp add: normalizeService_def Let_def sort_portLess sort_backendLess)

lemma normalizeService_sel [simp]:
  "svc_Namespace (normalizeService s) = svc_Namespace s" "svc_Name (normalizeService s) = svc_Name s"
  "LoadBalancerClass (normalizeService s) = LoadBalancerClass s"
  "ExternalIP (normalizeService s) = ExternalIP s" "Ref (normalizeService s) = Ref s"
  "serviceKey (normalizeService s) = serviceKey s"
  by (simp_all add: normalizeService_eq Ref_def serviceKey_def)

lemma normalizeService_idem [simp]: "normalizeService (normalizeService s) = normalizeService s"
proof -
  let ?f = "\<lambda>p. p\<lparr>Backends := sort_key backendKey2 (Backends p)\<rparr>"
  have k: "portKey (?f p) = portKey p" for p by (simp add: portKey_def)
  have "sorted (map portKey (map ?f (sort_key portKey (Ports s))))"
    using sorted_sort_key [of portKey "Ports s"] by (simp add: comp_def k)
  then have "sort_key portKey (map ?f (sort_key portKey (Ports s))) = map ?f (sort_key portKey (Ports s))"
    by (rule sort_key_map_self)
  then show ?thesis by (simp add: normalizeService_eq comp_def)
qed

text \<open>Normalising changes the order of ports and backends only.\<close>

lemma normalizeService_content:
  "image_mset (\<lambda>p. (portKey p, mset (Backends p))) (mset (Ports (normalizeService s))) =
   image_mset (\<lambda>p. (portKey p, mset (Backends p))) (mset (Ports s))"
  by (simp add: normalizeService_eq image_mset.compositionality comp_def portKey_def)

section \<open>The store meets the contract\<close>

definition store_ok :: "store \<Rightarrow> bool" where
  "store_ok s = (distinct (map fst (services s)) \<and>
     list_all (\<lambda>(r, v). Ref v = r \<and> normalizeService v = v) (services s))"

lemma Store_Get_map_of [simp]: "Store_Get s = map_of (services s)"
proof
  fix r
  show "Store_Get s r = map_of (services s) r"
    by (cases "map_of (services s) r") (simp_all add: Store_Get_def)
qed

lemma Clone_ok [simp]: "store_ok s \<Longrightarrow> Clone s = s"
proof -
  assume "store_ok s"
  then have "map (\<lambda>(ref, v). (ref, normalizeService v)) (services s) = services s"
    by (intro map_idI) (auto simp: store_ok_def list_all_iff)
  then show ?thesis by (simp add: Clone_def NewStore_def)
qed

lemma store_ok_New [inv_intros]: "store_ok NewStore"
  by (simp add: store_ok_def NewStore_def)

lemma store_ok_Upsert [inv_intros]: "store_ok s \<Longrightarrow> store_ok (Upsert v s)"
  by (auto simp: store_ok_def Upsert_def Let_def distinct_update alist_update_set list_all_iff)

lemma store_ok_Delete [inv_intros]: "store_ok s \<Longrightarrow> store_ok (fst (Store_Delete r s))"
  by (auto simp: store_ok_def Store_Delete_def distinct_delete alist_delete_set list_all_iff
      split: option.splits)

lemma store_map_normal:
  "store_ok s \<Longrightarrow> map (\<lambda>(_, v). normalizeService v) (services s) = map snd (services s)"
  by (auto simp: store_ok_def list_all_iff)

interpretation ds: desired_state NewStore Upsert "\<lambda>r s. fst (Store_Delete r s)" Store_Get Store_List
  normalizeService store_ok
proof (unfold_locales, goal_cases)
  case 1 show ?case by (simp add: NewStore_def)
next
  case (2 s v) then show ?case by (simp add: Upsert_def Let_def update_conv')
next
  case (3 s r) then show ?case
    by (auto simp: Store_Delete_def delete_conv' fun_eq_iff split: option.splits)
next
  case (9 s r v) then show ?case
    by (auto simp: store_ok_def list_all_iff dest!: map_of_in_set)
next
  case (10 s) then show ?case
    by (simp add: Store_List_def sortedServiceListFromMap_def store_map_normal)
      (simp add: store_ok_def ran_distinct)
next
  case (11 s) show ?case by (simp add: Store_List_def sortedServiceListFromMap_def sort_serviceLess)
next
  case (12 s) then show ?case
    using keyed_alist_distinct [of "services s"]
    by (simp add: Store_List_def sortedServiceListFromMap_def store_map_normal comp_def)
      (auto simp: store_ok_def list_all_iff)
qed (auto intro: inv_intros)

end
