(* ===== verification/Render.thy ===== *)
theory Render
  imports Store
begin

text \<open>
  \<open>internal/dataplane/render.go\<close>: validating Services and rendering the aggregate HAProxy
  configuration.  The theorems state when rendering succeeds, that its text does not depend
  on the order of the Services it is given, that the text is the printed form of a
  configuration with one frontend and one backend section per Service port, and that no
  field of a Service can inject bytes into it.
\<close>

section \<open>Validation\<close>

datatype validate_error =
    NamespaceEmpty | NameEmpty | BadExternalIP string
  | UnsupportedProtocol int string | BadServicePort
  | BadBackendAddress string | BadBackendPort

fun validateBackends :: "backend_endpoint list \<Rightarrow> validate_error option" where
  "validateBackends [] = None"
| "validateBackends (b # bs) =
     (if parse4 (Address b) = None then Some (BadBackendAddress (Address b))
      else if Port b \<le> 0 then Some BadBackendPort
      else validateBackends bs)"

fun validatePorts :: "service_port list \<Rightarrow> validate_error option" where
  "validatePorts [] = None"
| "validatePorts (p # ps) =
     (if \<not> EqualFold (TrimSpace (Protocol p)) ''TCP'' \<and> TrimSpace (Protocol p) \<noteq> []
      then Some (UnsupportedProtocol (sp_Port p) (Protocol p))
      else if sp_Port p \<le> 0 then Some BadServicePort
      else case validateBackends (Backends p) of Some e \<Rightarrow> Some e | None \<Rightarrow> validatePorts ps)"

definition ValidateService :: "p_service \<Rightarrow> validate_error option" where
  "ValidateService service =
     (if TrimSpace (svc_Namespace service) = [] then Some NamespaceEmpty
      else if TrimSpace (svc_Name service) = [] then Some NameEmpty
      else if parse4 (ExternalIP service) = None then Some (BadExternalIP (ExternalIP service))
      else validatePorts (Ports service))"

section \<open>Identifiers\<close>

definition sanitizeRune :: "nat \<Rightarrow> char" where
  "sanitizeRune r =
     (if byte CHR ''a'' \<le> r \<and> r \<le> byte CHR ''z'' then char_of r
      else if byte CHR ''0'' \<le> r \<and> r \<le> byte CHR ''9'' then char_of r
      else CHR ''_'')"

definition sanitizeIdentifier :: "string \<Rightarrow> string" where
  "sanitizeIdentifier v =
     (let trimmed = TrimSpace (ToLower v) in
      if trimmed = [] then ''unnamed''
      else
        let sanitized = Trim CHR ''_'' (map sanitizeRune (runes trimmed)) in
        if sanitized = [] then ''unnamed'' else sanitized)"

definition identifierSuffix :: "p_service \<Rightarrow> service_port \<Rightarrow> string" where
  "identifierSuffix service port =
     ToLower (svc_Namespace service @ ''_'' @ svc_Name service @ ''_'' @ FormatInt (sp_Port port) @
       ''_'' @ sp_Name port @ ''_'' @ Protocol port)"

definition frontendIdentifier :: "p_service \<Rightarrow> service_port \<Rightarrow> string" where
  "frontendIdentifier service port = ''fe_'' @ sanitizeIdentifier (identifierSuffix service port)"

definition backendIdentifier :: "p_service \<Rightarrow> service_port \<Rightarrow> string" where
  "backendIdentifier service port = ''be_'' @ sanitizeIdentifier (identifierSuffix service port)"

definition serverIdentifier :: "nat \<Rightarrow> backend_endpoint \<Rightarrow> string" where
  "serverIdentifier index backend =
     sanitizeIdentifier (''srv_'' @ pad4 (index + 1) @ ''_'' @ Address backend @ ''_'' @ FormatInt (Port backend))"

section \<open>Rendering\<close>

abbreviation newline :: string where
  "newline \<equiv> [CHR 0x0A]"

definition textLines :: "string list \<Rightarrow> string" where
  "textLines ls = concat (map (\<lambda>l. l @ newline) ls)"

definition configHeader :: string where
  "configHeader = textLines
     [''# Managed by k8s-lb-controller. DO NOT EDIT.'', ''global'', ''    maxconn 2048'', '''',
      ''defaults'', ''    mode tcp'', ''    timeout connect 5s'', ''    timeout client 30s'',
      ''    timeout server 30s'']"

definition bootstrapFrontendSection :: string where
  "bootstrapFrontendSection = textLines
     ['''', ''# Bootstrap listener keeps HAProxy runnable before the first managed Service exists.'',
      ''frontend fe_bootstrap_loopback'', ''    bind 127.0.0.2:65535'', ''    mode http'',
      ''    http-request return status 204'']"

definition renderServer :: "nat \<Rightarrow> backend_endpoint \<Rightarrow> string" where
  "renderServer index backend =
     ''    server '' @ serverIdentifier index backend @ '' '' @ Address backend @ '':'' @
     FormatInt (Port backend) @ newline"

definition renderPort :: "p_service \<Rightarrow> service_port \<Rightarrow> string" where
  "renderPort service port =
     (let backendName = backendIdentifier service port;
          frontendName = frontendIdentifier service port
      in newline @ ''frontend '' @ frontendName @ newline @
         ''    bind '' @ ExternalIP service @ '':'' @ FormatInt (sp_Port port) @ newline @
         ''    mode tcp'' @ newline @
         ''    default_backend '' @ backendName @ newline @ newline @
         ''backend '' @ backendName @ newline @
         ''    mode tcp'' @ newline @
         ''    balance roundrobin'' @ newline @
         (if Backends port = [] then ''    server srv_unavailable 127.0.0.1:1 disabled'' @ newline
          else concat (map (\<lambda>(index, backend). renderServer index backend) (enumerate 0 (Backends port)))))"

datatype render_error = RenderInvalid service_ref validate_error

fun renderServices :: "string \<Rightarrow> p_service list \<Rightarrow> (render_error, string) result" where
  "renderServices builder [] = Inr builder"
| "renderServices builder (s # ss) =
     (case ValidateService s of
        Some err \<Rightarrow> Inl (RenderInvalid (Ref s) err)
      | None \<Rightarrow> renderServices (builder @ concat (map (renderPort s) (Ports s))) ss)"

definition sortedServiceListFromSlice :: "p_service list \<Rightarrow> p_service list" where
  "sortedServiceListFromSlice ss = Store_List (foldl (\<lambda>st s. Upsert s st) NewStore ss)"

definition Render :: "p_service list \<Rightarrow> (render_error, string) result" where
  "Render ss =
     (let sortedServices = map normalizeService ss in
      if sortedServices = [] then Inr (configHeader @ bootstrapFrontendSection)
      else renderServices configHeader (sortedServiceListFromSlice sortedServices))"

section \<open>Validation as a predicate\<close>

definition tcpProtocol :: "string \<Rightarrow> bool" where
  "tcpProtocol p = (EqualFold (TrimSpace p) ''TCP'' \<or> TrimSpace p = [])"

definition validBackend :: "backend_endpoint \<Rightarrow> bool" where
  "validBackend b = (parse4 (Address b) \<noteq> None \<and> 0 < Port b)"

definition validPort :: "service_port \<Rightarrow> bool" where
  "validPort p = (tcpProtocol (Protocol p) \<and> 0 < sp_Port p \<and> list_all validBackend (Backends p))"

definition validService :: "p_service \<Rightarrow> bool" where
  "validService s =
     (TrimSpace (svc_Namespace s) \<noteq> [] \<and> TrimSpace (svc_Name s) \<noteq> [] \<and>
      parse4 (ExternalIP s) \<noteq> None \<and> list_all validPort (Ports s))"

lemma validateBackends_None: "validateBackends bs = None \<longleftrightarrow> list_all validBackend bs"
  by (induction bs) (auto simp: validBackend_def)

lemma validatePorts_None: "validatePorts ps = None \<longleftrightarrow> list_all validPort ps"
  by (induction ps)
    (auto simp: validPort_def tcpProtocol_def validateBackends_None split: option.splits
      dest: validateBackends_None [THEN iffD2])

lemma ValidateService_None: "ValidateService s = None \<longleftrightarrow> validService s"
  by (simp add: ValidateService_def validService_def validatePorts_None)

lemma list_all_sort_key [simp]: "list_all P (sort_key f xs) = list_all P xs"
  by (simp add: list_all_iff)

lemma validService_normalize [simp]: "validService (normalizeService s) = validService s"
  by (simp add: validService_def normalizeService_eq list.pred_map comp_def validPort_def [abs_def])

section \<open>The shape of the output\<close>

lemma renderServices_iff:
  "renderServices b ss =
   (case find (\<lambda>s. \<not> validService s) ss of
      Some s \<Rightarrow> Inl (RenderInvalid (Ref s) (the (ValidateService s)))
    | None \<Rightarrow> Inr (b @ concat (map (\<lambda>s. concat (map (renderPort s) (Ports s))) ss)))"
proof (induction ss arbitrary: b)
  case (Cons s ss)
  show ?case
  proof (cases "ValidateService s")
    case None
    then have "validService s" by (simp add: ValidateService_None)
    with None Cons show ?thesis by (simp split: option.splits)
  next
    case (Some e)
    then have "\<not> validService s" using ValidateService_None by (metis option.distinct(1))
    with Some show ?thesis by simp
  qed
qed simp

lemma foldl_Upsert:
  "store_ok st \<Longrightarrow> store_ok (foldl (\<lambda>st s. Upsert s st) st ss) \<and>
   Store_Get (foldl (\<lambda>st s. Upsert s st) st ss) =
     Store_Get st ++ map_of (rev (map (\<lambda>s. (Ref s, normalizeService s)) ss))"
proof (induction ss arbitrary: st)
  case (Cons s ss)
  have "store_ok (Upsert s st)" using Cons.prems by (rule store_ok_Upsert)
  from Cons.IH [OF this] show ?case
    using ds.get_put [OF Cons.prems, of s]
    by (auto simp: map_add_def fun_eq_iff split: option.splits)
qed simp

lemma sortedServiceListFromSlice_cong:
  assumes "map_of (rev (map (\<lambda>s. (Ref s, normalizeService s)) ss)) =
      map_of (rev (map (\<lambda>s. (Ref s, normalizeService s)) ts))"
  shows "sortedServiceListFromSlice ss = sortedServiceListFromSlice ts"
  using foldl_Upsert [OF store_ok_New, of ss] foldl_Upsert [OF store_ok_New, of ts] assms
    ds.listing_determined
  by (simp add: sortedServiceListFromSlice_def del: Store_Get_map_of)

lemma sortedServiceListFromSlice_set:
  assumes "distinct (map Ref ss)"
  shows "set (sortedServiceListFromSlice ss) = normalizeService ` set ss"
proof -
  let ?al = "map (\<lambda>s. (Ref s, normalizeService s)) ss"
  let ?st = "foldl (\<lambda>st s. Upsert s st) NewStore ss"
  have d: "distinct (map fst ?al)" using assms by (simp add: comp_def)
  have "set (Store_List ?st) = ran (Store_Get ?st)"
    using foldl_Upsert [OF store_ok_New, of ss] ds.set_listing by blast
  also have "Store_Get ?st = map_of (rev ?al)"
    using foldl_Upsert [OF store_ok_New, of ss] ds.get_empty by simp
  also have "ran (map_of (rev ?al)) = snd ` set ?al"
    using d by (subst ran_distinct) (simp_all add: rev_map [symmetric] del: map_map)
  also have "\<dots> = normalizeService ` set ss" by force
  finally show ?thesis by (simp add: sortedServiceListFromSlice_def)
qed

lemma map_of_perm:
  assumes "distinct (map fst xs)" "mset xs = mset ys"
  shows "map_of xs = map_of ys"
  using assms by (metis map_of_inject_set mset_eq_setD mset_map mset_eq_imp_distinct_iff)

section \<open>Sanitised text\<close>

definition identChar :: "char \<Rightarrow> bool" where
  "identChar c = ((CHR ''a'' \<le> c \<and> c \<le> CHR ''z'') \<or> (CHR ''0'' \<le> c \<and> c \<le> CHR ''9'') \<or> c = CHR ''_'')"

lemma sanitizeRune_ident: "identChar (sanitizeRune r)"
  by (auto simp: sanitizeRune_def identChar_def less_eq_char_def)

lemma Trim_set: "set (Trim c s) \<subseteq> set s"
  by (auto simp: Trim_def dest!: set_dropWhileD)

lemma sanitizeIdentifier_ident: "list_all identChar (sanitizeIdentifier v)"
proof -
  have u: "list_all identChar ''unnamed''" by (simp add: identChar_def)
  have "list_all identChar (Trim CHR ''_'' (map sanitizeRune rs))" for rs
    using Trim_set [of "CHR ''_''" "map sanitizeRune rs"] sanitizeRune_ident
    by (fastforce simp: list_all_iff)
  with u show ?thesis by (simp add: sanitizeIdentifier_def Let_def)
qed

lemma sanitizeIdentifier_ne: "sanitizeIdentifier v \<noteq> []"
  by (simp add: sanitizeIdentifier_def Let_def)

lemma identChar_plain: "identChar c \<Longrightarrow> plain c"
  by (auto simp: identChar_def plain_def less_eq_char_def)

section \<open>The lines of the output\<close>

definition serverLines :: "service_port \<Rightarrow> string list" where
  "serverLines p =
     (if Backends p = [] then [''    server srv_unavailable 127.0.0.1:1 disabled'']
      else map (\<lambda>(i, b). ''    server '' @ serverIdentifier i b @ '' '' @ Address b @ '':'' @ FormatInt (Port b))
        (enumerate 0 (Backends p)))"

definition bindLine :: "p_service \<Rightarrow> service_port \<Rightarrow> string" where
  "bindLine s p = ''    bind '' @ ExternalIP s @ '':'' @ FormatInt (sp_Port p)"

definition portLines :: "p_service \<Rightarrow> service_port \<Rightarrow> string list" where
  "portLines s p =
     ['''', ''frontend '' @ frontendIdentifier s p, bindLine s p, ''    mode tcp'',
      ''    default_backend '' @ backendIdentifier s p, '''', ''backend '' @ backendIdentifier s p,
      ''    mode tcp'', ''    balance roundrobin''] @ serverLines p"

definition headerLines :: "string list" where
  "headerLines =
     [''# Managed by k8s-lb-controller. DO NOT EDIT.'', ''global'', ''    maxconn 2048'', '''',
      ''defaults'', ''    mode tcp'', ''    timeout connect 5s'', ''    timeout client 30s'',
      ''    timeout server 30s'']"

definition renderedLines :: "p_service list \<Rightarrow> string list" where
  "renderedLines ss = headerLines @ concat (map (\<lambda>s. concat (map (portLines s) (Ports s))) ss)"

lemma textLines_append [simp]: "textLines (xs @ ys) = textLines xs @ textLines ys"
  by (simp add: textLines_def)

lemma textLines_Cons [simp]: "textLines (x # xs) = x @ newline @ textLines xs" "textLines [] = []"
  by (simp_all add: textLines_def)

lemma textLines_concat: "textLines (concat xss) = concat (map textLines xss)"
  by (induction xss) simp_all

lemma renderPort_lines: "renderPort s p = textLines (portLines s p)"
proof -
  have "concat (map (\<lambda>(i, b). renderServer i b) xs) = textLines (map (\<lambda>(i, b).
      ''    server '' @ serverIdentifier i b @ '' '' @ Address b @ '':'' @ FormatInt (Port b)) xs)" for xs
    by (induction xs) (auto simp: renderServer_def)
  then show ?thesis
    by (simp add: renderPort_def Let_def portLines_def bindLine_def serverLines_def)
qed

lemma rendered_text:
  "configHeader @ concat (map (\<lambda>s. concat (map (renderPort s) (Ports s))) ss) = textLines (renderedLines ss)"
proof -
  have "renderPort s = (\<lambda>p. textLines (portLines s p))" for s
    by (intro ext) (rule renderPort_lines)
  then show ?thesis
    by (simp add: renderedLines_def configHeader_def headerLines_def textLines_concat comp_def)
qed

text \<open>A rendered line is printable: bytes from 0x20 to 0x7E only.\<close>

definition printable :: "char \<Rightarrow> bool" where
  "printable c = (plain c \<or> c = CHR 0x20)"

definition printables :: "string \<Rightarrow> bool" where
  "printables s = list_all printable s"

lemma printables_append [simp]: "printables (s @ t) \<longleftrightarrow> printables s \<and> printables t"
  by (simp add: printables_def)

lemma printables_Cons [simp]: "printables (c # s) \<longleftrightarrow> printable c \<and> printables s" "printables []"
  by (simp_all add: printables_def)

lemma plain_printables: "list_all plain s \<Longrightarrow> printables s"
  by (auto simp: list_all_iff printables_def printable_def)

lemma ident_printables [simp]: "printables (sanitizeIdentifier v)"
  using sanitizeIdentifier_ident identChar_plain
  by (auto simp: list_all_iff intro!: plain_printables)

lemma FormatInt_printables [simp]: "printables (FormatInt v)"
  by (rule plain_printables [OF FormatInt_plain])

lemma parse4_printables: "parse4 s \<noteq> None \<Longrightarrow> printables s"
  using AddrString_plain by (auto simp: parse4_Some intro!: plain_printables)

lemma serverLines_printable:
  assumes "list_all validBackend (Backends p)"
  shows "list_all printables (serverLines p)"
proof -
  have "printables (Address b)" if "(i, b) \<in> set (enumerate 0 (Backends p))" for i b
  proof -
    have "b \<in> set (Backends p)" using that by (auto simp: in_set_enumerate_eq)
    with assms show ?thesis by (auto simp: list_all_iff validBackend_def intro!: parse4_printables)
  qed
  then show ?thesis
    by (auto simp: serverLines_def list_all_iff serverIdentifier_def printable_def plain_def)
qed

lemma portLines_printable:
  assumes "validPort p" "parse4 (ExternalIP s) \<noteq> None"
  shows "list_all printables (portLines s p)"
  using assms serverLines_printable [of p] parse4_printables [OF assms(2)]
  by (simp add: portLines_def bindLine_def frontendIdentifier_def backendIdentifier_def validPort_def
      printable_def plain_def)

lemma renderedLines_printable:
  assumes "list_all validService ss"
  shows "list_all printables (renderedLines ss)"
proof -
  have "list_all printables headerLines" by (simp add: headerLines_def printable_def plain_def)
  moreover have "list_all printables (portLines s p)" if "s \<in> set ss" "p \<in> set (Ports s)" for s p
    using that assms by (intro portLines_printable) (auto simp: list_all_iff validService_def)
  ultimately show ?thesis by (auto simp: renderedLines_def list_all_iff)
qed

section \<open>Splitting the output into lines\<close>

lemma Split_textLines:
  "list_all printables ls \<Longrightarrow> Split CHR 0x0A (textLines ls) = ls @ ['''']"
proof (induction ls)
  case (Cons l ls)
  then have "CHR 0x0A \<notin> set l"
    by (auto simp: printables_def list_all_iff printable_def plain_def)
  with Cons show ?case by (simp add: Split_append)
qed simp

section \<open>The services of the output\<close>

text \<open>The canonical list of a slice of Services: sorted, each in canonical form.\<close>

definition canonicalServices :: "p_service list \<Rightarrow> p_service list" where
  "canonicalServices ss = sort_key serviceKey (map normalizeService ss)"

lemma distinct_serviceKey: "distinct (map Ref ss) \<longleftrightarrow> distinct (map serviceKey ss)"
  by (induction ss) (auto simp: Ref_eq_iff)

lemma sortedServiceListFromSlice_canonical:
  assumes d: "distinct (map Ref ss)"
  shows "sortedServiceListFromSlice ss = canonicalServices ss"
proof -
  let ?L = "sortedServiceListFromSlice ss" and ?st = "foldl (\<lambda>st s. Upsert s st) NewStore ss"
  have ok: "store_ok ?st" using foldl_Upsert [OF store_ok_New] by blast
  have s: "sorted (map serviceKey ?L)"
    by (simp add: sortedServiceListFromSlice_def ds.sorted_listing [OF ok])
  have dL: "distinct (map serviceKey ?L)"
    using ds.distinct_listing [OF ok] by (simp add: sortedServiceListFromSlice_def)
  have dn: "distinct (map serviceKey (map normalizeService ss))"
    using d by (simp add: distinct_serviceKey comp_def)
  have "set ?L = set (map normalizeService ss)"
    by (simp add: sortedServiceListFromSlice_set [OF d])
  then have m: "mset (map normalizeService ss) = mset ?L"
    using dn dL by (metis distinct_map set_eq_iff_mset_eq_distinct)
  have "sort_key serviceKey (map normalizeService ss) = ?L"
    using m s dn by (intro sort_key_inj_key_eq) (simp_all only: distinct_map set_map)
  then show ?thesis by (simp add: canonicalServices_def)
qed

lemma canonicalServices_normal:
  "canonicalServices (map normalizeService ss) = canonicalServices ss"
  by (simp add: canonicalServices_def comp_def)

lemma Render_canonical:
  assumes "distinct (map Ref ss)" "ss \<noteq> []"
  shows "Render ss = renderServices configHeader (canonicalServices ss)"
proof -
  have "distinct (map Ref (map normalizeService ss))" using assms by (simp add: comp_def)
  from sortedServiceListFromSlice_canonical [OF this] show ?thesis
    using assms by (simp add: Render_def canonicalServices_normal)
qed

lemma list_all_canonical: "list_all validService (canonicalServices ss) \<longleftrightarrow> list_all validService ss"
  by (simp add: canonicalServices_def list.pred_map comp_def)

lemma list_all_find: "find (\<lambda>s. \<not> P s) xs = None \<longleftrightarrow> list_all P xs"
  by (auto simp: find_None_iff list_all_iff)

lemma Render_Inr:
  assumes "distinct (map Ref ss)" "ss \<noteq> []"
  shows "Render ss = Inr cfg \<longleftrightarrow>
    list_all validService ss \<and> cfg = textLines (renderedLines (canonicalServices ss))"
  using list_all_find [of validService "canonicalServices ss"] list_all_canonical [of ss]
  unfolding Render_canonical [OF assms] renderServices_iff rendered_text
  by (auto split: option.splits)

section \<open>Server names\<close>

text \<open>
  On lower-case ASCII text that starts and ends with a letter or a digit the sanitiser
  replaces character by character.
\<close>

definition lowerText :: "char \<Rightarrow> bool" where
  "lowerText c = (plain c \<and> \<not> isUpper c)"

lemma ToLower_lowerText: "list_all lowerText s \<Longrightarrow> ToLower s = s"
  by (induction s) (auto simp: lowerText_def lowerByte_def plain_def)

lemma Trim_keep:
  assumes "s \<noteq> []" "hd s \<noteq> c" "last s \<noteq> c"
  shows "Trim c s = s"
proof -
  have "dropWhile (\<lambda>x. x = c) s = s" using assms by (cases s) simp_all
  moreover have "dropWhile (\<lambda>x. x = c) (rev s) = rev s"
    using assms by (cases s rule: rev_cases) simp_all
  ultimately show ?thesis by (simp add: Trim_def)
qed

definition sanitizeByte :: "char \<Rightarrow> char" where
  "sanitizeByte c = sanitizeRune (byte c)"

lemma sanitizeIdentifier_lowerText:
  assumes "list_all lowerText s" "s \<noteq> []" "sanitizeByte (hd s) \<noteq> CHR ''_''"
    "sanitizeByte (last s) \<noteq> CHR ''_''"
  shows "sanitizeIdentifier s = map sanitizeByte s"
proof -
  have "list_all plain s" "list_all (\<lambda>c. byte c < 0x80) s"
    using assms(1) by (auto simp: list_all_iff lowerText_def plain_def)
  then have "TrimSpace (ToLower s) = s" "map sanitizeRune (runes s) = map sanitizeByte s"
    using assms(1) by (simp_all add: ToLower_lowerText TrimSpace_plain runes_ascii sanitizeByte_def)
  moreover have "Trim CHR ''_'' (map sanitizeByte s) = map sanitizeByte s"
    using assms by (intro Trim_keep) (simp_all add: hd_map last_map)
  ultimately show ?thesis using assms(2) by (simp add: sanitizeIdentifier_def)
qed

lemma sanitizeByte_digit: "isDigit c \<Longrightarrow> sanitizeByte c = c"
  by (simp add: isDigit_iff sanitizeByte_def sanitizeRune_def)

lemma isDigit_lowerText: "isDigit c \<Longrightarrow> lowerText c"
  by (simp add: lowerText_def isDigit_plain isUpper_def less_eq_char_def isDigit_iff)

lemma pad4_digits: "list_all isDigit (pad4 n)"
  using itoa_digits [of n] by (auto simp: pad4_def list_all_iff isDigit_iff)

lemma pad4_inj: "pad4 m = pad4 n \<Longrightarrow> m = n"
proof -
  have z: "digitsVal 0 (replicate k CHR ''0'' @ s) = digitsVal 0 s" for k s
    by (induction k) (simp_all add: isDigit_iff digitVal_def)
  have "digitsVal 0 (pad4 k) = Some k" for k by (simp add: pad4_def z digitsVal_itoa)
  then show "pad4 m = pad4 n \<Longrightarrow> m = n" by (metis option.inject)
qed

lemma serverIdentifier_eq:
  assumes "validBackend b"
  shows "\<exists>rest. serverIdentifier i b = ''srv_'' @ pad4 (i + 1) @ ''_'' @ rest"
proof -
  obtain a where a: "Is4 a" "Address b = AddrString a"
    using assms by (auto simp: validBackend_def parse4_Some)
  then obtain w x y z where d: "Address b = dotted w x y z" by (cases a) auto
  have p: "FormatInt (Port b) = itoa (nat (Port b))"
    using assms by (simp add: FormatInt_def validBackend_def)
  define v where "v = ''srv_'' @ pad4 (i + 1) @ ''_'' @ Address b @ ''_'' @ itoa (nat (Port b))"
  have digits: "list_all lowerText (pad4 k)" "list_all lowerText (octet o1)" "list_all lowerText (itoa k)"
    for k o1
    using pad4_digits octet_digits itoa_digits isDigit_lowerText by (metis list.pred_mono_strong)+
  have "list_all lowerText v"
    by (simp add: v_def d dotted_def digits) (simp add: lowerText_def plain_def isUpper_def less_eq_char_def)
  moreover have "sanitizeByte (last v) \<noteq> CHR ''_''"
  proof -
    have "isDigit (last v)"
      using itoa_digits [of "nat (Port b)"] last_in_set [OF itoa_ne] by (simp add: v_def list_all_iff)
    then show ?thesis using sanitizeByte_digit [of "last v"] by (auto simp: isDigit_iff)
  qed
  moreover have "sanitizeByte CHR ''s'' \<noteq> CHR ''_''" by code_simp
  then have "sanitizeByte (hd v) \<noteq> CHR ''_''" by (simp add: v_def)
  ultimately have "sanitizeIdentifier v = map sanitizeByte v"
    by (intro sanitizeIdentifier_lowerText) (simp_all add: v_def)
  moreover have "map sanitizeByte (pad4 k) = pad4 k" for k
    using pad4_digits [of k] by (auto simp: list_all_iff sanitizeByte_digit intro!: map_idI)
  moreover have "map sanitizeByte ''srv_'' = ''srv_''" "map sanitizeByte ''_'' = ''_''"
    by code_simp+
  ultimately show ?thesis
    by (simp add: serverIdentifier_def p v_def)
qed

lemma serverIdentifier_inj:
  assumes "validBackend b" "validBackend c" "serverIdentifier i b = serverIdentifier j c"
  shows "i = j"
proof -
  have n: "CHR ''_'' \<notin> set (pad4 k)" for k
    using pad4_digits [of k] by (auto simp: list_all_iff isDigit_iff)
  from assms serverIdentifier_eq [OF assms(1), of i] serverIdentifier_eq [OF assms(2), of j]
  have "pad4 (i + 1) = pad4 (j + 1)" using append_sep_inj [OF n n] by auto
  then show ?thesis using pad4_inj by fastforce
qed

section \<open>Sample Services\<close>

definition sampleBackend :: backend_endpoint where
  "sampleBackend = \<lparr>Address = ''10.0.0.7'', Port = 8080\<rparr>"

definition samplePort :: service_port where
  "samplePort = \<lparr>sp_Name = ''http'', Protocol = ''TCP'', sp_Port = 80, TargetPort = ''8080'',
     Backends = [sampleBackend, sampleBackend]\<rparr>"

definition sampleService :: "string \<Rightarrow> string \<Rightarrow> p_service" where
  "sampleService ns name = \<lparr>svc_Namespace = ns, svc_Name = name, LoadBalancerClass = ''lb'',
     ExternalIP = ''203.0.113.10'', Ports = [samplePort]\<rparr>"

lemma sanitize_dash:
  "sanitizeIdentifier (identifierSuffix (sampleService ''a'' ''b-c'') samplePort) =
   sanitizeIdentifier (identifierSuffix (sampleService ''a-b'' ''c'') samplePort)"
proof -
  have "identifierSuffix (sampleService ''a'' ''b-c'') samplePort = ''a_b-c_80_http_tcp''"
    "identifierSuffix (sampleService ''a-b'' ''c'') samplePort = ''a-b_c_80_http_tcp''" by code_simp+
  moreover have "sanitizeIdentifier v = map sanitizeByte v"
    if "v = ''a_b-c_80_http_tcp'' \<or> v = ''a-b_c_80_http_tcp''" for v
  proof (rule sanitizeIdentifier_lowerText)
    have "list_all lowerText ''a_b-c_80_http_tcp''" "list_all lowerText ''a-b_c_80_http_tcp''"
      "sanitizeByte CHR ''a'' \<noteq> CHR ''_''" "sanitizeByte CHR ''p'' \<noteq> CHR ''_''" by code_simp+
    then show "list_all lowerText v" "v \<noteq> []" "sanitizeByte (hd v) \<noteq> CHR ''_''"
      "sanitizeByte (last v) \<noteq> CHR ''_''" using that by (elim disjE; simp)+
  qed
  moreover have "map sanitizeByte ''a_b-c_80_http_tcp'' = map sanitizeByte ''a-b_c_80_http_tcp''"
    by code_simp
  ultimately show ?thesis by (simp only: simp_thms)
qed

section \<open>Properties\<close>

text \<open>
  C25: Rendering Services with distinct references succeeds exactly when every one of them is
  valid: non-blank namespace and name, an IPv4 external address, TCP ports with positive
  numbers, and IPv4 backends with positive ports.
\<close>

theorem render_succeeds_iff:
  assumes "distinct (map Ref ss)"
  shows "(\<exists>cfg. Render ss = Inr cfg) \<longleftrightarrow> list_all validService ss"
  using assms Render_Inr [OF assms] by (cases "ss = []") (auto simp: Render_def)

theorem render_succeeds_iff_witness:
  "\<exists>cfg. Render [sampleService ''web'' ''shop'', sampleService ''web'' ''blog''] = Inr cfg"
proof -
  have "distinct (map Ref [sampleService ''web'' ''shop'', sampleService ''web'' ''blog''])"
    "list_all validService [sampleService ''web'' ''shop'', sampleService ''web'' ''blog'']"
    by code_simp+
  then show ?thesis using render_succeeds_iff by blast
qed


text \<open>
  C26: Rendering is deterministic: for Services with distinct references the configuration,
  or the error, does not depend on the order in which the Services are given.
\<close>

theorem render_order_independent:
  assumes "distinct (map Ref ss)" "mset ss = mset ts"
  shows "Render ss = Render ts"
proof (cases "ss = []")
  case False
  have ds: "distinct (map serviceKey (map normalizeService ss))"
    using assms(1) by (simp add: distinct_serviceKey comp_def)
  have dt: "distinct (map Ref ts)" using assms by (metis mset_map mset_eq_imp_distinct_iff)
  have "mset (map normalizeService ss) = mset (map normalizeService ts)" using assms(2) by simp
  then have "canonicalServices ss = canonicalServices ts"
    unfolding canonicalServices_def using ds
    by (intro sort_key_inj_key_eq) (simp_all only: distinct_map mset_sort sorted_sort_key not_False_eq_True)
  moreover have "ts \<noteq> []" using False assms(2) by auto
  ultimately show ?thesis
    using Render_canonical [OF assms(1) False] Render_canonical [OF dt] by simp
qed (use assms(2) in simp)

theorem render_order_independent_witness:
  "Render [sampleService ''web'' ''shop'', sampleService ''web'' ''blog''] =
   Render [sampleService ''web'' ''blog'', sampleService ''web'' ''shop'']"
proof (rule render_order_independent)
  show "distinct (map Ref [sampleService ''web'' ''shop'', sampleService ''web'' ''blog''])" by code_simp
qed simp


text \<open>
  C27: No field of a Service can inject configuration: cutting a rendered configuration at its
  newlines gives back exactly the header lines and, for each Service in canonical order and
  each of its ports, one frontend with one \<open>bind\<close> line on the external address and one backend
  section with one \<open>server\<close> line per endpoint; every line is printable ASCII.
\<close>

theorem render_lines:
  assumes "distinct (map Ref ss)" "ss \<noteq> []" "Render ss = Inr cfg"
  shows "Split CHR 0x0A cfg = renderedLines (canonicalServices ss) @ [''''] \<and>
    list_all printables (renderedLines (canonicalServices ss))"
proof -
  have cfg: "cfg = textLines (renderedLines (canonicalServices ss))" and "list_all validService ss"
    using assms(3) Render_Inr [OF assms(1,2)] by simp_all
  then have "list_all printables (renderedLines (canonicalServices ss))"
    by (intro renderedLines_printable) (simp add: list_all_canonical)
  then show ?thesis using Split_textLines cfg by simp
qed

theorem render_lines_witness:
  "\<exists>cfg. Render [sampleService ''web'' ''shop''] = Inr cfg \<and>
    Split CHR 0x0A cfg = renderedLines (canonicalServices [sampleService ''web'' ''shop'']) @ ['''']"
proof -
  let ?ss = "[sampleService ''web'' ''shop'']"
  have d: "distinct (map Ref ?ss)" and "list_all validService ?ss" by code_simp+
  then obtain cfg where "Render ?ss = Inr cfg" using Render_Inr [OF d] by blast
  then show ?thesis using render_lines [OF d] by blast
qed


text \<open>
  Within one backend section the server names are pairwise distinct, whatever the
  endpoints are, duplicates included.
\<close>

theorem server_names_distinct:
  assumes "validPort p"
  shows "distinct (map (\<lambda>(i, b). serverIdentifier i b) (enumerate 0 (Backends p)))"
proof -
  have v: "validBackend b" if "(i, b) \<in> set (enumerate 0 (Backends p))" for i b
    using that assms by (auto simp: in_set_enumerate_eq validPort_def list_all_iff)
  have "inj_on (\<lambda>(i, b). serverIdentifier i b) (set (enumerate 0 (Backends p)))"
  proof (rule inj_onI, clarify)
    fix i b j c
    assume m: "(i, b) \<in> set (enumerate 0 (Backends p))" "(j, c) \<in> set (enumerate 0 (Backends p))"
      and "serverIdentifier i b = serverIdentifier j c"
    then have "i = j" using serverIdentifier_inj [OF v [OF m(1)] v [OF m(2)]] by blast
    with m show "i = j \<and> b = c" by (auto simp: in_set_enumerate_eq)
  qed
  then show ?thesis by (simp add: distinct_map distinct_enumerate)
qed

theorem server_names_distinct_witness:
  "distinct (map (\<lambda>(i, b). serverIdentifier i b) (enumerate 0 (Backends samplePort)))"
proof (rule server_names_distinct)
  show "validPort samplePort" by code_simp
qed


text \<open>
  C39: Section names are not injective in the Service: two valid Services with different
  references and names Kubernetes accepts are given the same frontend name and the same
  backend name, because \<open>-\<close> and the separator \<open>_\<close> are both sanitised to \<open>_\<close>.
\<close>

theorem section_names_collide:
  "\<exists>s t p. Ref s \<noteq> Ref t \<and> validService s \<and> validService t \<and> p \<in> set (Ports s) \<and> p \<in> set (Ports t) \<and>
     frontendIdentifier s p = frontendIdentifier t p \<and> backendIdentifier s p = backendIdentifier t p"
proof (intro exI)
  let ?s = "sampleService ''a'' ''b-c''" and ?t = "sampleService ''a-b'' ''c''"
  have "Ref ?s \<noteq> Ref ?t" "validService ?s" "validService ?t" by code_simp+
  moreover have "samplePort \<in> set (Ports ?s)" "samplePort \<in> set (Ports ?t)"
    by (simp_all add: sampleService_def)
  moreover have "sanitizeIdentifier (identifierSuffix ?s samplePort) = sanitizeIdentifier (identifierSuffix ?t samplePort)"
    by (rule sanitize_dash)
  then have "frontendIdentifier ?s samplePort = frontendIdentifier ?t samplePort"
    "backendIdentifier ?s samplePort = backendIdentifier ?t samplePort"
    by (simp_all only: frontendIdentifier_def backendIdentifier_def)
  ultimately show "Ref ?s \<noteq> Ref ?t \<and> validService ?s \<and> validService ?t \<and> samplePort \<in> set (Ports ?s) \<and>
      samplePort \<in> set (Ports ?t) \<and> frontendIdentifier ?s samplePort = frontendIdentifier ?t samplePort \<and>
      backendIdentifier ?s samplePort = backendIdentifier ?t samplePort" by blast
qed

end
