(* ===== verification/Apply.thy ===== *)
theory Apply
  imports Render
begin

text \<open>
  \<open>internal/dataplane/apply.go\<close>: writing the rendered configuration to a candidate file,
  validating it with a command, renaming it over the active file and reloading HAProxy.

  The operating system is a file tree in which every system call may fail, as an oracle
  decides per call.  The effect of an external command is a parameter.  The theorems state
  that the active file is replaced atomically by exactly the rendered text, that every
  failure before the rename leaves it alone, that an unchanged configuration runs nothing,
  and what happens after a failed reload.
\<close>

section \<open>Paths\<close>

text \<open>\<open>path/filepath\<close> on Unix: \<open>Clean\<close>, \<open>Dir\<close> and \<open>Base\<close>.\<close>

fun cleanParts :: "bool \<Rightarrow> string list \<Rightarrow> string list \<Rightarrow> string list" where
  "cleanParts rooted out [] = rev out"
| "cleanParts rooted out (p # ps) =
     (if p = '''' \<or> p = ''.'' then cleanParts rooted out ps
      else if p = ''..'' then
        (case out of
           [] \<Rightarrow> cleanParts rooted (if rooted then [] else [''..'']) ps
         | q # qs \<Rightarrow> cleanParts rooted (if q = ''..'' then ''..'' # out else qs) ps)
      else cleanParts rooted (p # out) ps)"

definition Clean :: "string \<Rightarrow> string" where
  "Clean path =
     (let rooted = prefix ''/'' path;
          body = Join ''/'' (cleanParts rooted [] (Split CHR ''/'' path))
      in if rooted then CHR ''/'' # body else if body = [] then ''.'' else body)"

definition Dir :: "string \<Rightarrow> string" where
  "Dir path = Clean (rev (dropWhile (\<lambda>c. c \<noteq> CHR ''/'') (rev path)))"

definition Base :: "string \<Rightarrow> string" where
  "Base path =
     (if path = [] then ''.''
      else
        let stripped = rev (dropWhile (\<lambda>c. c = CHR ''/'') (rev path))
        in if stripped = [] then ''/'' else rev (takeWhile (\<lambda>c. c \<noteq> CHR ''/'') (rev stripped)))"

section \<open>The operating system\<close>

datatype errno = ENOENT | EEXIST | EISDIR | ENOTDIR | EINVAL | ENOTSUP | EOTHER string

datatype node = File string | Directory

text \<open>
  \<open>fault n\<close> decides the fate of the \<open>n\<close>-th system call: \<open>None\<close> lets it run, \<open>Some (e, k)\<close>
  makes it fail with \<open>e\<close>, a failing write after \<open>k\<close> bytes.  \<open>random n\<close> is the random part
  of a temporary name.
\<close>

record os =
  nodes :: "string \<rightharpoonup> node"
  calls :: nat
  fault :: "nat \<Rightarrow> (errno \<times> nat) option"
  random :: "nat \<Rightarrow> string"

definition syscall :: "'a os_scheme \<Rightarrow> (errno \<times> nat) option \<times> 'a os_scheme" where
  "syscall w = (fault w (calls w), w\<lparr>calls := Suc (calls w)\<rparr>)"

definition os_ReadFile :: "string \<Rightarrow> 'a os_scheme \<Rightarrow> (errno, string) result \<times> 'a os_scheme" where
  "os_ReadFile path w =
     (case syscall w of
        (Some (e, _), w) \<Rightarrow> (Inl e, w)
      | (None, w) \<Rightarrow>
          (case nodes w path of
             None \<Rightarrow> (Inl ENOENT, w) | Some Directory \<Rightarrow> (Inl EISDIR, w) | Some (File c) \<Rightarrow> (Inr c, w)))"

text \<open>The parents that \<open>MkdirAll\<close> creates on the way are not tracked.\<close>

definition os_MkdirAll :: "string \<Rightarrow> 'a os_scheme \<Rightarrow> errno option \<times> 'a os_scheme" where
  "os_MkdirAll path w =
     (case syscall w of
        (Some (e, _), w) \<Rightarrow> (Some e, w)
      | (None, w) \<Rightarrow>
          (case nodes w path of
             Some (File _) \<Rightarrow> (Some ENOTDIR, w)
           | Some Directory \<Rightarrow> (None, w)
           | None \<Rightarrow> (None, w\<lparr>nodes := (nodes w)(path \<mapsto> Directory)\<rparr>)))"

text \<open>
  \<open>os.CreateTemp(dir, pattern)\<close> with a pattern that ends in \<open>*\<close>: an empty file under a name
  that was not in use, or an error.
\<close>

definition os_CreateTemp :: "string \<Rightarrow> string \<Rightarrow> 'a os_scheme \<Rightarrow> (errno, string) result \<times> 'a os_scheme" where
  "os_CreateTemp dir stem w =
     (let path = (if suffix ''/'' dir then dir else dir @ ''/'') @ stem @ random w (calls w) in
      case syscall w of
        (Some (e, _), w) \<Rightarrow> (Inl e, w)
      | (None, w) \<Rightarrow>
          if nodes w path \<noteq> None then (Inl EEXIST, w)
          else (Inr path, w\<lparr>nodes := (nodes w)(path \<mapsto> File [])\<rparr>))"

definition os_Write :: "string \<Rightarrow> string \<Rightarrow> 'a os_scheme \<Rightarrow> errno option \<times> 'a os_scheme" where
  "os_Write path data w =
     (case syscall w of
        (Some (e, k), w) \<Rightarrow> (Some e, w\<lparr>nodes := (nodes w)(path \<mapsto> File (take k data))\<rparr>)
      | (None, w) \<Rightarrow> (None, w\<lparr>nodes := (nodes w)(path \<mapsto> File data)\<rparr>))"

text \<open>Calls without an effect on the tree: \<open>File.Sync\<close>, \<open>File.Close\<close>, \<open>os.Open\<close>.\<close>

definition os_Touch :: "'a os_scheme \<Rightarrow> errno option \<times> 'a os_scheme" where
  "os_Touch w = (case syscall w of (f, w) \<Rightarrow> (map_option fst f, w))"

definition os_Remove :: "string \<Rightarrow> 'a os_scheme \<Rightarrow> errno option \<times> 'a os_scheme" where
  "os_Remove path w =
     (case syscall w of
        (Some (e, _), w) \<Rightarrow> (Some e, w)
      | (None, w) \<Rightarrow>
          if nodes w path = None then (Some ENOENT, w)
          else (None, w\<lparr>nodes := (nodes w)(path := None)\<rparr>))"

definition os_Rename :: "string \<Rightarrow> string \<Rightarrow> 'a os_scheme \<Rightarrow> errno option \<times> 'a os_scheme" where
  "os_Rename old new w =
     (case syscall w of
        (Some (e, _), w) \<Rightarrow> (Some e, w)
      | (None, w) \<Rightarrow>
          (case nodes w old of
             None \<Rightarrow> (Some ENOENT, w)
           | Some n \<Rightarrow>
               if nodes w new = Some Directory then (Some EISDIR, w)
               else (None, w\<lparr>nodes := (nodes w)(old := None, new \<mapsto> n)\<rparr>)))"

text \<open>\<open>os.Stat\<close> and \<open>FileInfo.IsDir\<close>: whether the path is a directory.\<close>

definition os_Stat :: "string \<Rightarrow> 'a os_scheme \<Rightarrow> (errno, bool) result \<times> 'a os_scheme" where
  "os_Stat path w =
     (case syscall w of
        (Some (e, _), w) \<Rightarrow> (Inl e, w)
      | (None, w) \<Rightarrow>
          (case nodes w path of None \<Rightarrow> (Inl ENOENT, w) | Some n \<Rightarrow> (Inr (n = Directory), w)))"

text \<open>An external command: its words, to its output and its error, if any.\<close>

type_synonym 'w os_exec = "string list \<Rightarrow> 'w \<Rightarrow> (string \<times> string option) \<times> 'w"

section \<open>The applier\<close>

datatype command_error = EmptyCommand string | CommandFailed string string

datatype apply_error =
    EmptyConfigPath
  | RenderFailed render_error
  | ReadActive string errno
  | CreateConfigDir string errno
  | CreateCandidate errno
  | WriteCandidate errno
  | SyncCandidate errno
  | CloseCandidate errno
  | ValidateConfig command_error
  | ReplaceActive string errno
  | SyncConfigDir errno
  | ReloadFailed command_error
  | BootstrapFailed apply_error

record apply_config =
  ConfigPath :: string
  ValidateCommand :: string
  ReloadCommand :: string
  PIDFile :: string

definition configPlaceholder :: string where
  "configPlaceholder = ''{{config}}''"

definition NewApplier :: "apply_config \<Rightarrow> (apply_error, apply_config) result" where
  "NewApplier cfg =
     (let configPath = TrimSpace (ConfigPath cfg) in
      if configPath = [] then Inl EmptyConfigPath
      else Inr \<lparr>ConfigPath = Clean configPath, ValidateCommand = TrimSpace (ValidateCommand cfg),
             ReloadCommand = TrimSpace (ReloadCommand cfg), PIDFile = TrimSpace (PIDFile cfg)\<rparr>)"

definition commandRequiresShell :: "string \<Rightarrow> bool" where
  "commandRequiresShell command = ContainsAny command (CHR 0x27 # CHR 0x22 # ''|&;<>$'' @ CHR 0x60 # ''()'')"

definition runCommand :: "'w os_exec \<Rightarrow> string \<Rightarrow> string \<Rightarrow> 'w \<Rightarrow> command_error option \<times> 'w" where
  "runCommand exec command0 configPath w =
     (let command = TrimSpace command0 in
      if command = [] then (None, w)
      else
        let replaced = ReplaceAll command configPlaceholder configPath;
            words = (if commandRequiresShell replaced then [''/bin/sh'', ''-ec'', replaced] else Fields replaced)
        in if words = [] then (Some (EmptyCommand command), w)
           else case exec words w of
               ((output, None), w) \<Rightarrow> (None, w)
             | ((output, Some err), w) \<Rightarrow> (Some (CommandFailed err (TrimSpace output)), w))"

definition renderedConfigMatchesCurrentFile ::
  "string \<Rightarrow> string \<Rightarrow> 'a os_scheme \<Rightarrow> (apply_error, bool) result \<times> 'a os_scheme" where
  "renderedConfigMatchesCurrentFile configPath renderedConfig w =
     (case os_ReadFile configPath w of
        (Inl e, w) \<Rightarrow> (if e = ENOENT then Inr False else Inl (ReadActive configPath e), w)
      | (Inr currentConfig, w) \<Rightarrow> (Inr (currentConfig = renderedConfig), w))"

definition closeAndCleanup :: "string \<Rightarrow> 'a os_scheme \<Rightarrow> 'a os_scheme" where
  "closeAndCleanup candidatePath w = snd (os_Remove candidatePath (snd (os_Touch w)))"

definition writeCandidateFile ::
  "string \<Rightarrow> string \<Rightarrow> 'a os_scheme \<Rightarrow> (apply_error, string) result \<times> 'a os_scheme" where
  "writeCandidateFile configPath data w =
     (case os_MkdirAll (Dir configPath) w of
        (Some e, w) \<Rightarrow> (Inl (CreateConfigDir (Dir configPath) e), w)
      | (None, w) \<Rightarrow>
          (case os_CreateTemp (Dir configPath) (Base configPath @ ''.tmp-'') w of
             (Inl e, w) \<Rightarrow> (Inl (CreateCandidate e), w)
           | (Inr candidatePath, w) \<Rightarrow>
               (case os_Write candidatePath data w of
                  (Some e, w) \<Rightarrow> (Inl (WriteCandidate e), closeAndCleanup candidatePath w)
                | (None, w) \<Rightarrow>
                    (case os_Touch w of
                       (Some e, w) \<Rightarrow> (Inl (SyncCandidate e), closeAndCleanup candidatePath w)
                     | (None, w) \<Rightarrow>
                         (case os_Touch w of
                            (Some e, w) \<Rightarrow> (Inl (CloseCandidate e), snd (os_Remove candidatePath w))
                          | (None, w) \<Rightarrow> (Inr candidatePath, w))))))"

definition ignorableSyncError :: "errno \<Rightarrow> bool" where
  "ignorableSyncError e = (e = EINVAL \<or> e = ENOTSUP)"

definition syncPath :: "'a os_scheme \<Rightarrow> errno option \<times> 'a os_scheme" where
  "syncPath w =
     (case os_Touch w of
        (Some e, w) \<Rightarrow> (Some e, w)
      | (None, w) \<Rightarrow>
          (case os_Touch w of
             (Some e, w) \<Rightarrow> (if ignorableSyncError e then None else Some e, snd (os_Touch w))
           | (None, w) \<Rightarrow> (None, snd (os_Touch w))))"

definition applyRenderedConfig ::
  "apply_config \<Rightarrow> 'a os_scheme os_exec \<Rightarrow> string \<Rightarrow> bool \<Rightarrow> 'a os_scheme \<Rightarrow>
   (apply_error, bool) result \<times> 'a os_scheme" where
  "applyRenderedConfig cfg exec renderedConfig reload w =
     (case renderedConfigMatchesCurrentFile (ConfigPath cfg) renderedConfig w of
        (Inl err, w) \<Rightarrow> (Inl err, w)
      | (Inr True, w) \<Rightarrow> (Inr False, w)
      | (Inr False, w) \<Rightarrow>
          (case writeCandidateFile (ConfigPath cfg) renderedConfig w of
             (Inl err, w) \<Rightarrow> (Inl err, w)
           | (Inr candidatePath, w) \<Rightarrow>
               (case runCommand exec (ValidateCommand cfg) candidatePath w of
                  (Some err, w) \<Rightarrow> (Inl (ValidateConfig err), snd (os_Remove candidatePath w))
                | (None, w) \<Rightarrow>
                    (case os_Rename candidatePath (ConfigPath cfg) w of
                       (Some e, w) \<Rightarrow> (Inl (ReplaceActive (ConfigPath cfg) e), snd (os_Remove candidatePath w))
                     | (None, w) \<Rightarrow>
                         (case syncPath w of
                            (Some e, w) \<Rightarrow> (Inl (SyncConfigDir e), w)
                          | (None, w) \<Rightarrow>
                              if reload then
                                (case runCommand exec (ReloadCommand cfg) (ConfigPath cfg) w of
                                   (Some err, w) \<Rightarrow> (Inl (ReloadFailed err), w)
                                 | (None, w) \<Rightarrow> (Inr True, w))
                              else (Inr True, w))))))"

definition Applier_Apply ::
  "apply_config \<Rightarrow> 'a os_scheme os_exec \<Rightarrow> p_service list \<Rightarrow> 'a os_scheme \<Rightarrow>
   (apply_error, bool) result \<times> 'a os_scheme" where
  "Applier_Apply cfg exec ss w =
     (case Render ss of
        Inl err \<Rightarrow> (Inl (RenderFailed err), w)
      | Inr renderedConfig \<Rightarrow> applyRenderedConfig cfg exec renderedConfig True w)"

definition shouldReloadOnBootstrap :: "apply_config \<Rightarrow> 'a os_scheme \<Rightarrow> bool \<times> 'a os_scheme" where
  "shouldReloadOnBootstrap cfg w =
     (if TrimSpace (ReloadCommand cfg) = [] then (False, w)
      else if TrimSpace (PIDFile cfg) = [] then (False, w)
      else case os_Stat (PIDFile cfg) w of
          (Inl _, w) \<Rightarrow> (False, w)
        | (Inr isDir, w) \<Rightarrow> (\<not> isDir, w))"

definition Applier_Bootstrap ::
  "apply_config \<Rightarrow> 'a os_scheme os_exec \<Rightarrow> 'a os_scheme \<Rightarrow> apply_error option \<times> 'a os_scheme" where
  "Applier_Bootstrap cfg exec w =
     (case Render [] of
        Inl err \<Rightarrow> (Some (RenderFailed err), w)
      | Inr renderedConfig \<Rightarrow>
          (case shouldReloadOnBootstrap cfg w of (reload, w) \<Rightarrow>
             (case applyRenderedConfig cfg exec renderedConfig reload w of
                (Inl err, w) \<Rightarrow> (Some (BootstrapFailed err), w)
              | (Inr _, w) \<Rightarrow> (None, w))))"

section \<open>Effects of the system calls\<close>

text \<open>
  \<open>oracles w\<close>: what no call changes.  \<open>exec_frame\<close>: external commands leave the file tree
  and the oracles alone, as a validator and a reload of HAProxy do.
\<close>

definition oracles :: "'a os_scheme \<Rightarrow> (nat \<Rightarrow> (errno \<times> nat) option) \<times> (nat \<Rightarrow> string)" where
  "oracles w = (fault w, random w)"

definition exec_frame :: "'a os_scheme os_exec \<Rightarrow> bool" where
  "exec_frame exec \<longleftrightarrow> (\<forall>args w. nodes (snd (exec args w)) = nodes w \<and> oracles (snd (exec args w)) = oracles w)"

definition os_ok :: "'a os_scheme \<Rightarrow> bool" where
  "os_ok w \<longleftrightarrow> (\<forall>n. list_all isDigit (random w n))"

lemma os_ok_oracles: "oracles w = oracles w' \<Longrightarrow> os_ok w = os_ok w'"
  by (simp add: oracles_def os_ok_def)

lemma ReadFile_frame [simp]:
  "nodes (snd (os_ReadFile p w)) = nodes w" "oracles (snd (os_ReadFile p w)) = oracles w"
  by (auto simp: os_ReadFile_def syscall_def oracles_def split: prod.splits option.splits node.splits)

lemma Touch_frame [simp]: "nodes (snd (os_Touch w)) = nodes w" "oracles (snd (os_Touch w)) = oracles w"
  by (auto simp: os_Touch_def syscall_def oracles_def)

lemma Remove_frame [simp]: "q \<noteq> p \<Longrightarrow> nodes (snd (os_Remove p w)) q = nodes w q"
  "oracles (snd (os_Remove p w)) = oracles w"
  by (auto simp: os_Remove_def syscall_def oracles_def split: prod.splits option.splits)

lemma Remove_done: "fault w = (\<lambda>_. None) \<Longrightarrow> nodes (snd (os_Remove p w)) = (nodes w)(p := None)"
  by (auto simp: os_Remove_def syscall_def fun_eq_iff split: prod.splits option.splits)

lemma Stat_frame [simp]: "nodes (snd (os_Stat p w)) = nodes w" "oracles (snd (os_Stat p w)) = oracles w"
  by (auto simp: os_Stat_def syscall_def oracles_def split: prod.splits option.splits)

lemma closeAndCleanup_frame [simp]: "q \<noteq> p \<Longrightarrow> nodes (closeAndCleanup p w) q = nodes w q"
  "oracles (closeAndCleanup p w) = oracles w"
  by (simp_all add: closeAndCleanup_def)

lemma syncPath_frame [simp]: "nodes (snd (syncPath w)) = nodes w" "oracles (snd (syncPath w)) = oracles w"
proof -
  have "nodes (snd (syncPath w)) = nodes w \<and> oracles (snd (syncPath w)) = oracles w"
  proof -
    obtain e1 w1 where 1: "os_Touch w = (e1, w1)" by force
    obtain e2 w2 where 2: "os_Touch w1 = (e2, w2)" by force
    have "nodes w1 = nodes w" "oracles w1 = oracles w" "nodes w2 = nodes w" "oracles w2 = oracles w"
      using Touch_frame [of w] Touch_frame [of w1] 1 2 by simp_all
    then show ?thesis using 1 2 by (auto simp: syncPath_def split: option.splits)
  qed
  then show "nodes (snd (syncPath w)) = nodes w" "oracles (snd (syncPath w)) = oracles w" by auto
qed

lemma runCommand_frame:
  assumes "exec_frame exec"
  shows "nodes (snd (runCommand exec c p w)) = nodes w" "oracles (snd (runCommand exec c p w)) = oracles w"
proof -
  have "nodes (snd (exec args w)) = nodes w" "oracles (snd (exec args w)) = oracles w" for args
    using assms by (simp_all add: exec_frame_def)
  then show "nodes (snd (runCommand exec c p w)) = nodes w"
    "oracles (snd (runCommand exec c p w)) = oracles w"
    by (auto simp: runCommand_def Let_def split: prod.splits option.splits) (metis snd_conv)+
qed

lemma Rename_cases:
  assumes "os_Rename old new w = (r, w')"
  shows "oracles w' = oracles w" "r = Some e \<Longrightarrow> nodes w' = nodes w"
    "r = None \<Longrightarrow> \<exists>n. nodes w old = Some n \<and> nodes w' = (nodes w)(old := None, new \<mapsto> n)"
  using assms by (auto simp: os_Rename_def syscall_def oracles_def split: option.splits if_splits)

lemma Mkdir_cases:
  assumes "os_MkdirAll p w = (r, w')"
  shows "oracles w' = oracles w" "q \<noteq> p \<Longrightarrow> nodes w' q = nodes w q"
  using assms by (auto simp: os_MkdirAll_def syscall_def oracles_def split: option.splits node.splits)

lemma Write_cases:
  assumes "os_Write p d w = (r, w')"
  shows "oracles w' = oracles w" "q \<noteq> p \<Longrightarrow> nodes w' q = nodes w q" "r = None \<Longrightarrow> nodes w' p = Some (File d)"
  using assms by (auto simp: os_Write_def syscall_def oracles_def split: option.splits)

section \<open>Temporary names\<close>

lemma Base_no_slash: "list_all (\<lambda>c. c = CHR ''/'') p \<or> CHR ''/'' \<notin> set (Base p)"
proof (cases "rev (dropWhile (\<lambda>c. c = CHR ''/'') (rev p)) = []")
  case True
  then show ?thesis by (simp add: list_all_iff)
next
  case False
  then have "set (Base p) \<subseteq> {c. c \<noteq> CHR ''/''}"
    by (auto simp: Base_def Let_def dest: set_takeWhileD)
  then show ?thesis by blast
qed

lemma Base_last:
  assumes "CHR ''/'' \<notin> set b" "b \<noteq> []"
  shows "Base (d @ ''/'' @ b) = b"
proof -
  have b: "rev b \<noteq> []" "CHR ''/'' \<notin> set (rev b)" using assms by auto
  then have "dropWhile (\<lambda>c. c = CHR ''/'') (rev b @ t) = rev b @ t" for t by (cases "rev b") auto
  moreover have "takeWhile (\<lambda>c. c \<noteq> CHR ''/'') (rev b @ CHR ''/'' # t) = rev b" for t
    using b(2) takeWhile_append2 [of "rev b" "\<lambda>c. c \<noteq> CHR ''/''" "CHR ''/'' # t"] by auto
  ultimately show ?thesis using assms by (simp add: Base_def Let_def)
qed

lemma candidate_ne:
  assumes "list_all isDigit r"
  shows "d @ ''/'' @ Base p @ ''.tmp-'' @ r \<noteq> p"
proof
  assume eq: "d @ ''/'' @ Base p @ ''.tmp-'' @ r = p"
  have r: "CHR ''/'' \<notin> set r" using assms by (auto simp: list_all_iff isDigit_iff)
  have "CHR ''.'' \<in> set (d @ ''/'' @ Base p @ ''.tmp-'' @ r)" by simp
  then have "CHR ''.'' \<in> set p" using eq by metis
  then have "\<not> list_all (\<lambda>c. c = CHR ''/'') p" by (auto simp: list_all_iff)
  then have "CHR ''/'' \<notin> set (Base p)" using Base_no_slash by blast
  with r have "Base (d @ ''/'' @ (Base p @ ''.tmp-'' @ r)) = Base p @ ''.tmp-'' @ r"
    by (intro Base_last) auto
  then show False using eq by simp
qed

lemma CreateTemp_cases:
  assumes "os_CreateTemp dir (Base p @ ''.tmp-'') w = (r, w')" "os_ok w"
  shows "oracles w' = oracles w" "r = Inl e \<Longrightarrow> nodes w' = nodes w"
    "r = Inr c \<Longrightarrow> c \<noteq> p \<and> nodes w c = None \<and> nodes w' = (nodes w)(c \<mapsto> File [])"
proof -
  have ne: "(if suffix ''/'' dir then dir else dir @ ''/'') @ (Base p @ ''.tmp-'') @ random w n \<noteq> p" for n
  proof -
    obtain d where "(if suffix ''/'' dir then dir else dir @ ''/'') = d @ ''/''"
      by (cases "suffix ''/'' dir") (auto simp: suffix_def)
    then show ?thesis using candidate_ne [of "random w n" d p] assms(2) by (simp add: os_ok_def)
  qed
  show "oracles w' = oracles w" "r = Inl e \<Longrightarrow> nodes w' = nodes w"
    using assms(1) by (auto simp: os_CreateTemp_def syscall_def oracles_def Let_def split: option.splits if_splits)
  show "r = Inr c \<Longrightarrow> c \<noteq> p \<and> nodes w c = None \<and> nodes w' = (nodes w)(c \<mapsto> File [])"
    using assms(1) ne by (auto simp: os_CreateTemp_def syscall_def Let_def split: option.splits if_splits)
qed

section \<open>Writing the candidate\<close>

lemma writeCandidateFile_cases:
  assumes "writeCandidateFile p d w = (r, w')" "os_ok w" "Dir p \<noteq> p"
  shows "oracles w' = oracles w" "nodes w' p = nodes w p"
    "r = Inr c \<Longrightarrow> c \<noteq> p \<and> nodes w' c = Some (File d)"
proof -
  obtain r1 w1 where 1: "os_MkdirAll (Dir p) w = (r1, w1)" by force
  obtain r2 w2 where 2: "os_CreateTemp (Dir p) (Base p @ ''.tmp-'') w1 = (r2, w2)" by force
  note M = Mkdir_cases [OF 1]
  have "os_ok w1" using assms(2) M(1) os_ok_oracles by blast
  note T = CreateTemp_cases [OF 2 this]
  have "oracles w' = oracles w \<and> nodes w' p = nodes w p \<and>
    (\<forall>c. r = Inr c \<longrightarrow> c \<noteq> p \<and> nodes w' c = Some (File d))"
  proof (cases r1; cases r2)
    fix c
    assume r: "r1 = None" "r2 = Inr c"
    obtain r3 w3 where 3: "os_Write c d w2 = (r3, w3)" by force
    obtain r4 w4 where 4: "os_Touch w3 = (r4, w4)" by force
    obtain r5 w5 where 5: "os_Touch w4 = (r5, w5)" by force
    note W = Write_cases [OF 3]
    have c: "c \<noteq> p" and t: "nodes w4 = nodes w3" "oracles w4 = oracles w3" "nodes w5 = nodes w3" "oracles w5 = oracles w3"
      using T(3) r(2) Touch_frame [of w3] Touch_frame [of w4] 4 5 by auto
    have o: "oracles w3 = oracles w" "nodes w3 p = nodes w p"
      using W(1) W(2) [of p] T(1) T(3) [OF r(2)] M(1) M(2) [of p] assms(3) c by auto
    show ?thesis
      using assms(1) 1 2 3 4 5 r c t o W(3)
      by (auto simp: writeCandidateFile_def split: option.splits)
  qed (use assms 1 2 M T in \<open>auto simp: writeCandidateFile_def\<close>)
  then show "oracles w' = oracles w" "nodes w' p = nodes w p"
    "r = Inr c \<Longrightarrow> c \<noteq> p \<and> nodes w' c = Some (File d)" by auto
qed

section \<open>Applying\<close>

text \<open>The errors that can be returned once the active file has been replaced.\<close>

fun afterRename :: "apply_error \<Rightarrow> bool" where
  "afterRename (SyncConfigDir _) = True"
| "afterRename (ReloadFailed _) = True"
| "afterRename _ = False"

lemma matches_cases:
  assumes "renderedConfigMatchesCurrentFile p d w = (r, w')"
  shows "nodes w' = nodes w" "oracles w' = oracles w" "r = Inl e \<Longrightarrow> \<not> afterRename e"
    "r = Inr b \<Longrightarrow> fault w (calls w) = None \<or> b = False"
    "r = Inr True \<Longrightarrow> nodes w p = Some (File d)"
    "r = Inr False \<Longrightarrow> fault w (calls w) = None \<Longrightarrow> nodes w p \<noteq> Some (File d)"
  using assms by (auto simp: renderedConfigMatchesCurrentFile_def os_ReadFile_def syscall_def oracles_def
      split: option.splits node.splits if_splits)

lemma writeCandidateFile_err:
  "writeCandidateFile p d w = (Inl e, w') \<Longrightarrow> \<not> afterRename e"
  by (auto simp: writeCandidateFile_def split: prod.splits option.splits sum.splits)

lemma applyRendered_cases:
  assumes ap: "applyRenderedConfig cfg exec d reload w = (r, w')"
    and "os_ok w" "Dir (ConfigPath cfg) \<noteq> ConfigPath cfg" "exec_frame exec"
  shows "oracles w' = oracles w"
    "nodes w' (ConfigPath cfg) =
       (if (\<exists>e. r = Inl e \<and> \<not> afterRename e) then nodes w (ConfigPath cfg) else Some (File d))"
proof -
  let ?p = "ConfigPath cfg"
  obtain r0 w0 where 0: "renderedConfigMatchesCurrentFile ?p d w = (r0, w0)" by force
  note R = matches_cases [OF 0]
  obtain r1 w1 where 1: "writeCandidateFile ?p d w0 = (r1, w1)" by force
  have "os_ok w0" using assms(2) R(2) os_ok_oracles by blast
  note C = writeCandidateFile_cases [OF 1 this assms(3)]
  have "oracles w' = oracles w \<and> nodes w' ?p = (if (\<exists>e. r = Inl e \<and> \<not> afterRename e) then nodes w ?p else Some (File d))"
  proof (cases "r0 = Inr False \<and> (\<exists>c. r1 = Inr c)")
    case True
    then obtain c where r: "r0 = Inr False" "r1 = Inr c" by blast
    note Cc = C(3) [OF r(2)]
    obtain r2 w2 where 2: "runCommand exec (ValidateCommand cfg) c w1 = (r2, w2)" by force
    obtain r3 w3 where 3: "os_Rename c ?p w2 = (r3, w3)" by force
    obtain r4 w4 where 4: "syncPath w3 = (r4, w4)" by force
    obtain r5 w5 where 5: "runCommand exec (ReloadCommand cfg) ?p w4 = (r5, w5)" by force
    have f: "nodes w2 = nodes w1" "oracles w2 = oracles w1" "nodes w4 = nodes w3" "oracles w4 = oracles w3"
      "nodes w5 = nodes w4" "oracles w5 = oracles w4"
      using runCommand_frame [OF assms(4), of "ValidateCommand cfg" c w1] 2
        runCommand_frame [OF assms(4), of "ReloadCommand cfg" ?p w4] 5 syncPath_frame [of w3] 4 by simp_all
    note N = Rename_cases [OF 3]
    show ?thesis
      using ap 0 1 2 3 4 5 r Cc f N C(1,2) R(1,2)
      by (auto simp: applyRenderedConfig_def split: option.splits if_splits)
  next
    case False
    then show ?thesis
      using ap 0 1 R C(1,2) writeCandidateFile_err [of ?p d w0]
      by (auto simp: applyRenderedConfig_def split: sum.splits bool.splits)
  qed
  then show "oracles w' = oracles w" "nodes w' ?p =
      (if (\<exists>e. r = Inl e \<and> \<not> afterRename e) then nodes w ?p else Some (File d))" by auto
qed

text \<open>When the active file already has the text, one read is all that happens.\<close>

lemma applyRendered_same:
  assumes "nodes w (ConfigPath cfg) = Some (File d)" "fault w (calls w) = None"
  shows "applyRenderedConfig cfg exec d reload w = (Inr False, w\<lparr>calls := Suc (calls w)\<rparr>)"
  using assms by (simp add: applyRenderedConfig_def renderedConfigMatchesCurrentFile_def os_ReadFile_def syscall_def)

section \<open>The contract of an applier\<close>

text \<open>\<open>ConfigApplier\<close> of \<open>engine.go\<close>: what the engine and the file-based provider call.\<close>

record 'w config_applier_ops =
  app_Apply :: "p_service list \<Rightarrow> 'w \<Rightarrow> (apply_error, bool) result \<times> 'w"
  app_Bootstrap :: "'w \<Rightarrow> apply_error option \<times> 'w"

text \<open>
  A success leaves the rendered text of the Services active; a failure leaves the old text
  or the complete new one, never anything else.
\<close>

locale config_applier =
  fixes app :: "'w config_applier_ops" and active :: "'w \<Rightarrow> string option" and ok :: "'w \<Rightarrow> bool"
  assumes apply_ok: "ok w \<Longrightarrow> app_Apply app ss w = (Inr c, w') \<Longrightarrow>
      \<exists>cfg. Render ss = Inr cfg \<and> active w' = Some cfg"
    and apply_err: "ok w \<Longrightarrow> app_Apply app ss w = (Inl e, w') \<Longrightarrow>
      active w' = active w \<or> (\<exists>cfg. Render ss = Inr cfg \<and> active w' = Some cfg)"
    and apply_keeps: "ok w \<Longrightarrow> app_Apply app ss w = (r, w') \<Longrightarrow> ok w'"
    and boot_ok: "ok w \<Longrightarrow> app_Bootstrap app w = (None, w') \<Longrightarrow>
      \<exists>cfg. Render [] = Inr cfg \<and> active w' = Some cfg"
    and boot_err: "ok w \<Longrightarrow> app_Bootstrap app w = (Some e, w') \<Longrightarrow>
      active w' = active w \<or> (\<exists>cfg. Render [] = Inr cfg \<and> active w' = Some cfg)"
    and boot_keeps: "ok w \<Longrightarrow> app_Bootstrap app w = (q, w') \<Longrightarrow> ok w'"

definition Applier :: "apply_config \<Rightarrow> 'a os_scheme os_exec \<Rightarrow> 'a os_scheme config_applier_ops" where
  "Applier cfg exec = \<lparr>app_Apply = Applier_Apply cfg exec, app_Bootstrap = Applier_Bootstrap cfg exec\<rparr>"

definition activeConfig :: "apply_config \<Rightarrow> 'a os_scheme \<Rightarrow> string option" where
  "activeConfig cfg w = (case nodes w (ConfigPath cfg) of Some (File c) \<Rightarrow> Some c | _ \<Rightarrow> None)"

lemma applyRendered_active:
  assumes "applyRenderedConfig cfg exec d reload w = (r, w')"
    and "os_ok w" "Dir (ConfigPath cfg) \<noteq> ConfigPath cfg" "exec_frame exec"
  shows "os_ok w'" "activeConfig cfg w' =
     (if (\<exists>e. r = Inl e \<and> \<not> afterRename e) then activeConfig cfg w else Some d)"
  using applyRendered_cases [OF assms] assms(2) os_ok_oracles by (auto simp: activeConfig_def)

lemma shouldReload_frame:
  "shouldReloadOnBootstrap cfg w = (b, w') \<Longrightarrow> nodes w' = nodes w \<and> oracles w' = oracles w"
  using Stat_frame [of "PIDFile cfg" w]
  by (auto simp: shouldReloadOnBootstrap_def simp del: Stat_frame split: prod.splits sum.splits if_splits)

lemma Applier_meets_contract:
  assumes p: "Dir (ConfigPath cfg) \<noteq> ConfigPath cfg" and x: "exec_frame exec"
  shows "config_applier (Applier cfg exec) (activeConfig cfg) os_ok"
proof -
  have boot: "os_ok w' \<and> (activeConfig cfg w' = Some d \<or> q \<noteq> None \<and> activeConfig cfg w' = activeConfig cfg w)"
    if d: "Render [] = Inr d" and k: "os_ok w" and b: "Applier_Bootstrap cfg exec w = (q, w')" for w w' q d
  proof -
    obtain reload w1 where 1: "shouldReloadOnBootstrap cfg w = (reload, w1)" by force
    obtain r w2 where 2: "applyRenderedConfig cfg exec d reload w1 = (r, w2)" by force
    have k1: "os_ok w1" and a1: "activeConfig cfg w1 = activeConfig cfg w"
      using shouldReload_frame [OF 1] k os_ok_oracles by (auto simp: activeConfig_def)
    show ?thesis
      using applyRendered_active [OF 2 k1 p x] a1 b d 1 2
      by (auto simp: Applier_Bootstrap_def split: sum.splits)
  qed
  have boot': "os_ok w' \<and> (\<exists>d. Render [] = Inr d \<and> (activeConfig cfg w' = Some d \<or>
      q \<noteq> None \<and> activeConfig cfg w' = activeConfig cfg w))"
    if "os_ok w" "Applier_Bootstrap cfg exec w = (q, w')" for w w' q
    using boot that by (auto simp: Render_def)
  show ?thesis
  proof (unfold_locales, goal_cases)
    case (1 w ss c w')
    then show ?case using applyRendered_active(2) [OF _ _ p x]
      by (auto simp: Applier_def Applier_Apply_def split: sum.splits)
  next
    case (2 w ss e w')
    then show ?case using applyRendered_active(2) [OF _ _ p x]
      by (auto simp: Applier_def Applier_Apply_def split: sum.splits if_splits)
  next
    case (3 w ss r w')
    then show ?case using applyRendered_active(1) [OF _ _ p x]
      by (auto simp: Applier_def Applier_Apply_def split: sum.splits)
  qed (use boot' in \<open>fastforce simp: Applier_def\<close>)+
qed

text \<open>A host whose commands succeed quietly.\<close>

definition quietExec :: "'w os_exec" where
  "quietExec args w = (([], None), w)"

definition sampleApply :: apply_config where
  "sampleApply = \<lparr>ConfigPath = ''/etc/haproxy.cfg'', ValidateCommand = ''haproxy -c -f {{config}}'',
     ReloadCommand = ''reload-haproxy'', PIDFile = ''''\<rparr>"

lemma quietExec_frame: "exec_frame quietExec"
  by (simp add: exec_frame_def quietExec_def)

lemma sampleApply_path: "Dir (ConfigPath sampleApply) \<noteq> ConfigPath sampleApply"
  by code_simp

interpretation files: config_applier "Applier sampleApply quietExec" "activeConfig sampleApply" os_ok
  by (rule Applier_meets_contract [OF sampleApply_path quietExec_frame])

section \<open>Candidates are cleaned up\<close>

lemma quiet_syscalls:
  assumes "fault w = (\<lambda>_. None)"
  shows "os_Touch w = (None, w\<lparr>calls := Suc (calls w)\<rparr>)"
    "os_Write p d w = (None, w\<lparr>calls := Suc (calls w), nodes := (nodes w)(p \<mapsto> File d)\<rparr>)"
  using assms by (simp_all add: os_Touch_def os_Write_def syscall_def)

lemma writeCandidateFile_quiet:
  assumes "fault w = (\<lambda>_. None)" "writeCandidateFile p d w = (r, w')" "q \<noteq> Dir p"
  shows "fault w' = (\<lambda>_. None)" "r = Inl e \<Longrightarrow> nodes w' q = nodes w q"
    "r = Inr c \<Longrightarrow> nodes w c = None \<and> c \<noteq> Dir p \<and> nodes w' c = Some (File d) \<and>
      (q \<noteq> c \<longrightarrow> nodes w' q = nodes w q)"
proof -
  have "fault w' = (\<lambda>_. None) \<and> (\<forall>e. r = Inl e \<longrightarrow> nodes w' q = nodes w q) \<and>
    (\<forall>c. r = Inr c \<longrightarrow> nodes w c = None \<and> c \<noteq> Dir p \<and> nodes w' c = Some (File d) \<and>
      (q \<noteq> c \<longrightarrow> nodes w' q = nodes w q))"
    using assms
    by (auto simp: writeCandidateFile_def os_MkdirAll_def os_CreateTemp_def syscall_def quiet_syscalls Let_def
        split: option.splits node.splits if_splits)
  then show "fault w' = (\<lambda>_. None)" "r = Inl e \<Longrightarrow> nodes w' q = nodes w q"
    "r = Inr c \<Longrightarrow> nodes w c = None \<and> c \<noteq> Dir p \<and> nodes w' c = Some (File d) \<and>
      (q \<noteq> c \<longrightarrow> nodes w' q = nodes w q)" by blast+
qed

lemma applyRendered_quiet:
  assumes f: "fault w = (\<lambda>_. None)" and x: "exec_frame exec"
    and ap: "applyRenderedConfig cfg exec d reload w = (r, w')"
    and q: "q \<noteq> ConfigPath cfg" "q \<noteq> Dir (ConfigPath cfg)"
  shows "nodes w' q = nodes w q"
proof -
  let ?p = "ConfigPath cfg"
  obtain r0 w0 where 0: "renderedConfigMatchesCurrentFile ?p d w = (r0, w0)" by force
  have R: "nodes w0 = nodes w" "fault w0 = (\<lambda>_. None)"
    using matches_cases(1,2) [OF 0] f by (simp_all add: oracles_def)
  obtain r1 w1 where 1: "writeCandidateFile ?p d w0 = (r1, w1)" by force
  note C = writeCandidateFile_quiet [OF R(2) 1 q(2)]
  show ?thesis
  proof (cases "r0 = Inr False \<and> (\<exists>c. r1 = Inr c)")
    case True
    then obtain c where r: "r0 = Inr False" "r1 = Inr c" by blast
    note Cc = C(3) [OF r(2)]
    obtain r2 w2 where 2: "runCommand exec (ValidateCommand cfg) c w1 = (r2, w2)" by force
    obtain r3 w3 where 3: "os_Rename c ?p w2 = (r3, w3)" by force
    obtain r4 w4 where 4: "syncPath w3 = (r4, w4)" by force
    obtain r5 w5 where 5: "runCommand exec (ReloadCommand cfg) ?p w4 = (r5, w5)" by force
    have g: "nodes w2 = nodes w1" "oracles w2 = oracles w1" "nodes w4 = nodes w3" "nodes w5 = nodes w4"
      using runCommand_frame [OF x, of "ValidateCommand cfg" c w1] 2
        runCommand_frame [OF x, of "ReloadCommand cfg" ?p w4] 5 syncPath_frame [of w3] 4 by simp_all
    note N = Rename_cases [OF 3]
    have rm: "nodes (snd (os_Remove c w2)) q = nodes w q" "r3 = Some e \<Longrightarrow> nodes (snd (os_Remove c w3)) q = nodes w q" for e
      using Cc C(1) g(1,2) N(1,2) R q(1) Remove_done [of w2 c] Remove_done [of w3 c] by (auto simp: oracles_def)
    have done1: "r3 = None \<Longrightarrow> nodes w3 q = nodes w q" using N(3) Cc g(1) R(1) q(1) by auto
    show ?thesis
      using ap 0 1 2 3 4 5 r rm done1 g(3,4)
      by (auto simp: applyRenderedConfig_def split: option.splits if_splits)
  next
    case False
    then show ?thesis
      using ap 0 1 R C(2)
      by (auto simp: applyRenderedConfig_def split: sum.splits bool.splits)
  qed
qed

section \<open>A sample host\<close>

definition sampleOs :: os where
  "sampleOs = \<lparr>nodes = Map.empty, calls = 0, fault = (\<lambda>_. None), random = (\<lambda>n. itoa n)\<rparr>"

text \<open>Commands succeed, except that the reload is refused.\<close>

definition refusedReload :: "'w os_exec" where
  "refusedReload args w =
     (if args = [''reload-haproxy''] then ((''connection refused'', Some ''exit status 1''), w) else (([], None), w))"

lemma sampleOs_ok: "os_ok sampleOs"
  by (simp add: os_ok_def sampleOs_def itoa_digits)

lemma refusedReload_frame: "exec_frame refusedReload"
  by (simp add: exec_frame_def refusedReload_def)

lemma sample_reload_fails:
  obtains w where "Applier_Apply sampleApply refusedReload [] sampleOs =
    (Inl (ReloadFailed (CommandFailed ''exit status 1'' ''connection refused'')), w)"
    "fault w (calls w) = None"
proof -
  obtain r w where a: "Applier_Apply sampleApply refusedReload [] sampleOs = (r, w)" by force
  have "fst (Applier_Apply sampleApply refusedReload [] sampleOs) =
    Inl (ReloadFailed (CommandFailed ''exit status 1'' ''connection refused''))" by code_simp
  moreover have "oracles w = oracles sampleOs"
    using a applyRendered_cases(1) [OF _ sampleOs_ok sampleApply_path refusedReload_frame]
    by (auto simp: Applier_Apply_def split: sum.splits)
  ultimately show ?thesis using a that [of w] by (simp add: oracles_def sampleOs_def)
qed

section \<open>Properties\<close>

text \<open>
  C17: The active configuration is replaced atomically.  Whatever system calls and commands
  fail, after \<open>Apply\<close> the active file holds the complete rendered text when \<open>Apply\<close>
  succeeded or failed only after the rename, and is untouched when it failed before.
\<close>

theorem apply_replaces_atomically:
  assumes "os_ok w" "Dir (ConfigPath cfg) \<noteq> ConfigPath cfg" "exec_frame exec"
    and "Applier_Apply cfg exec ss w = (r, w')"
  shows "case r of
      Inr _ \<Rightarrow> \<exists>d. Render ss = Inr d \<and> activeConfig cfg w' = Some d
    | Inl e \<Rightarrow> if afterRename e then \<exists>d. Render ss = Inr d \<and> activeConfig cfg w' = Some d
        else nodes w' (ConfigPath cfg) = nodes w (ConfigPath cfg)"
proof (cases "Render ss")
  case (Inl err)
  with assms(4) show ?thesis by (auto simp: Applier_Apply_def)
next
  case (Inr d)
  with assms(4) have ap: "applyRenderedConfig cfg exec d True w = (r, w')" by (simp add: Applier_Apply_def)
  from applyRendered_cases(2) [OF ap assms(1-3)] Inr show ?thesis
    by (auto simp: activeConfig_def split: sum.splits)
qed

theorem apply_replaces_atomically_witness:
  "\<exists>w d. Applier_Apply sampleApply refusedReload [] sampleOs =
      (Inl (ReloadFailed (CommandFailed ''exit status 1'' ''connection refused'')), w) \<and>
    Render [] = Inr d \<and> activeConfig sampleApply w = Some d"
proof -
  obtain w where a: "Applier_Apply sampleApply refusedReload [] sampleOs =
    (Inl (ReloadFailed (CommandFailed ''exit status 1'' ''connection refused'')), w)"
    using sample_reload_fails by blast
  from apply_replaces_atomically [OF sampleOs_ok sampleApply_path refusedReload_frame a] a show ?thesis by auto
qed

text \<open>
  When no system call fails, \<open>Apply\<close> leaves nothing behind: whatever the validation and
  reload commands return, every path other than the active file and its directory is as it
  was before, so the candidate file is gone.
\<close>

theorem apply_leaves_no_candidate:
  assumes "fault w = (\<lambda>_. None)" "exec_frame exec" "q \<noteq> ConfigPath cfg" "q \<noteq> Dir (ConfigPath cfg)"
  shows "nodes (snd (Applier_Apply cfg exec ss w)) q = nodes w q"
proof (cases "Render ss")
  case (Inr d)
  obtain r w' where "applyRenderedConfig cfg exec d True w = (r, w')" by force
  from applyRendered_quiet [OF assms(1,2) this assms(3,4)] this Inr show ?thesis
    by (simp add: Applier_Apply_def)
qed (simp add: Applier_Apply_def)

theorem apply_leaves_no_candidate_witness:
  "nodes (snd (Applier_Apply sampleApply refusedReload [] sampleOs)) ''/etc/haproxy.cfg.tmp-2'' = None"
proof -
  have "''/etc/haproxy.cfg.tmp-2'' \<noteq> ConfigPath sampleApply"
    "''/etc/haproxy.cfg.tmp-2'' \<noteq> Dir (ConfigPath sampleApply)" by code_simp+
  from apply_leaves_no_candidate [OF _ refusedReload_frame this, of sampleOs "[]"] show ?thesis
    by (simp add: sampleOs_def)
qed

text \<open>
  Applying the configuration that is already active is one read: no command runs, nothing
  is written, and no change is reported.
\<close>

theorem apply_up_to_date:
  assumes "Render ss = Inr d" "activeConfig cfg w = Some d" "fault w (calls w) = None"
  shows "Applier_Apply cfg exec ss w = (Inr False, w\<lparr>calls := Suc (calls w)\<rparr>)"
  using assms by (auto simp: Applier_Apply_def activeConfig_def applyRendered_same
      split: option.splits node.splits)

theorem apply_up_to_date_witness:
  "\<exists>d. Render [] = Inr d \<and>
    Applier_Apply sampleApply quietExec [] (sampleOs\<lparr>nodes := [''/etc/haproxy.cfg'' \<mapsto> File d]\<rparr>) =
      (Inr False, sampleOs\<lparr>nodes := [''/etc/haproxy.cfg'' \<mapsto> File d], calls := 1\<rparr>)"
proof -
  obtain d where d: "Render [] = Inr d" by (simp add: Render_def)
  have "activeConfig sampleApply (sampleOs\<lparr>nodes := [''/etc/haproxy.cfg'' \<mapsto> File d]\<rparr>) = Some d"
    by (simp add: activeConfig_def sampleApply_def)
  from apply_up_to_date [OF d this] d show ?thesis by (simp add: sampleOs_def)
qed

text \<open>
  C38: A failed reload is not retried.  After an \<open>Apply\<close> that failed in the reload command,
  applying the same Services again, with any command runner, reports success without a
  change and runs no command, although HAProxy never loaded the new file.
\<close>

theorem failed_reload_not_retried:
  assumes "os_ok w" "Dir (ConfigPath cfg) \<noteq> ConfigPath cfg" "exec_frame exec"
    and "Applier_Apply cfg exec ss w = (Inl (ReloadFailed e), w')" "fault w' (calls w') = None"
  shows "Applier_Apply cfg exec2 ss w' = (Inr False, w'\<lparr>calls := Suc (calls w')\<rparr>)"
proof -
  obtain d where d: "Render ss = Inr d" using assms(4) by (auto simp: Applier_Apply_def split: sum.splits)
  with assms(4) have ap: "applyRenderedConfig cfg exec d True w = (Inl (ReloadFailed e), w')"
    by (simp add: Applier_Apply_def)
  have "nodes w' (ConfigPath cfg) = Some (File d)" using applyRendered_cases(2) [OF ap assms(1-3)] by simp
  then show ?thesis using applyRendered_same d assms(5) by (simp add: Applier_Apply_def)
qed

theorem failed_reload_not_retried_witness:
  "\<exists>w. Applier_Apply sampleApply refusedReload [] sampleOs =
      (Inl (ReloadFailed (CommandFailed ''exit status 1'' ''connection refused'')), w) \<and>
    Applier_Apply sampleApply quietExec [] w = (Inr False, w\<lparr>calls := Suc (calls w)\<rparr>)"
proof -
  obtain w where a: "Applier_Apply sampleApply refusedReload [] sampleOs =
    (Inl (ReloadFailed (CommandFailed ''exit status 1'' ''connection refused'')), w)"
    "fault w (calls w) = None" using sample_reload_fails by blast
  from failed_reload_not_retried [OF sampleOs_ok sampleApply_path refusedReload_frame a] a(1) show ?thesis
    by blast
qed

end
