(* ===== verification/Provider_Contract.thy ===== *)
theory Provider_Contract
  imports Provider_Model
begin

text \<open>
  The interface \<open>Provider\<close> of \<open>internal/provider/provider.go\<close> and what its documentation
  promises: \<open>Ensure\<close> makes the desired state of one Service present, \<open>Delete\<close> removes it, and
  a failure leaves the desired state of the provider as it was.  The mock provider meets it.
  A provider behind a network only meets a weaker contract, which is all the controller needs.
\<close>

record ('p, 'e) provider_ops =
  prov_Ensure :: "p_service \<Rightarrow> 'p \<Rightarrow> ('e, bool) result \<times> 'p"
  prov_Delete :: "service_ref \<Rightarrow> 'p \<Rightarrow> ('e, bool) result \<times> 'p"

text \<open>
  The weaker contract that a provider behind a network meets, and that the controller needs:
  a call that fails may nevertheless have been carried out, and only the references in
  \<open>legal\<close> are handled.
\<close>

locale provider_effects =
  fixes ops :: "('p, 'e) provider_ops" and desired :: "'p \<Rightarrow> service_ref \<rightharpoonup> p_service"
    and canon :: "p_service \<Rightarrow> p_service" and ok :: "'p \<Rightarrow> bool" and legal :: "service_ref \<Rightarrow> bool"
  assumes ensure_stays: "ok p \<Longrightarrow> legal (Ref s) \<Longrightarrow> prov_Ensure ops s p = (r, p') \<Longrightarrow> ok p'"
    and ensure_effect: "ok p \<Longrightarrow> legal (Ref s) \<Longrightarrow> prov_Ensure ops s p = (r, p') \<Longrightarrow>
      desired p' = desired p \<or> desired p' = (desired p)(Ref s \<mapsto> canon s)"
    and ensure_done: "ok p \<Longrightarrow> legal (Ref s) \<Longrightarrow> prov_Ensure ops s p = (Inr c, p') \<Longrightarrow>
      desired p' = (desired p)(Ref s \<mapsto> canon s)"
    and delete_stays: "ok p \<Longrightarrow> legal ref \<Longrightarrow> prov_Delete ops ref p = (r, p') \<Longrightarrow> ok p'"
    and delete_effect: "ok p \<Longrightarrow> legal ref \<Longrightarrow> prov_Delete ops ref p = (r, p') \<Longrightarrow>
      desired p' = desired p \<or> desired p' = (desired p)(ref := None)"
    and delete_done: "ok p \<Longrightarrow> legal ref \<Longrightarrow> prov_Delete ops ref p = (Inr c, p') \<Longrightarrow>
      desired p' = (desired p)(ref := None)"

text \<open>The documented contract: failures change nothing.\<close>

locale service_provider =
  fixes ops :: "('p, 'e) provider_ops" and desired :: "'p \<Rightarrow> service_ref \<rightharpoonup> p_service"
    and canon :: "p_service \<Rightarrow> p_service" and ok :: "'p \<Rightarrow> bool"
  assumes ensure_ok: "ok p \<Longrightarrow> prov_Ensure ops s p = (Inr c, p') \<Longrightarrow> desired p' = (desired p)(Ref s \<mapsto> canon s)"
    and ensure_err: "ok p \<Longrightarrow> prov_Ensure ops s p = (Inl e, p') \<Longrightarrow> desired p' = desired p"
    and ensure_keeps: "ok p \<Longrightarrow> prov_Ensure ops s p = (r, p') \<Longrightarrow> ok p'"
    and delete_ok: "ok p \<Longrightarrow> prov_Delete ops ref p = (Inr c, p') \<Longrightarrow> desired p' = (desired p)(ref := None)"
    and delete_err: "ok p \<Longrightarrow> prov_Delete ops ref p = (Inl e, p') \<Longrightarrow> desired p' = desired p"
    and delete_keeps: "ok p \<Longrightarrow> prov_Delete ops ref p = (r, p') \<Longrightarrow> ok p'"
begin

lemma ensure_other:
  "ok p \<Longrightarrow> prov_Ensure ops s p = (r, p') \<Longrightarrow> ref \<noteq> Ref s \<Longrightarrow> desired p' ref = desired p ref"
  using ensure_ok ensure_err by (cases r) fastforce+

lemma delete_other:
  "ok p \<Longrightarrow> prov_Delete ops ref p = (r, p') \<Longrightarrow> ref' \<noteq> ref \<Longrightarrow> desired p' ref' = desired p ref'"
  using delete_ok delete_err by (cases r) fastforce+

end

sublocale service_provider \<subseteq> effects: provider_effects ops desired canon ok "\<lambda>_. True"
proof (unfold_locales, goal_cases)
  case (2 p s r p')
  then show ?case using ensure_ok ensure_err by (cases r) blast+
next
  case (5 p ref r p')
  then show ?case using delete_ok delete_err by (cases r) blast+
qed (use ensure_keeps ensure_ok delete_keeps delete_ok in blast)+

text \<open>The mock provider never fails; its error type is arbitrary.\<close>

definition mockOps :: "(mock_provider, 'e) provider_ops" where
  "mockOps = \<lparr>prov_Ensure = (\<lambda>s p. case Mock_Ensure s p of (p, c) \<Rightarrow> (Inr c, p)),
     prov_Delete = (\<lambda>ref p. case Mock_Delete ref p of (p, c) \<Rightarrow> (Inr c, p))\<rparr>"

interpretation mockp: service_provider mockOps Mock_Get "\<lambda>s. s" mock_ok
proof (unfold_locales, goal_cases)
  case (1 p s c p') then show ?case using mock.get_put [OF 1(1), of s]
    by (auto simp: mockOps_def simp del: Mock_Get_map_of split: prod.splits)
next
  case (3 p s r p') then show ?case using mock_ok_Ensure [OF 3(1), of s]
    by (auto simp: mockOps_def split: prod.splits)
next
  case (4 p ref c p') then show ?case using mock.get_del [OF 4(1), of ref]
    by (auto simp: mockOps_def simp del: Mock_Get_map_of split: prod.splits)
next
  case (6 p ref r p') then show ?case using mock_ok_Delete [OF 6(1), of ref]
    by (auto simp: mockOps_def split: prod.splits)
qed (auto simp: mockOps_def split: prod.splits)

text \<open>
  The change flag of the mock provider is exact: \<open>Ensure\<close> reports a change exactly when the
  stored Service differed, \<open>Delete\<close> exactly when the Service was stored, and repeating either
  reports none.
\<close>

theorem mock_change_flags:
  "snd (Mock_Ensure s p) = (Mock_Get p (Ref s) \<noteq> Some s) \<and>
   snd (Mock_Delete ref p) = (Mock_Get p ref \<noteq> None) \<and>
   snd (Mock_Ensure s (fst (Mock_Ensure s p))) = False \<and>
   snd (Mock_Delete ref (fst (Mock_Delete ref p))) = False"
  by (auto simp: Mock_Ensure_def Mock_Delete_def update_conv' delete_conv' split: option.splits)

end
