(* ===== verification/Provider_Haproxy.thy ===== *)
theory Provider_Haproxy
  imports Apply Provider_Contract
begin

text \<open>
  \<open>internal/provider/haproxy\<close>: the provider that keeps the desired Services in memory and
  writes the aggregate configuration file on every change.  It meets the provider contract
  over any applier that meets the applier contract, and it produces the same configuration
  as a dataplane store with the same Services.
\<close>

record haproxy_provider =
  hp_services :: "(service_ref \<times> p_service) list"

definition NewHaproxyProvider :: "apply_config \<Rightarrow> (apply_error, apply_config \<times> haproxy_provider) result" where
  "NewHaproxyProvider cfg =
     (case NewApplier (cfg\<lparr>PIDFile := []\<rparr>) of
        Inl err \<Rightarrow> Inl err
      | Inr applier \<Rightarrow> Inr (applier, \<lparr>hp_services = []\<rparr>))"

definition cloneServices :: "(service_ref \<times> p_service) list \<Rightarrow> (service_ref \<times> p_service) list" where
  "cloneServices m = map (\<lambda>(ref, s). (ref, Service_DeepCopy s)) m"

definition servicesToList :: "(service_ref \<times> p_service) list \<Rightarrow> p_service list" where
  "servicesToList m = sort_Slice serviceLess (map (\<lambda>(_, s). Service_DeepCopy s) m)"

definition Haproxy_apply ::
  "'w config_applier_ops \<Rightarrow> (service_ref \<times> p_service) list \<Rightarrow> 'w \<Rightarrow> (apply_error, bool) result \<times> 'w" where
  "Haproxy_apply app m w = app_Apply app (servicesToList m) w"

definition Haproxy_Ensure ::
  "'w config_applier_ops \<Rightarrow> p_service \<Rightarrow> haproxy_provider \<times> 'w \<Rightarrow>
   (apply_error, bool) result \<times> haproxy_provider \<times> 'w" where
  "Haproxy_Ensure app service = (\<lambda>(p, w).
     let nextState = AList.update (Ref service) (Service_DeepCopy service) (cloneServices (hp_services p)) in
     case Haproxy_apply app nextState w of
       (Inl err, w) \<Rightarrow> (Inl err, p, w)
     | (Inr changed, w) \<Rightarrow> (Inr changed, p\<lparr>hp_services := nextState\<rparr>, w))"

definition Haproxy_Delete ::
  "'w config_applier_ops \<Rightarrow> service_ref \<Rightarrow> haproxy_provider \<times> 'w \<Rightarrow>
   (apply_error, bool) result \<times> haproxy_provider \<times> 'w" where
  "Haproxy_Delete app ref = (\<lambda>(p, w).
     let nextState = AList.delete ref (cloneServices (hp_services p)) in
     case Haproxy_apply app nextState w of
       (Inl err, w) \<Rightarrow> (Inl err, p, w)
     | (Inr changed, w) \<Rightarrow> (Inr changed, p\<lparr>hp_services := nextState\<rparr>, w))"

definition haproxyOps :: "'w config_applier_ops \<Rightarrow> (haproxy_provider \<times> 'w, apply_error) provider_ops" where
  "haproxyOps app = \<lparr>prov_Ensure = Haproxy_Ensure app, prov_Delete = Haproxy_Delete app\<rparr>"

section \<open>The provider meets the contract\<close>

definition hp_ok :: "haproxy_provider \<Rightarrow> bool" where
  "hp_ok p = (distinct (map fst (hp_services p)) \<and> list_all (\<lambda>(r, s). Ref s = r) (hp_services p))"

definition hp_desired :: "haproxy_provider \<Rightarrow> service_ref \<rightharpoonup> p_service" where
  "hp_desired p = map_of (hp_services p)"

lemma cloneServices_id [simp]: "cloneServices m = m"
  by (simp add: cloneServices_def)

lemma hp_ok_update: "hp_ok p \<Longrightarrow> hp_ok (p\<lparr>hp_services := AList.update (Ref s) s (hp_services p)\<rparr>)"
  by (auto simp: hp_ok_def distinct_update alist_update_set list_all_iff)

lemma hp_ok_delete: "hp_ok p \<Longrightarrow> hp_ok (p\<lparr>hp_services := AList.delete ref (hp_services p)\<rparr>)"
  by (auto simp: hp_ok_def distinct_delete alist_delete_set list_all_iff)

lemma haproxy_meets_contract:
  "service_provider (haproxyOps app) (\<lambda>pw. hp_desired (fst pw)) (\<lambda>s. s) (\<lambda>pw. hp_ok (fst pw))"
  by unfold_locales
    (auto simp: haproxyOps_def Haproxy_Ensure_def Haproxy_Delete_def hp_desired_def Let_def update_conv'
      delete_conv' hp_ok_update hp_ok_delete split: prod.splits sum.splits)

interpretation hap: service_provider "haproxyOps (Applier sampleApply quietExec)"
  "\<lambda>pw. hp_desired (fst pw)" "\<lambda>s. s" "\<lambda>pw. hp_ok (fst pw)"
  by (rule haproxy_meets_contract)

section \<open>The rendered configuration\<close>

lemma servicesToList_props:
  assumes "hp_ok p"
  shows "distinct (map Ref (servicesToList (hp_services p)))"
    "set (servicesToList (hp_services p)) = ran (hp_desired p)"
proof -
  have "map Ref (map (\<lambda>(_, s). Service_DeepCopy s) (hp_services p)) = map fst (hp_services p)"
    using assms by (auto simp: hp_ok_def list_all_iff)
  then show "distinct (map Ref (servicesToList (hp_services p)))"
    using assms unfolding servicesToList_def distinct_map_sort_Slice by (metis hp_ok_def)
  show "set (servicesToList (hp_services p)) = ran (hp_desired p)"
    using assms by (simp add: servicesToList_def hp_desired_def hp_ok_def ran_distinct case_prod_beta)
qed

lemma ran_map_option: "ran (\<lambda>x. map_option f (m x)) = f ` ran m"
  by (auto simp: ran_def image_def)

lemma Render_set_cong:
  assumes "distinct (map Ref ss)" "distinct (map Ref ts)"
    and "normalizeService ` set ss = normalizeService ` set ts"
  shows "Render ss = Render ts"
proof (cases "ss = []")
  case False
  let ?n = "map normalizeService"
  have d: "distinct (map Ref (?n ss))" "distinct (map Ref (?n ts))" using assms(1,2) by (simp_all add: comp_def)
  then have "mset (?n ss) = mset (?n ts)"
    using assms(3) by (metis distinct_map image_set set_eq_iff_mset_eq_distinct)
  moreover have "inj_on serviceKey (set (?n ss))" 
    using d(1) unfolding distinct_serviceKey by (metis distinct_map)
  ultimately have "canonicalServices ss = canonicalServices ts"
    unfolding canonicalServices_def by (intro sort_key_inj_key_eq) (simp_all only: mset_sort sorted_sort_key)
  moreover have "ts \<noteq> []" using False assms(3) by auto
  ultimately show ?thesis using Render_canonical assms(1,2) False by simp
qed (use assms(3) in \<open>auto simp: Render_def\<close>)

text \<open>A listing of a map of Services: every Service of the map once, in any order.\<close>

definition listingOf :: "(service_ref \<rightharpoonup> p_service) \<Rightarrow> p_service list \<Rightarrow> bool" where
  "listingOf d ss \<longleftrightarrow> set ss = ran d \<and> distinct (map Ref ss)"

text \<open>The text is the rendering of a map of Services, however it is listed.\<close>

definition renders :: "(service_ref \<rightharpoonup> p_service) \<Rightarrow> string \<Rightarrow> bool" where
  "renders d cfg \<longleftrightarrow> (\<exists>ss. listingOf d ss) \<and> (\<forall>ss. listingOf d ss \<longrightarrow> Render ss = Inr cfg)"

lemma rendersI:
  assumes "hp_ok p" "Render (servicesToList (hp_services p)) = Inr cfg"
  shows "renders (hp_desired p) cfg"
proof -
  note L = servicesToList_props [OF assms(1)]
  have "Render ss = Inr cfg" if "listingOf (hp_desired p) ss" for ss
    using that L assms(2) Render_set_cong [of ss "servicesToList (hp_services p)"] by (simp add: listingOf_def)
  moreover have "listingOf (hp_desired p) (servicesToList (hp_services p))" using L by (simp add: listingOf_def)
  ultimately show ?thesis unfolding renders_def by blast
qed

section \<open>Samples\<close>

definition sampleProvider :: haproxy_provider where
  "sampleProvider = \<lparr>hp_services = []\<rparr>"

definition idleService :: p_service where
  "idleService = \<lparr>svc_Namespace = ''web'', svc_Name = ''shop'', LoadBalancerClass = ''lb'',
     ExternalIP = ''203.0.113.10'', Ports = []\<rparr>"

section \<open>Properties\<close>

text \<open>
  C36: A successful \<open>Ensure\<close> of the file-based provider stores the Service, keeps the others,
  and leaves in the active file the text that rendering every Service of the new map, each
  once and in any order, gives.  A failed one keeps the stored Services, and the active file
  holds what it held or the complete text of the new map.
\<close>

theorem haproxy_ensure_correct:
  assumes "config_applier app active ok" "ok w" "hp_ok p" "Haproxy_Ensure app s (p, w) = (r, p', w')"
  shows "hp_ok p' \<and> (case r of
      Inr _ \<Rightarrow> hp_desired p' = (hp_desired p)(Ref s \<mapsto> s) \<and>
        (\<exists>cfg. renders ((hp_desired p)(Ref s \<mapsto> s)) cfg \<and> active w' = Some cfg)
    | Inl _ \<Rightarrow> p' = p \<and> (active w' = active w \<or>
        (\<exists>cfg. renders ((hp_desired p)(Ref s \<mapsto> s)) cfg \<and> active w' = Some cfg)))"
proof -
  let ?n = "AList.update (Ref s) s (hp_services p)"
  have n: "hp_ok (p\<lparr>hp_services := ?n\<rparr>)" "hp_desired (p\<lparr>hp_services := ?n\<rparr>) = (hp_desired p)(Ref s \<mapsto> s)"
    using hp_ok_update [OF assms(3)] by (simp_all add: hp_desired_def update_conv')
  have rend: "renders ((hp_desired p)(Ref s \<mapsto> s)) cfg" if "Render (servicesToList ?n) = Inr cfg" for cfg
    using rendersI [OF n(1), of cfg] that n(2) by simp
  obtain q w1 where a: "app_Apply app (servicesToList ?n) w = (q, w1)" by force
  show ?thesis
  proof (cases q)
    case (Inl e)
    with a assms(4) have "r = Inl e" "p' = p" "w' = w1"
      by (simp_all add: Haproxy_Ensure_def Haproxy_apply_def)
    with config_applier.apply_err [OF assms(1,2), of _ e w1] a Inl assms(3) rend show ?thesis by auto
  next
    case (Inr c)
    with a assms(4) have "r = Inr c" "p' = p\<lparr>hp_services := ?n\<rparr>" "w' = w1"
      by (simp_all add: Haproxy_Ensure_def Haproxy_apply_def)
    with config_applier.apply_ok [OF assms(1,2), of _ c w1] a Inr n rend show ?thesis by auto
  qed
qed

theorem haproxy_ensure_correct_witness:
  "\<exists>p w cfg. Haproxy_Ensure (Applier sampleApply quietExec) idleService (sampleProvider, sampleOs) =
      (Inr True, p, w) \<and> hp_desired p = [Ref idleService \<mapsto> idleService] \<and>
    activeConfig sampleApply w = Some cfg \<and> renders [Ref idleService \<mapsto> idleService] cfg"
proof -
  obtain r p w where h: "Haproxy_Ensure (Applier sampleApply quietExec) idleService (sampleProvider, sampleOs) = (r, p, w)"
    by (metis surj_pair)
  have "fst (Haproxy_Ensure (Applier sampleApply quietExec) idleService (sampleProvider, sampleOs)) = Inr True"
    by code_simp
  then have r: "r = Inr True" using h by simp
  have "hp_desired sampleProvider = Map.empty" "hp_ok sampleProvider"
    by (simp_all add: hp_desired_def hp_ok_def sampleProvider_def)
  with haproxy_ensure_correct [OF files.config_applier_axioms sampleOs_ok _ h] h r show ?thesis by auto
qed

text \<open>
  The file-based provider and the dataplane store agree: when both hold the same Services,
  the store in canonical form, they render the same configuration, or fail alike.
\<close>

theorem haproxy_renders_like_dataplane:
  assumes "hp_ok p" "store_ok st"
    and "\<And>ref. Store_Get st ref = map_option normalizeService (hp_desired p ref)"
  shows "Render (servicesToList (hp_services p)) = Render (Store_List st)"
proof (rule Render_set_cong)
  show "distinct (map Ref (servicesToList (hp_services p)))" by (rule servicesToList_props [OF assms(1)])
  show "distinct (map Ref (Store_List st))"
    using ds.distinct_listing [OF assms(2)] by (simp add: distinct_serviceKey)
  have "Store_Get st = (\<lambda>ref. map_option normalizeService (hp_desired p ref))"
    using assms(3) by blast
  then have s: "set (Store_List st) = normalizeService ` ran (hp_desired p)"
    using ds.set_listing [OF assms(2)] by (simp only: ran_map_option)
  show "normalizeService ` set (servicesToList (hp_services p)) = normalizeService ` set (Store_List st)"
    unfolding s servicesToList_props(2) [OF assms(1)] by (simp add: image_image)
qed

theorem haproxy_renders_like_dataplane_witness:
  "Render (servicesToList [(Ref idleService, idleService)]) = Render (Store_List (Upsert idleService NewStore))"
proof -
  have "Store_Get (Upsert idleService NewStore) ref =
      map_option normalizeService (hp_desired \<lparr>hp_services = [(Ref idleService, idleService)]\<rparr> ref)" for ref
    using ds.get_put [OF store_ok_New, of idleService] ds.get_empty
    by (simp add: hp_desired_def del: Store_Get_map_of)
  moreover have "hp_ok \<lparr>hp_services = [(Ref idleService, idleService)]\<rparr>" by (simp add: hp_ok_def)
  ultimately show ?thesis
    using haproxy_renders_like_dataplane [OF _ store_ok_Upsert [OF store_ok_New]] by fastforce
qed

end
