(* ===== verification/Json.thy ===== *)
theory Json
  imports Netip
begin

text \<open>
  \<open>encoding/json\<close> as the program uses it between the controller and the dataplane: the
  encoder of strings, numbers, arrays and objects, and the decoder with its scanner.  The
  main theorem is the round trip: reading back what was printed, followed by any text that
  cannot continue a number, gives the value, with invalid UTF-8 replaced by U+FFFD, and
  leaves exactly that text.
\<close>

section \<open>Values and printing\<close>

datatype json = JNull | JBool bool | JNumber string | JString string
  | JArray "json list" | JObject "(string \<times> json) list"

text \<open>\<open>utf8.AppendRune\<close> of a valid code point.\<close>

definition encodeRune :: "nat \<Rightarrow> string" where
  "encodeRune r =
     (if r < 0x80 then [char_of r]
      else if r < 0x800 then [char_of (0xC0 + r div 64), char_of (0x80 + r mod 64)]
      else if r < 0x10000 then
        [char_of (0xE0 + r div 4096), char_of (0x80 + r div 64 mod 64), char_of (0x80 + r mod 64)]
      else [char_of (0xF0 + r div 262144), char_of (0x80 + r div 4096 mod 64),
            char_of (0x80 + r div 64 mod 64), char_of (0x80 + r mod 64)])"

text \<open>How one ASCII byte is printed; the HTML characters are escaped too.\<close>

definition escapeByte :: "char \<Rightarrow> string" where
  "escapeByte c =
     (if c = CHR 0x22 \<or> c = CHR 0x5C then [CHR 0x5C, c]
      else if c = CHR 0x08 then [CHR 0x5C, CHR ''b'']
      else if c = CHR 0x0C then [CHR 0x5C, CHR ''f'']
      else if c = CHR 0x0A then [CHR 0x5C, CHR ''n'']
      else if c = CHR 0x0D then [CHR 0x5C, CHR ''r'']
      else if c = CHR 0x09 then [CHR 0x5C, CHR ''t'']
      else if byte c < 0x20 \<or> c = CHR ''<'' \<or> c = CHR ''>'' \<or> c = CHR ''&''
        then [CHR 0x5C, CHR ''u'', CHR ''0'', CHR ''0'', hexDigit (byte c div 16), hexDigit (byte c mod 16)]
      else [c])"

definition escapeRune :: "nat \<Rightarrow> string" where
  "escapeRune r = [CHR 0x5C, CHR ''u'', hexDigit (r div 4096 mod 16), hexDigit (r div 256 mod 16),
     hexDigit (r div 16 mod 16), hexDigit (r mod 16)]"

text \<open>The inside of a printed string, rune by rune.\<close>

function quoteBody :: "string \<Rightarrow> string" where
  "quoteBody [] = []"
| "quoteBody (c # s) =
     (if byte c < 0x80 then escapeByte c @ quoteBody s
      else case decodeRune c s of (r, n) \<Rightarrow>
        if n = 1 then escapeRune 0xFFFD @ quoteBody s
        else if r = 0x2028 \<or> r = 0x2029 then escapeRune r @ quoteBody (drop (n - 1) s)
        else c # take (n - 1) s @ quoteBody (drop (n - 1) s))"
  by pat_completeness auto
termination
  by (relation "measure length") auto

definition quoteJson :: "string \<Rightarrow> string" where
  "quoteJson s = CHR 0x22 # quoteBody s @ [CHR 0x22]"

fun encode :: "json \<Rightarrow> string" and encodeMembers :: "(string \<times> json) list \<Rightarrow> string list" where
  "encode JNull = ''null''"
| "encode (JBool b) = (if b then ''true'' else ''false'')"
| "encode (JNumber n) = n"
| "encode (JString s) = quoteJson s"
| "encode (JArray vs) = CHR ''['' # Join '','' (map encode vs) @ '']''"
| "encode (JObject ms) = CHR ''{'' # Join '','' (encodeMembers ms) @ ''}''"
| "encodeMembers [] = []"
| "encodeMembers ((k, v) # ms) = (quoteJson k @ '':'' @ encode v) # encodeMembers ms"

section \<open>Scanning\<close>

text \<open>
  What a scan of the input finds: a value and the unread rest; an input that ends inside the
  value; an input that no continuation makes valid.  \<open>NoFuel\<close> never comes out of
  \<open>parseJson\<close> (\<open>parseJson_total\<close>).
\<close>

datatype 'a scanned = Value 'a string | More | Bad | NoFuel

fun mapScanned :: "('a \<Rightarrow> 'b) \<Rightarrow> 'a scanned \<Rightarrow> 'b scanned" where
  "mapScanned f (Value v s) = Value (f v) s"
| "mapScanned f More = More"
| "mapScanned f Bad = Bad"
| "mapScanned f NoFuel = NoFuel"

definition isSpace :: "char \<Rightarrow> bool" where
  "isSpace c = (c = CHR '' '' \<or> c = CHR 0x09 \<or> c = CHR 0x0D \<or> c = CHR 0x0A)"

definition skipSpace :: "string \<Rightarrow> string" where
  "skipSpace s = dropWhile isSpace s"

definition hex4 :: "string \<Rightarrow> nat option" where
  "hex4 s =
     (case s of a # b # c # d # _ \<Rightarrow>
        (case (hexVal a, hexVal b, hexVal c, hexVal d) of
           (Some w, Some x, Some y, Some z) \<Rightarrow> Some (w * 4096 + x * 256 + y * 16 + z)
         | _ \<Rightarrow> None)
      | _ \<Rightarrow> None)"

text \<open>
  An escape, after its backslash: the bytes it stands for and how many bytes it takes.  A
  pair of escaped surrogates is one rune, any other escaped surrogate is U+FFFD.
\<close>

datatype escaped = Escaped string nat | EscapeMore | EscapeBad

definition isSurrogate :: "nat \<Rightarrow> bool" where
  "isSurrogate r = (0xD800 \<le> r \<and> r < 0xE000)"

definition lowSurrogate :: "string \<Rightarrow> nat option" where
  "lowSurrogate s =
     (if prefix [CHR 0x5C, CHR ''u''] s
      then (case hex4 (drop 2 s) of None \<Rightarrow> None
            | Some r \<Rightarrow> if 0xDC00 \<le> r \<and> r < 0xE000 then Some r else None)
      else None)"

definition escape :: "string \<Rightarrow> escaped" where
  "escape s =
     (case s of [] \<Rightarrow> EscapeMore
      | c # t \<Rightarrow>
          if c = CHR 0x22 \<or> c = CHR 0x5C \<or> c = CHR ''/'' then Escaped [c] 1
          else if c = CHR ''b'' then Escaped [CHR 0x08] 1
          else if c = CHR ''f'' then Escaped [CHR 0x0C] 1
          else if c = CHR ''n'' then Escaped [CHR 0x0A] 1
          else if c = CHR ''r'' then Escaped [CHR 0x0D] 1
          else if c = CHR ''t'' then Escaped [CHR 0x09] 1
          else if c = CHR ''u'' then
            (case hex4 t of
               None \<Rightarrow> if length t < 4 \<and> list_all (\<lambda>x. hexVal x \<noteq> None) t then EscapeMore else EscapeBad
             | Some r \<Rightarrow>
                 if isSurrogate r then
                   (case lowSurrogate (drop 4 t) of
                      Some l \<Rightarrow>
                        if r < 0xDC00 then Escaped (encodeRune (0x10000 + (r - 0xD800) * 1024 + (l - 0xDC00))) 11
                        else Escaped (encodeRune 0xFFFD) 5
                    | None \<Rightarrow> Escaped (encodeRune 0xFFFD) 5)
                 else Escaped (encodeRune r) 5)
          else EscapeBad)"

text \<open>The rest of a string, after its opening quote.\<close>

function unquote :: "string \<Rightarrow> string scanned" where
  "unquote [] = More"
| "unquote (c # s) =
     (if c = CHR 0x22 then Value [] s
      else if c = CHR 0x5C then
        (case escape s of
           Escaped out n \<Rightarrow> mapScanned (\<lambda>r. out @ r) (unquote (drop n s))
         | EscapeMore \<Rightarrow> More
         | EscapeBad \<Rightarrow> Bad)
      else if byte c < 0x20 then Bad
      else case decodeRune c s of (r, n) \<Rightarrow>
        if 0x80 \<le> byte c \<and> n = 1 then mapScanned (\<lambda>r. encodeRune 0xFFFD @ r) (unquote s)
        else mapScanned (\<lambda>r. c # take (n - 1) s @ r) (unquote (drop (n - 1) s)))"
  by pat_completeness auto
termination
  by (relation "measure length") auto

section \<open>Numbers\<close>

definition scanExponent :: "string \<Rightarrow> string \<Rightarrow> string scanned" where
  "scanExponent acc s =
     (case s of
        c # t \<Rightarrow>
          if c = CHR ''e'' \<or> c = CHR ''E'' then
            (let sg = (case t of x # _ \<Rightarrow> if x = CHR ''+'' \<or> x = CHR ''-'' then [x] else [] | [] \<Rightarrow> []);
                 u = drop (length sg) t; ds = takeWhile isDigit u
             in if ds = [] then (if u = [] then More else Bad)
                else Value (acc @ [c] @ sg @ ds) (dropWhile isDigit u))
          else Value acc s
      | [] \<Rightarrow> Value acc s)"

definition scanFraction :: "string \<Rightarrow> string \<Rightarrow> string scanned" where
  "scanFraction acc s =
     (case s of
        c # t \<Rightarrow>
          if c = CHR ''.'' then
            (let ds = takeWhile isDigit t
             in if ds = [] then (if t = [] then More else Bad)
                else scanExponent (acc @ [c] @ ds) (dropWhile isDigit t))
          else scanExponent acc s
      | [] \<Rightarrow> scanExponent acc s)"

definition scanNumber :: "string \<Rightarrow> string scanned" where
  "scanNumber s =
     (let sg = (if prefix ''-'' s then ''-'' else []); t = drop (length sg) s
      in case t of [] \<Rightarrow> More
         | c # u \<Rightarrow>
             if c = CHR ''0'' then scanFraction (sg @ ''0'') u
             else if isDigit c then scanFraction (sg @ takeWhile isDigit t) (dropWhile isDigit t)
             else Bad)"

definition scanLiteral :: "string \<Rightarrow> json \<Rightarrow> string \<Rightarrow> json scanned" where
  "scanLiteral lit v s =
     (if prefix lit s then Value v (drop (length lit) s) else if prefix s lit then More else Bad)"

section \<open>Documents\<close>

text \<open>
  The value scanner.  \<open>d\<close> is how many more arrays and objects may be opened (the library
  allows 10000), the first argument is fuel.  \<open>parseElements\<close> and \<open>parseMembers\<close> read the
  rest of an array or object that has at least one more element.
\<close>

fun parseValue :: "nat \<Rightarrow> nat \<Rightarrow> string \<Rightarrow> json scanned"
  and parseElements :: "nat \<Rightarrow> nat \<Rightarrow> string \<Rightarrow> json list scanned"
  and parseMembers :: "nat \<Rightarrow> nat \<Rightarrow> string \<Rightarrow> (string \<times> json) list scanned" where
  "parseValue 0 d s = NoFuel"
| "parseValue (Suc f) d s =
     (case skipSpace s of [] \<Rightarrow> More
      | c # t \<Rightarrow>
          if c = CHR ''{'' then
            (if d = 0 then Bad
             else case skipSpace t of [] \<Rightarrow> More
               | x # u \<Rightarrow> if x = CHR ''}'' then Value (JObject []) u
                   else mapScanned JObject (parseMembers f (d - 1) (x # u)))
          else if c = CHR ''['' then
            (if d = 0 then Bad
             else case skipSpace t of [] \<Rightarrow> More
               | x # u \<Rightarrow> if x = CHR '']'' then Value (JArray []) u
                   else mapScanned JArray (parseElements f (d - 1) (x # u)))
          else if c = CHR 0x22 then mapScanned JString (unquote t)
          else if c = CHR ''t'' then scanLiteral ''rue'' (JBool True) t
          else if c = CHR ''f'' then scanLiteral ''alse'' (JBool False) t
          else if c = CHR ''n'' then scanLiteral ''ull'' JNull t
          else if c = CHR ''-'' \<or> isDigit c then mapScanned JNumber (scanNumber (c # t))
          else Bad)"
| "parseElements 0 d s = NoFuel"
| "parseElements (Suc f) d s =
     (case parseValue f d s of
        More \<Rightarrow> More | Bad \<Rightarrow> Bad | NoFuel \<Rightarrow> NoFuel
      | Value v r \<Rightarrow>
          (case skipSpace r of [] \<Rightarrow> More
           | c # t \<Rightarrow>
               if c = CHR '']'' then Value [v] t
               else if c = CHR '','' then mapScanned (\<lambda>vs. v # vs) (parseElements f d t)
               else Bad))"
| "parseMembers 0 d s = NoFuel"
| "parseMembers (Suc f) d s =
     (case skipSpace s of [] \<Rightarrow> More
      | q # t \<Rightarrow>
          if q \<noteq> CHR 0x22 then Bad
          else case unquote t of
            More \<Rightarrow> More | Bad \<Rightarrow> Bad | NoFuel \<Rightarrow> NoFuel
          | Value k r \<Rightarrow>
              (case skipSpace r of [] \<Rightarrow> More
               | c # u \<Rightarrow>
                   if c \<noteq> CHR '':'' then Bad
                   else case parseValue f d u of
                     More \<Rightarrow> More | Bad \<Rightarrow> Bad | NoFuel \<Rightarrow> NoFuel
                   | Value v r \<Rightarrow>
                       (case skipSpace r of [] \<Rightarrow> More
                        | e # w \<Rightarrow>
                            if e = CHR ''}'' then Value [(k, v)] w
                            else if e = CHR '','' then mapScanned (\<lambda>ms. (k, v) # ms) (parseMembers f d w)
                            else Bad)))"

definition maxNestingDepth :: nat where
  "maxNestingDepth = 10000"

definition parseJson :: "string \<Rightarrow> json scanned" where
  "parseJson s = parseValue (2 * length s + 3) maxNestingDepth s"

section \<open>The scanner always answers\<close>

lemma mapScanned_simps [simp]:
  "mapScanned f x = NoFuel \<longleftrightarrow> x = NoFuel" "mapScanned f x = Value v r \<longleftrightarrow> (\<exists>w. x = Value w r \<and> v = f w)"
  by (cases x; auto)+

lemma length_skipSpace: "length (skipSpace s) \<le> length s"
  by (simp add: skipSpace_def length_dropWhile_le)

lemma skipSpace_Cons: "skipSpace s = c # t \<Longrightarrow> length t < length s"
  using length_skipSpace [of s] by simp

lemma unquote_answers: "unquote s \<noteq> NoFuel \<and> (unquote s = Value v r \<longrightarrow> length r < length s)"
proof (induction s arbitrary: v rule: unquote.induct)
  case (2 c s)
  consider "c = CHR 0x22" | "c = CHR 0x5C" | "c \<noteq> CHR 0x22" "c \<noteq> CHR 0x5C" "byte c < (0x20::nat)"
    | "c \<noteq> CHR 0x22" "c \<noteq> CHR 0x5C" "\<not> byte c < (0x20::nat)" by blast
  then show ?case
  proof cases
    case 2
    then show ?thesis using "2.IH"(1) by (fastforce split: escaped.splits)
  next
    case 4
    obtain q n where qn: "decodeRune c s = (q, n)" by force
    show ?thesis
    proof (cases "0x80 \<le> byte c \<and> n = 1")
      case True
      then show ?thesis using "2.IH"(2) [OF 4 qn [symmetric]] 4 by (auto simp: qn less_Suc_eq)
    next
      case False
      then show ?thesis using "2.IH"(3) [OF 4 qn [symmetric]] 4 by (fastforce simp: qn)
    qed
  qed auto
qed simp

lemma scanExponent_answers:
  "scanExponent acc s \<noteq> NoFuel \<and> (scanExponent acc s = Value v r \<longrightarrow> length r \<le> length s)"
  using length_dropWhile_le [of isDigit]
  by (auto simp: scanExponent_def Let_def split: list.splits intro: le_SucI order.trans diff_le_self)

lemma scanFraction_answers:
  "scanFraction acc s \<noteq> NoFuel \<and> (scanFraction acc s = Value v r \<longrightarrow> length r \<le> length s)"
proof (cases s)
  case (Cons c t)
  show ?thesis
    using Cons scanExponent_answers [of acc s v r] length_dropWhile_le [of isDigit t]
      scanExponent_answers [of "acc @ [c] @ takeWhile isDigit t" "dropWhile isDigit t" v r]
    by (auto simp: scanFraction_def Let_def)
qed (simp add: scanFraction_def scanExponent_def)

lemma scanNumber_answers:
  "scanNumber s \<noteq> NoFuel \<and> (scanNumber s = Value v r \<longrightarrow> length r < length s)"
proof -
  define sg where "sg = (if prefix ''-'' s then ''-'' else [])"
  show ?thesis
  proof (cases "drop (length sg) s")
    case (Cons c u)
    then have l: "length u < length s" 
    proof -
      have "length (drop (length sg) s) = Suc (length u)" using Cons by simp
      then show ?thesis by simp
    qed
    have d: "isDigit c \<Longrightarrow> length (dropWhile isDigit (c # u)) \<le> length u"
      using length_dropWhile_le [of isDigit u] by simp
    have "scanNumber s = (if c = CHR ''0'' then scanFraction (sg @ ''0'') u
        else if isDigit c then scanFraction (sg @ takeWhile isDigit (c # u)) (dropWhile isDigit (c # u)) else Bad)"
      using Cons by (simp add: scanNumber_def Let_def flip: sg_def)
    then show ?thesis
      using scanFraction_answers [of "sg @ ''0''" u v r] d l
        scanFraction_answers [of "sg @ takeWhile isDigit (c # u)" "dropWhile isDigit (c # u)" v r]
      by (auto simp del: takeWhile.simps dropWhile.simps split: if_splits)
  qed (simp add: scanNumber_def Let_def flip: sg_def)
qed

lemma scanLiteral_answers:
  "scanLiteral lit w s \<noteq> NoFuel \<and> (scanLiteral lit w s = Value v r \<longrightarrow> length r \<le> length s)"
  by (auto simp: scanLiteral_def)

lemma parse_answers:
  "2 * length s + 1 \<le> f \<Longrightarrow> parseValue f d s \<noteq> NoFuel"
  "parseValue f d s = Value v r \<Longrightarrow> length r < length s"
  "2 * length s + 2 \<le> f \<Longrightarrow> parseElements f d s \<noteq> NoFuel"
  "parseElements f d s = Value vs r \<Longrightarrow> length r < length s"
  "2 * length s + 2 \<le> f \<Longrightarrow> parseMembers f d s \<noteq> NoFuel"
  "parseMembers f d s = Value ms r \<Longrightarrow> length r < length s"
proof (induction f arbitrary: s d v vs ms r)
  case (Suc f)
  note sp = skipSpace_Cons length_skipSpace
  {
    case 1
    show ?case
    proof (cases "skipSpace s")
      case (Cons c t)
      then have t: "length t < length s" by (rule sp)
      have "parseMembers f (d - 1) (x # u) \<noteq> NoFuel \<and> parseElements f (d - 1) (x # u) \<noteq> NoFuel"
        if "skipSpace t = x # u" for x u
        using that length_skipSpace [of t] t 1 Suc(3,5) by simp
      then show ?thesis
        using Cons unquote_answers scanLiteral_answers scanNumber_answers by (simp split: list.splits)
    qed simp
  next
    case 2
    then obtain c t where ct: "skipSpace s = c # t" by (auto split: list.splits)
    then have t: "length t < length s" by (rule sp)
    have x: "length u < length s" if "skipSpace t = x # u" for x u using sp(1) [OF that] t by simp
    have m: "parseMembers f (d - 1) (x # u) = Value w r \<Longrightarrow> length r < length s"
      "parseElements f (d - 1) (x # u) = Value w' r \<Longrightarrow> length r < length s" if "skipSpace t = x # u" for x u w w'
      using sp(1) [OF that] t Suc(6) [of "d - 1" "x # u" w r] Suc(4) [of "d - 1" "x # u" w' r] by simp_all
    have n: "length (c # t) \<le> length s" using ct length_skipSpace [of s] by simp
    have l: "scanLiteral lit w t = Value v r \<Longrightarrow> length r < length s" for lit w
      using scanLiteral_answers [of lit w t v r] t by simp
    have q: "unquote t = Value w r \<Longrightarrow> length r < length s" for w using unquote_answers [of t w r] t by simp
    have i: "scanNumber (c # t) = Value w r \<Longrightarrow> length r < length s" for w
      using scanNumber_answers [of "c # t" w r] n by simp
    show ?case
    proof (cases "c = CHR ''{'' \<or> c = CHR ''[''")
      case True
      with 2 ct obtain y u where "skipSpace t = y # u"
        and "r = u \<or> (\<exists>w. parseMembers f (d - 1) (y # u) = Value w r) \<or> (\<exists>w. parseElements f (d - 1) (y # u) = Value w r)"
        by (cases "skipSpace t") (auto split: if_splits)
      then show ?thesis using x m by blast
    next
      case False
      with 2 ct have "(\<exists>w. unquote t = Value w r) \<or> (\<exists>lit w. scanLiteral lit w t = Value v r) \<or>
          (\<exists>w. scanNumber (c # t) = Value w r)"
        by (simp split: if_splits) blast+
      then show ?thesis using l q i by blast
    qed
  next
    case 3
    have v: "parseValue f d s \<noteq> NoFuel" using Suc(1) 3 by simp
    have "parseElements f d t \<noteq> NoFuel" if "parseValue f d s = Value v r" "skipSpace r = c # t" for v r c t
    proof -
      have "length t < length s" using Suc(2) [OF that(1)] sp(1) [OF that(2)] by simp
      then show ?thesis using Suc(3) 3 by simp
    qed
    then show ?case using v by (auto split: scanned.splits list.splits)
  next
    case 4
    have "length r < length s" if "parseValue f d s = Value v q" "skipSpace q = c # t" "r = t \<or> parseElements f d t = Value w r"
      for v q c t w
      using Suc(2) [OF that(1)] sp(1) [OF that(2)] that(3) Suc(4) by fastforce
    then show ?case using 4 by (auto split: scanned.splits list.splits if_splits)
  next
    case 5
    have "parseValue f d u \<noteq> NoFuel \<and> (\<forall>v q e w. parseValue f d u = Value v q \<longrightarrow> skipSpace q = e # w \<longrightarrow> parseMembers f d w \<noteq> NoFuel)"
      if "skipSpace s = x # t" "unquote t = Value k r" "skipSpace r = c # u" for x t k r c u
    proof -
      have l: "length u < length s"
        using sp(1) [OF that(1)] unquote_answers [of t k r] that(2) sp(1) [OF that(3)] by simp
      have "parseMembers f d w \<noteq> NoFuel" if "parseValue f d u = Value v q" "skipSpace q = e # w" for v q e w
        using l Suc(2) [OF that(1)] sp(1) [OF that(2)] Suc(5) [of w d] 5 by simp
      then show ?thesis using l Suc(1) [of u d] 5 by auto
    qed
    note parts = this
    show ?case
    proof
      assume "parseMembers (Suc f) d s = NoFuel"
      moreover have "unquote t \<noteq> NoFuel" for t using unquote_answers by blast
      ultimately obtain x t k r c u where p: "skipSpace s = x # t" "unquote t = Value k r" "skipSpace r = c # u"
        and "parseValue f d u = NoFuel \<or>
          (\<exists>v q e w. parseValue f d u = Value v q \<and> skipSpace q = e # w \<and> parseMembers f d w = NoFuel)"
        by (auto split: scanned.splits list.splits if_splits)
      with parts [OF p] show False by blast
    qed
  next
    case 6
    have "length r < length s"
      if "skipSpace s = x # t" "unquote t = Value k y" "skipSpace y = c # u" "parseValue f d u = Value v q"
        "skipSpace q = e # w" "r = w \<or> parseMembers f d w = Value m r" for x t k y c u v q e w m
      using sp(1) [OF that(1)] unquote_answers [of t k y] that(2) sp(1) [OF that(3)] Suc(2) [OF that(4)]
        sp(1) [OF that(5)] that(6) Suc(6) [of d w m r] by auto
    note parts = this
    from 6 obtain x t k y c u v q e w where p: "skipSpace s = x # t" "unquote t = Value k y" "skipSpace y = c # u"
        "parseValue f d u = Value v q" "skipSpace q = e # w" and "r = w \<or> (\<exists>m. parseMembers f d w = Value m r)"
      by (auto split: scanned.splits list.splits if_splits)
    with parts [OF p] show ?case by blast
  }
qed simp_all

lemma parseJson_total: "parseJson s \<noteq> NoFuel"
  unfolding parseJson_def by (rule parse_answers(1)) simp

lemma parse_more_fuel:
  notes [simp del] = parseValue.simps(2) parseElements.simps(2) parseMembers.simps(2)
  shows "parseValue f d s \<noteq> NoFuel \<Longrightarrow> parseValue (Suc f) d s = parseValue f d s"
    and "parseElements f d s \<noteq> NoFuel \<Longrightarrow> parseElements (Suc f) d s = parseElements f d s"
    and "parseMembers f d s \<noteq> NoFuel \<Longrightarrow> parseMembers (Suc f) d s = parseMembers f d s"
proof (induction f arbitrary: s d)
  case (Suc f)
  {
    case 1
    then show ?case
      unfolding parseValue.simps(2) [of "Suc f" d s] parseValue.simps(2) [of f d s]
      by (auto simp: Suc split: list.splits)
  next
    case 2
    then have v: "parseValue f d s \<noteq> NoFuel" by (auto simp: parseElements.simps(2))
    from 2 show ?case
      unfolding parseElements.simps(2) [of "Suc f" d s] parseElements.simps(2) [of f d s] Suc(1) [OF v]
      by (auto simp: Suc split: list.splits scanned.splits)
  next
    case 3
    have v: "parseValue (Suc f) d u = parseValue f d u"
      if "skipSpace s = q # t" "q = CHR 0x22" "unquote t = Value k r" "skipSpace r = c # u" "c = CHR '':''" for q t k r c u
      using 3 that by (intro Suc(1)) (auto simp: parseMembers.simps(2))
    from 3 show ?case
      unfolding parseMembers.simps(2) [of "Suc f" d s] parseMembers.simps(2) [of f d s]
      by (auto simp: Suc v split: list.splits scanned.splits)
  }
qed simp_all

lemma parse_enough_fuel:
  assumes "parseValue f d s \<noteq> NoFuel" "f \<le> g" shows "parseValue g d s = parseValue f d s"
  using assms(2,1) by (induction g rule: dec_induct) (simp_all del: parseValue.simps add: parse_more_fuel(1))

lemma parseJson_any_fuel: "2 * length s + 3 \<le> f \<Longrightarrow> parseValue f maxNestingDepth s = parseJson s"
  using parse_enough_fuel parseJson_total by (simp add: parseJson_def)

section \<open>Strings read back\<close>

text \<open>A string with every byte that is not part of valid UTF-8 replaced by U+FFFD.\<close>

function toValidUTF8 :: "string \<Rightarrow> string" where
  "toValidUTF8 [] = []"
| "toValidUTF8 (c # s) =
     (case decodeRune c s of (r, n) \<Rightarrow>
        if 0x80 \<le> byte c \<and> n = 1 then encodeRune 0xFFFD @ toValidUTF8 s
        else c # take (n - 1) s @ toValidUTF8 (drop (n - 1) s))"
  by pat_completeness auto
termination
  by (relation "measure length") auto

lemma hexVal_hexDigit [simp]: "d < 16 \<Longrightarrow> hexVal (hexDigit d) = Some d"
  by (simp add: hexVal_def hexDigit_def of_char_of Let_def)

lemma hexVal_0 [simp]: "hexVal CHR ''0'' = Some 0"
  by (simp add: hexVal_def)

lemma hex4_escapeRune [simp]:
  "r < 65536 \<Longrightarrow> hex4 (hexDigit (r div 4096 mod 16) # hexDigit (r div 256 mod 16) #
     hexDigit (r div 16 mod 16) # hexDigit (r mod 16) # t) = Some r"
proof -
  assume r: "r < 65536"
  have "r mod 256 = 16 * (r div 16 mod 16) + r mod 16" using mod_mult2_eq [of r 16 16] by simp
  moreover have "r mod 4096 = 256 * (r div 256 mod 16) + r mod 256" using mod_mult2_eq [of r 256 16] by simp
  moreover have "r mod 65536 = 4096 * (r div 4096 mod 16) + r mod 4096" using mod_mult2_eq [of r 4096 16] by simp
  moreover have "r mod 65536 = r" using r by simp
  ultimately show ?thesis by (simp add: hex4_def algebra_simps)
qed

lemma decodeRune_width: "decodeRune c s = (r, n) \<Longrightarrow> 1 \<le> n \<and> n \<le> Suc (length s)"
  by (auto simp: decodeRune_def contByte_def Let_def Suc_le_eq split: if_splits)

lemma contByte_take: "i < k \<Longrightarrow> contByte lo hi s i \<Longrightarrow> contByte lo hi (take k s @ u) i"
  by (auto simp: contByte_def nth_append)

lemma decodeRune_wide:
  assumes "decodeRune c s = (r, n)" "n \<noteq> 1"
  obtains "n = 2" "0xC2 \<le> (byte c :: nat)" "(byte c :: nat) \<le> 0xDF" "contByte 0x80 0xBF s 0"
    "r = (byte c mod 32) * 64 + byte (s ! 0) mod 64"
  | "n = 3" "0xE0 \<le> (byte c :: nat)" "(byte c :: nat) \<le> 0xEF"
    "contByte (if byte c = (0xE0 :: nat) then 0xA0 else 0x80) (if byte c = (0xED :: nat) then 0x9F else 0xBF) s 0"
    "contByte 0x80 0xBF s 1" "r = (byte c mod 16) * 4096 + byte (s ! 0) mod 64 * 64 + byte (s ! 1) mod 64"
  | "n = 4" "0xF0 \<le> (byte c :: nat)" "(byte c :: nat) \<le> 0xF4"
    "contByte (if byte c = (0xF0 :: nat) then 0x90 else 0x80) (if byte c = (0xF4 :: nat) then 0x8F else 0xBF) s 0"
    "contByte 0x80 0xBF s 1" "contByte 0x80 0xBF s 2"
    "r = (byte c mod 8) * 262144 + byte (s ! 0) mod 64 * 4096 + byte (s ! 1) mod 64 * 64 + byte (s ! 2) mod 64"
  using assms by (auto simp: decodeRune_def Let_def split: if_splits)

lemma decodeRune_take:
  assumes "decodeRune c s = (r, n)" "n \<noteq> 1"
  shows "decodeRune c (take (n - 1) s @ u) = (r, n)"
  using assms
proof (cases rule: decodeRune_wide)
  case 1
  then show ?thesis using contByte_take [of 0 1 _ _ s u] by (simp add: decodeRune_def Let_def contByte_def nth_append)
next
  case 2
  then have "contByte lo hi s 0 \<Longrightarrow> contByte lo hi (take 2 s @ u) 0" "contByte lo hi s 1 \<Longrightarrow> contByte lo hi (take 2 s @ u) 1"
    "(take 2 s @ u) ! 0 = s ! 0" "(take 2 s @ u) ! 1 = s ! 1" for lo hi
    using contByte_take [of _ 2] by (auto simp: nth_append contByte_def)
  with 2 show ?thesis by (simp add: decodeRune_def Let_def)
next
  case 3
  then have "contByte lo hi s 0 \<Longrightarrow> contByte lo hi (take 3 s @ u) 0" "contByte lo hi s 1 \<Longrightarrow> contByte lo hi (take 3 s @ u) 1"
    "contByte lo hi s 2 \<Longrightarrow> contByte lo hi (take 3 s @ u) 2"
    "(take 3 s @ u) ! 0 = s ! 0" "(take 3 s @ u) ! 1 = s ! 1" "(take 3 s @ u) ! 2 = s ! 2" for lo hi
    using contByte_take [of _ 3] by (auto simp: nth_append contByte_def)
  with 3 show ?thesis by (simp add: decodeRune_def Let_def)
qed

lemma byte_split16: "0xE0 \<le> (b::nat) \<Longrightarrow> b \<le> 0xEF \<Longrightarrow> 0xE0 + b mod 16 = b"
proof -
  assume "0xE0 \<le> b" "b \<le> 0xEF"
  then obtain k where "b = 0xE0 + k" "k < 16" using le_Suc_ex [of "0xE0" b] by auto
  then show ?thesis by (simp add: mod_add_eq [symmetric])
qed

lemma byte_split64: "0x80 \<le> (b::nat) \<Longrightarrow> b \<le> 0xBF \<Longrightarrow> 0x80 + b mod 64 = b"
proof -
  assume "0x80 \<le> b" "b \<le> 0xBF"
  then obtain k where "b = 0x80 + k" "k < 64" using le_Suc_ex [of "0x80" b] by auto
  then show ?thesis by (simp add: mod_add_eq [symmetric])
qed

lemma digits64:
  fixes a x y :: nat
  assumes "x < 64" "y < 64" "r = a * 4096 + x * 64 + y"
  shows "r div 4096 = a" "r div 64 mod 64 = x" "r mod 64 = y"
proof -
  have r: "r = (a * 64 + x) * 64 + y" using assms(3) by simp
  show "r mod 64 = y" unfolding r mod_mult_self3 using assms(2) by simp
  have "r div 64 = a * 64 + x + y div 64" unfolding r by (rule div_mult_self3) simp
  then have q: "r div 64 = a * 64 + x" using assms(2) by simp
  then show "r div 64 mod 64 = x" using assms(1) by simp
  have "r div 4096 = r div 64 div 64" by (simp flip: div_mult2_eq)
  with q show "r div 4096 = a" using assms(1) by simp
qed

lemma encode_separator:
  assumes "decodeRune c s = (r, n)" "n \<noteq> 1" "r = 0x2028 \<or> r = 0x2029"
  shows "encodeRune r = c # take (n - 1) s"
  using assms(1,2)
proof (cases rule: decodeRune_wide)
  case 1
  have "byte c mod 32 \<le> (31::nat)" "byte (s ! 0) mod 64 \<le> (63::nat)" by (simp_all add: less_Suc_eq_le [symmetric])
  with 1 assms(3) show ?thesis by auto
next
  case 2
  let ?b = "byte c :: nat" and ?x = "byte (s ! 0) :: nat" and ?y = "byte (s ! 1) :: nat"
  have l: "2 \<le> length s" using 2 by (simp add: contByte_def)
  have x: "0x80 \<le> ?x \<and> ?x \<le> 0xBF" and y: "0x80 \<le> ?y \<and> ?y \<le> 0xBF"
    using 2 by (auto simp: contByte_def split: if_splits)
  have m: "?x mod 64 < 64" "?y mod 64 < 64" "?b mod 16 < 16" by simp_all
  have "r div 4096 = ?b mod 16" "r div 64 mod 64 = ?x mod 64" "r mod 64 = ?y mod 64"
    using digits64 [OF m(1,2) 2(6)] by simp_all
  moreover have "encodeRune r = [char_of (0xE0 + r div 4096), char_of (0x80 + r div 64 mod 64), char_of (0x80 + r mod 64)]"
    using assms(3) by (auto simp: encodeRune_def)
  ultimately have "encodeRune r = [char_of ?b, char_of ?x, char_of ?y]"
    using byte_split16 [OF 2(2,3)] byte_split64 [of ?x] byte_split64 [of ?y] x y by simp
  moreover have "take 2 s = [s ! 0, s ! 1]" using l by (cases s; cases "tl s") auto
  ultimately show ?thesis using 2(1) by simp
next
  case 3
  have "0x10000 \<le> r"
  proof (cases "byte c = (0xF0::nat)")
    case True
    then have "0x90 \<le> (byte (s ! 0) :: nat)" "(byte (s ! 0) :: nat) \<le> 0xBF" using 3(4) by (simp_all add: contByte_def)
    then have "0x10 \<le> byte (s ! 0) mod (64::nat)" using byte_split64 [of "byte (s ! 0)"] by simp
    then show ?thesis using 3(7) by simp
  next
    case False
    then have "byte c = (0xF1::nat) \<or> byte c = (0xF2::nat) \<or> byte c = (0xF3::nat) \<or> byte c = (0xF4::nat)"
      using 3(2,3) by arith
    then have "1 \<le> byte c mod (8::nat)" by auto
    then show ?thesis using 3(7) by simp
  qed
  with assms(3) show ?thesis by auto
qed

lemma append_single: "(@) [x] = (#) x"
  by (simp add: fun_eq_iff)

lemma unquote_escapeByte:
  assumes "byte c < (0x80::nat)"
  shows "unquote (escapeByte c @ t) = mapScanned (\<lambda>r. c # r) (unquote t)"
proof -
  let ?b = "byte c :: nat"
  let ?short = "c = CHR 0x22 \<or> c = CHR 0x5C \<or> c = CHR 0x08 \<or> c = CHR 0x0C \<or> c = CHR 0x0A \<or> c = CHR 0x0D \<or> c = CHR 0x09"
  let ?hex = "?b < 0x20 \<or> c = CHR ''<'' \<or> c = CHR ''>'' \<or> c = CHR ''&''"
  consider (short) ?short | (hex) "\<not> ?short" ?hex | (plain) "\<not> ?short" "\<not> ?hex" by blast
  then show ?thesis
  proof cases
    case short
    then show ?thesis by (elim disjE) (simp_all add: escapeByte_def escape_def append_single)
  next
    case hex
    then have e: "escapeByte c = [CHR 0x5C, CHR ''u'', CHR ''0'', CHR ''0'', hexDigit (?b div 16), hexDigit (?b mod 16)]"
      by (simp add: escapeByte_def)
    have h: "hex4 (CHR ''0'' # CHR ''0'' # hexDigit (?b div 16) # hexDigit (?b mod 16) # u) = Some ?b" for u
      using assms by (simp add: hex4_def)
    have "\<not> isSurrogate ?b" "encodeRune ?b = [c]" using assms by (simp_all add: isSurrogate_def encodeRune_def)
    with h show ?thesis unfolding e by (simp add: escape_def append_single)
  next
    case plain
    then show ?thesis using assms by (simp add: escapeByte_def decodeRune_ascii)
  qed
qed

lemma unquote_escapeRune:
  assumes "r < 65536" "\<not> isSurrogate r"
  shows "unquote (escapeRune r @ t) = mapScanned (\<lambda>u. encodeRune r @ u) (unquote t)"
  using hex4_escapeRune [OF assms(1), of t] assms(2) by (simp add: escapeRune_def escape_def)

lemma mapScanned_comp [simp]: "mapScanned f (mapScanned g x) = mapScanned (\<lambda>v. f (g v)) x"
  by (cases x) simp_all

lemma unquote_wide:
  assumes "decodeRune c v = (r, n)" "n \<noteq> 1" "\<not> byte c < (0x80::nat)"
  shows "unquote (c # v) = mapScanned (\<lambda>x. c # take (n - 1) v @ x) (unquote (drop (n - 1) v))"
proof -
  have "c \<noteq> CHR 0x22" "c \<noteq> CHR 0x5C" "\<not> byte c < (0x20::nat)" using assms(3) by auto
  with assms show ?thesis by simp
qed

lemma unquote_quoteBody: "unquote (quoteBody s @ CHR 0x22 # t) = Value (toValidUTF8 s) t"
proof (induction s rule: quoteBody.induct)
  case (2 c s)
  show ?case
  proof (cases "byte c < (0x80::nat)")
    case True
    then show ?thesis using 2(1) unquote_escapeByte [OF True] by (simp add: decodeRune_ascii)
  next
    case False
    obtain r n where rn: "decodeRune c s = (r, n)" by force
    show ?thesis
    proof (cases "n = 1")
      case True
      have "\<not> isSurrogate 0xFFFD" by (simp add: isSurrogate_def)
      with True False show ?thesis using 2(2) [OF False rn [symmetric] True] unquote_escapeRune [of "0xFFFD"]
        by (simp add: rn)
    next
      case n: False
      note IH = 2(3,4) [OF False rn [symmetric] n]
      show ?thesis
      proof (cases "r = 0x2028 \<or> r = 0x2029")
        case True
        have "r < 65536" "\<not> isSurrogate r" using True by (auto simp: isSurrogate_def)
        then show ?thesis
          using IH(1) [OF True] unquote_escapeRune encode_separator [OF rn n True] True False n by (simp add: rn)
      next
        case r: False
        let ?u = "quoteBody (drop (n - 1) s) @ CHR 0x22 # t"
        have d: "decodeRune c (take (n - 1) s @ ?u) = (r, n)" by (rule decodeRune_take [OF rn n])
        have "n - 1 \<le> length s" using decodeRune_width [OF rn] by arith
        then have "take (n - 1) (take (n - 1) s @ ?u) = take (n - 1) s" "drop (n - 1) (take (n - 1) s @ ?u) = ?u"
          by simp_all
        then have "unquote (c # take (n - 1) s @ ?u) = mapScanned (\<lambda>v. c # take (n - 1) s @ v) (unquote ?u)"
          using unquote_wide [OF d n False] by metis
        then show ?thesis using IH(2) [OF r] False n r by (simp add: rn)
      qed
    qed
  qed
qed simp

section \<open>Numbers and documents read back\<close>

text \<open>A text that cannot continue a number.\<close>

definition stops :: "string \<Rightarrow> bool" where
  "stops t = (case t of [] \<Rightarrow> True | c # _ \<Rightarrow> \<not> isDigit c \<and> c \<noteq> CHR ''.'' \<and> c \<noteq> CHR ''e'' \<and> c \<noteq> CHR ''E'')"

lemma stops_span:
  assumes "list_all isDigit ds" "stops t"
  shows "takeWhile isDigit (ds @ t) = ds" "dropWhile isDigit (ds @ t) = t"
  using assms by (induction ds) (auto simp: stops_def split: list.splits)

lemma scanFraction_stop: "stops t \<Longrightarrow> scanFraction acc t = Value acc t"
  by (simp add: stops_def scanFraction_def scanExponent_def split: list.splits)

lemma scanDigits:
  assumes "stops t"
  shows "scanNumber (itoa n @ t) = Value (itoa n) t" "scanNumber (CHR ''-'' # itoa n @ t) = Value (CHR ''-'' # itoa n) t"
proof -
  obtain c u where cu: "itoa n = c # u" by (cases "itoa n") auto
  have ds: "isDigit c" "list_all isDigit u" using itoa_digits [of n] cu by simp_all
  have z: "c = CHR ''0'' \<Longrightarrow> u = []"
  proof -
    assume "c = CHR ''0''"
    then have "n = 0" using itoa_pos_no_zero [of n] cu by fastforce
    then show "u = []" using cu by (simp add: itoa.simps)
  qed
  have m: "c \<noteq> CHR ''-''" using ds(1) by (auto simp: isDigit_iff)
  have s: "takeWhile isDigit (c # u @ t) = c # u" "dropWhile isDigit (c # u @ t) = t"
    using stops_span [of "c # u" t] ds assms by simp_all
  have "scanNumber (c # u @ t) = Value (c # u) t \<and> scanNumber (CHR ''-'' # c # u @ t) = Value (CHR ''-'' # c # u) t"
  proof (cases "c = CHR ''0''")
    case True
    then show ?thesis using z scanFraction_stop [OF assms] by (simp add: scanNumber_def)
  next
    case False
    then show ?thesis using ds(1) m s scanFraction_stop [OF assms]
      by (simp add: scanNumber_def Let_def del: takeWhile.simps dropWhile.simps)
  qed
  then show "scanNumber (itoa n @ t) = Value (itoa n) t" "scanNumber (CHR ''-'' # itoa n @ t) = Value (CHR ''-'' # itoa n) t"
    by (simp_all add: cu)
qed

lemma scan_FormatInt: "stops t \<Longrightarrow> scanNumber (FormatInt v @ t) = Value (FormatInt v) t"
  using scanDigits by (simp add: FormatInt_def)

text \<open>What is read back from a printed value, and the values the program prints.\<close>

fun readBack :: "json \<Rightarrow> json" and readBackMembers :: "(string \<times> json) list \<Rightarrow> (string \<times> json) list" where
  "readBack (JString s) = JString (toValidUTF8 s)"
| "readBack (JArray vs) = JArray (map readBack vs)"
| "readBack (JObject ms) = JObject (readBackMembers ms)"
| "readBack v = v"
| "readBackMembers [] = []"
| "readBackMembers ((k, v) # ms) = (toValidUTF8 k, readBack v) # readBackMembers ms"

fun printed :: "nat \<Rightarrow> json \<Rightarrow> bool" and printedMembers :: "nat \<Rightarrow> (string \<times> json) list \<Rightarrow> bool" where
  "printed d (JNumber n) = (\<exists>v. n = FormatInt v)"
| "printed d (JArray vs) = (0 < d \<and> list_all (printed (d - 1)) vs)"
| "printed d (JObject ms) = (0 < d \<and> printedMembers (d - 1) ms)"
| "printed d v = True"
| "printedMembers d [] = True"
| "printedMembers d ((k, v) # ms) = (printed d v \<and> printedMembers d ms)"

lemma skipSpace_id: "s = c # t \<Longrightarrow> \<not> isSpace c \<Longrightarrow> skipSpace s = s"
  by (simp add: skipSpace_def)

lemma FormatInt_head:
  obtains c u where "FormatInt v = c # u" "isDigit c \<or> c = CHR ''-''"
proof (cases "v < 0")
  case False
  then show ?thesis using that itoa_digits [of "nat v"] by (cases "itoa (nat v)") (auto simp: FormatInt_def)
qed (use that in \<open>simp add: FormatInt_def\<close>)

lemma encode_head: "printed d j \<Longrightarrow> \<exists>c t. encode j = c # t \<and> \<not> isSpace c \<and> c \<noteq> CHR '']'' \<and> c \<noteq> CHR ''}''"
proof (cases j)
  case (JNumber n)
  assume "printed d j"
  with JNumber obtain v where v: "n = FormatInt v" by auto
  obtain c u where "FormatInt v = c # u" "isDigit c \<or> c = CHR ''-''" by (rule FormatInt_head)
  then show ?thesis using JNumber v by (auto simp: isSpace_def isDigit_iff)
qed (auto simp: quoteJson_def isSpace_def)

lemma stops_simps [simp]: "stops (CHR '','' # t)" "stops (CHR '']'' # t)" "stops (CHR ''}'' # t)" "stops []"
  by (simp_all add: stops_def isDigit_iff)

text \<open>The reader undoes the printer on \<open>j\<close>, in every context.\<close>

definition readable :: "nat \<Rightarrow> json \<Rightarrow> bool" where
  "readable d j \<longleftrightarrow> (\<forall>f t. stops t \<longrightarrow> 2 * length (encode j @ t) + 1 \<le> f \<longrightarrow>
     parseValue f d (encode j @ t) = Value (readBack j) t)"

lemma parseElements_encode:
  "list_all (readable d) (v # vs) \<Longrightarrow>
   2 * length (Join '','' (map encode (v # vs)) @ CHR '']'' # t) + 2 \<le> f \<Longrightarrow>
   parseElements f d (Join '','' (map encode (v # vs)) @ CHR '']'' # t) = Value (map readBack (v # vs)) t"
proof (induction vs arbitrary: v f)
  case Nil
  then obtain g where g: "f = Suc g" by (cases f) auto
  have "parseValue g d (encode v @ CHR '']'' # t) = Value (readBack v) (CHR '']'' # t)"
    using Nil by (simp add: readable_def g)
  then show ?case by (simp add: g skipSpace_def isSpace_def)
next
  case (Cons w vs)
  then obtain g where g: "f = Suc g" by (cases f) auto
  let ?r = "Join '','' (map encode (w # vs)) @ CHR '']'' # t"
  have j: "Join '','' (map encode (v # w # vs)) @ CHR '']'' # t = encode v @ CHR '','' # ?r" by simp
  have "parseValue g d (encode v @ CHR '','' # ?r) = Value (readBack v) (CHR '','' # ?r)"
    using Cons.prems unfolding j by (simp add: readable_def g)
  moreover have "parseElements g d ?r = Value (map readBack (w # vs)) t"
    using Cons.prems unfolding j by (intro Cons.IH) (simp_all add: g)
  ultimately show ?case unfolding j g by (simp add: skipSpace_def isSpace_def)
qed

lemma parseMember_key:
  "parseMembers (Suc f) d (quoteJson k @ CHR '':'' # s) =
     (case parseValue f d s of
        More \<Rightarrow> More | Bad \<Rightarrow> Bad | NoFuel \<Rightarrow> NoFuel
      | Value v r \<Rightarrow>
          (case skipSpace r of [] \<Rightarrow> More
           | e # w \<Rightarrow>
               if e = CHR ''}'' then Value [(toValidUTF8 k, v)] w
               else if e = CHR '','' then mapScanned (\<lambda>ms. (toValidUTF8 k, v) # ms) (parseMembers f d w)
               else Bad))"
  by (simp add: quoteJson_def skipSpace_def isSpace_def unquote_quoteBody)

lemma parseMembers_encode:
  "list_all (\<lambda>(k, v). readable d v) (m # ms) \<Longrightarrow>
   2 * length (Join '','' (encodeMembers (m # ms)) @ CHR ''}'' # t) + 2 \<le> f \<Longrightarrow>
   parseMembers f d (Join '','' (encodeMembers (m # ms)) @ CHR ''}'' # t) = Value (readBackMembers (m # ms)) t"
proof (induction ms arbitrary: m f)
  case Nil
  obtain k v where m: "m = (k, v)" by force
  from Nil obtain g where g: "f = Suc g" by (cases f) auto
  have "parseValue g d (encode v @ CHR ''}'' # t) = Value (readBack v) (CHR ''}'' # t)"
    using Nil by (simp add: readable_def g m)
  moreover have "Join '','' (encodeMembers [m]) @ CHR ''}'' # t = quoteJson k @ CHR '':'' # encode v @ CHR ''}'' # t"
    by (simp add: m)
  ultimately show ?case by (simp only: g parseMember_key) (simp add: skipSpace_def isSpace_def m)
next
  case (Cons m' ms)
  obtain k v where m: "m = (k, v)" by force
  from Cons obtain g where g: "f = Suc g" by (cases f) auto
  let ?r = "Join '','' (encodeMembers (m' # ms)) @ CHR ''}'' # t"
  have ne: "encodeMembers (m' # ms) \<noteq> []" by (cases m') simp
  have j: "Join '','' (encodeMembers (m # m' # ms)) @ CHR ''}'' # t = quoteJson k @ CHR '':'' # encode v @ CHR '','' # ?r"
    using ne by (simp add: m Join_Cons [of _ _ "encodeMembers (m' # ms)"] del: Join.simps)
  have "parseValue g d (encode v @ CHR '','' # ?r) = Value (readBack v) (CHR '','' # ?r)"
    using Cons.prems unfolding j by (simp add: readable_def g m)
  moreover have "parseMembers g d ?r = Value (readBackMembers (m' # ms)) t"
    using Cons.prems unfolding j by (intro Cons.IH) (simp_all add: g)
  ultimately show ?case unfolding j g
    by (simp only: parseMember_key append_assoc) (simp add: skipSpace_def isSpace_def m)
qed

lemma printed_readable:
  "printed d j \<Longrightarrow> readable d j"
  "printedMembers d ms \<Longrightarrow> list_all (\<lambda>(k, v). readable d v) ms"
proof (induction j and ms arbitrary: d and d rule: encode_encodeMembers.induct)
  case (5 vs)
  show ?case unfolding readable_def
  proof (intro allI impI)
    fix f t
    assume t: "stops t" and f: "2 * length (encode (JArray vs) @ t) + 1 \<le> f"
    from 5(2) obtain e where e: "d = Suc e" by (cases d) auto
    have r: "list_all (readable e) vs" using 5 e by (auto simp: list_all_iff)
    obtain g where g: "f = Suc g" using f by (cases f) auto
    show "parseValue f d (encode (JArray vs) @ t) = Value (readBack (JArray vs)) t"
    proof (cases vs)
      case Nil
      then show ?thesis by (simp add: g e skipSpace_def isSpace_def)
    next
      case (Cons v ws)
      let ?s = "Join '','' (map encode (v # ws)) @ CHR '']'' # t"
      obtain c u where c: "encode v = c # u" "\<not> isSpace c" "c \<noteq> CHR '']''"
        using encode_head [of e v] 5(2) Cons e by auto
      then obtain u' where s: "?s = c # u'" by (cases ws) auto
      have "parseElements g e ?s = Value (map readBack (v # ws)) t"
        using r f by (intro parseElements_encode) (simp_all add: Cons g)
      then have "parseElements g e (c # u') = Value (map readBack (v # ws)) t" by (simp only: s)
      moreover have "encode (JArray vs) @ t = CHR ''['' # c # u'" using s by (simp add: Cons)
      ultimately show ?thesis using c by (simp add: g e skipSpace_def isSpace_def Cons)
    qed
  qed
next
  case (6 ms)
  show ?case unfolding readable_def
  proof (intro allI impI)
    fix f t
    assume t: "stops t" and f: "2 * length (encode (JObject ms) @ t) + 1 \<le> f"
    from 6(2) obtain e where e: "d = Suc e" by (cases d) auto
    have r: "list_all (\<lambda>(k, v). readable e v) ms" using 6 e by simp
    obtain g where g: "f = Suc g" using f by (cases f) auto
    show "parseValue f d (encode (JObject ms) @ t) = Value (readBack (JObject ms)) t"
    proof (cases ms)
      case Nil
      then show ?thesis by (simp add: g e skipSpace_def isSpace_def)
    next
      case (Cons m ns)
      let ?s = "Join '','' (encodeMembers (m # ns)) @ CHR ''}'' # t"
      obtain u where s: "?s = CHR 0x22 # u"
        by (cases m; cases "encodeMembers ns") (auto simp: quoteJson_def Join_Cons)
      have "parseMembers g e ?s = Value (readBackMembers (m # ns)) t"
        using r f by (intro parseMembers_encode) (simp_all add: Cons g)
      then have "parseMembers g e (CHR 0x22 # u) = Value (readBackMembers (m # ns)) t" by (simp only: s)
      moreover have "encode (JObject ms) @ t = CHR ''{'' # CHR 0x22 # u" using s by (simp add: Cons)
      ultimately show ?thesis by (simp add: g e skipSpace_def isSpace_def Cons)
    qed
  qed
next
  case (3 n)
  then obtain v where v: "n = FormatInt v" by auto
  obtain c u where c: "FormatInt v = c # u" "\<not> isSpace c" "c = CHR ''-'' \<or> isDigit c"
  proof -
    obtain c u where "FormatInt v = c # u" "isDigit c \<or> c = CHR ''-''" by (rule FormatInt_head)
    moreover from this have "\<not> isSpace c" by (auto simp: isSpace_def isDigit_iff)
    ultimately show ?thesis using that by blast
  qed
  have n: "c \<noteq> CHR ''{''" "c \<noteq> CHR ''[''" "c \<noteq> CHR 0x22" "c \<noteq> CHR ''t''" "c \<noteq> CHR ''f''" "c \<noteq> CHR ''n''"
    using c(3) by (auto simp: isDigit_iff)
  have "parseValue (Suc g) d (c # u @ t) = Value (JNumber n) t" if "stops t" for g t
    using scan_FormatInt [OF that, of v] c n v by (simp add: skipSpace_def)
  then show ?case unfolding readable_def using v c(1) by (metis Suc_le_D add.commute plus_1_eq_Suc append_Cons encode.simps(3) readBack.simps(6))
next
  case (2 b)
  show ?case unfolding readable_def
  proof (intro allI impI)
    fix f t
    assume "2 * length (encode (JBool b) @ t) + 1 \<le> f"
    then obtain g where "f = Suc g" by (cases f) auto
    then show "parseValue f d (encode (JBool b) @ t) = Value (readBack (JBool b)) t"
      by (simp add: skipSpace_def isSpace_def scanLiteral_def)
  qed
next
  case (8 k v ms)
  then show ?case by simp
qed (auto simp: readable_def quoteJson_def skipSpace_def isSpace_def scanLiteral_def unquote_quoteBody dest!: Suc_le_D)

lemma parseJson_encode:
  assumes "printed maxNestingDepth j" "stops t"
  shows "parseJson (encode j @ t) = Value (readBack j) t"
  using printed_readable(1) [OF assms(1)] assms(2) by (simp add: readable_def parseJson_def)

end
