(* ===== verification/Ip_Attach.thy ===== *)
theory Ip_Attach
  imports Netip
begin

text \<open>
  \<open>internal/dataplane/ipattach\<close>: attaching external IPv4 addresses to a host interface,
  through netlink (\<open>netlink.go\<close>, \<open>netlink_linux.go\<close>) or through the \<open>ip\<close> command
  (\<open>exec.go\<close>), and the configuration and the disabled manager of \<open>manager.go\<close>.

  Operations thread a world of any type.  The netlink package and the process runner are
  parameters.  What the dataplane engine relies on is the contract of the locales
  \<open>ip_manager\<close>, \<open>ip_attacher\<close> and \<open>ip_atomic\<close>.  The netlink manager meets the first two over
  any client that behaves like a kernel address table (locale \<open>netlink_kernel\<close>), and the third
  over one that also loses no answers (\<open>netlink_acknowledged\<close>).
\<close>

section \<open>Configuration\<close>

datatype attach_mode_error = UnsupportedMode string | BadCIDRSuffix | EmptyInterface

record attach_config =
  Enabled :: bool
  Mode :: string
  Interface :: string
  CommandPath :: string
  CIDRSuffix :: int

definition DefaultCommandPath :: string where
  "DefaultCommandPath = ''ip''"

definition DefaultCIDRSuffix :: int where
  "DefaultCIDRSuffix = 32"

definition ModeExec :: string where
  "ModeExec = ''exec''"

definition ModeNetlink :: string where
  "ModeNetlink = ''netlink''"

definition DefaultMode :: string where
  "DefaultMode = ModeNetlink"

definition normalizeMode :: "string \<Rightarrow> string" where
  "normalizeMode mode = ToLower (TrimSpace mode)"

definition Mode_Valid :: "string \<Rightarrow> bool" where
  "Mode_Valid m = (normalizeMode m = ModeExec \<or> normalizeMode m = ModeNetlink)"

definition normalizeConfig :: "attach_config \<Rightarrow> (attach_mode_error, attach_config) result" where
  "normalizeConfig cfg =
     (let mode = (if normalizeMode (Mode cfg) = [] then DefaultMode else normalizeMode (Mode cfg)) in
      if mode \<noteq> ModeExec \<and> mode \<noteq> ModeNetlink then Inl (UnsupportedMode (Mode cfg))
      else
        let iface = TrimSpace (Interface cfg);
            command = (if TrimSpace (CommandPath cfg) = [] then DefaultCommandPath else TrimSpace (CommandPath cfg));
            cidr = (if CIDRSuffix cfg = 0 then DefaultCIDRSuffix else CIDRSuffix cfg)
        in if cidr < 1 \<or> cidr > 32 then Inl BadCIDRSuffix
           else if Enabled cfg \<and> iface = [] then Inl EmptyInterface
           else Inr (cfg\<lparr>Mode := mode, Interface := iface, CommandPath := command, CIDRSuffix := cidr\<rparr>))"

section \<open>Managers\<close>

text \<open>
  \<open>net.IPNet\<close>, and the errors of the operations on the host: the interface, the subject and
  the error text the netlink package or the process runner gave.
\<close>

record ipnet =
  IPNet_IP :: "8 word list"
  IPNet_Mask :: "8 word list"

datatype ipnet_error = InvalidIP | UnsupportedMaskSize nat

datatype netlink_error =
    LookupInterface string string
  | ListIPv4Failed string string
  | ConvertAddress ipnet string ipnet_error
  | AddFailed ip_prefix string string
  | DeleteFailed ip_prefix string string
  | NetlinkUnsupported

datatype op_error = NetlinkOp netlink_error | CommandOp string string

datatype attach_action = AttachExternalIP | DetachExternalIP

datatype ip_error =
    NotIPv4 addr
  | ListFailed op_error
  | BadInterfaceAddress string
  | ActionFailed attach_action op_error
  | ActionThenListFailed attach_action string ip_error

record 'w external_ip_manager =
  ipm_List :: "'w \<Rightarrow> (ip_error, addr list) result \<times> 'w"
  ipm_EnsurePresent :: "addr \<Rightarrow> 'w \<Rightarrow> (ip_error, bool) result \<times> 'w"
  ipm_EnsureAbsent :: "addr \<Rightarrow> 'w \<Rightarrow> (ip_error, bool) result \<times> 'w"

definition validateIPv4Addr :: "addr \<Rightarrow> ip_error option" where
  "validateIPv4Addr addr = (if \<not> IsValid addr \<or> \<not> Is4 addr then Some (NotIPv4 addr) else None)"

definition containsAddr :: "addr list \<Rightarrow> addr \<Rightarrow> bool" where
  "containsAddr addresses target = list_ex (\<lambda>candidate. candidate = target) addresses"

definition noopManager :: "'w external_ip_manager" where
  "noopManager = \<lparr>ipm_List = (\<lambda>w. (Inr [], w)), ipm_EnsurePresent = (\<lambda>_ w. (Inr False, w)),
     ipm_EnsureAbsent = (\<lambda>_ w. (Inr False, w))\<rparr>"

section \<open>The netlink manager\<close>

record 'w netlink_client =
  ListIPv4Addrs :: "string \<Rightarrow> 'w \<Rightarrow> (netlink_error, ip_prefix list) result \<times> 'w"
  AddIPv4Addr :: "string \<Rightarrow> ip_prefix \<Rightarrow> 'w \<Rightarrow> netlink_error option \<times> 'w"
  DeleteIPv4Addr :: "string \<Rightarrow> ip_prefix \<Rightarrow> 'w \<Rightarrow> netlink_error option \<times> 'w"

text \<open>
  \<open>netip.PrefixFrom\<close> with a length the address family admits, which is how it is called.
\<close>

definition PrefixFrom :: "addr \<Rightarrow> int \<Rightarrow> ip_prefix" where
  "PrefixFrom addr bits = (addr, nat bits)"

definition managedAddrs :: "int \<Rightarrow> ip_prefix list \<Rightarrow> addr list" where
  "managedAddrs cidr pfxs = map fst (filter (\<lambda>(a, bits). Is4 a \<and> int bits = cidr) pfxs)"

definition Netlink_List ::
  "attach_config \<Rightarrow> 'w netlink_client \<Rightarrow> 'w \<Rightarrow> (ip_error, addr list) result \<times> 'w" where
  "Netlink_List cfg client w =
     (case ListIPv4Addrs client (Interface cfg) w of
        (Inl err, w) \<Rightarrow> (Inl (ListFailed (NetlinkOp err)), w)
      | (Inr pfxs, w) \<Rightarrow> (Inr (sortAddrs (managedAddrs (CIDRSuffix cfg) pfxs)), w))"

definition ensureNetlinkStateAfterOperation ::
  "attach_config \<Rightarrow> 'w netlink_client \<Rightarrow> addr \<Rightarrow> bool \<Rightarrow> attach_action \<Rightarrow> netlink_error \<Rightarrow> 'w \<Rightarrow>
   (ip_error, bool) result \<times> 'w" where
  "ensureNetlinkStateAfterOperation cfg client addr wantPresent action operationErr w =
     (case Netlink_List cfg client w of
        (Inl err, w) \<Rightarrow> (Inl (ActionThenListFailed action '''' err), w)
      | (Inr current, w) \<Rightarrow>
          if containsAddr current addr = wantPresent then (Inr False, w)
          else (Inl (ActionFailed action (NetlinkOp operationErr)), w))"

definition Netlink_EnsurePresent ::
  "attach_config \<Rightarrow> 'w netlink_client \<Rightarrow> addr \<Rightarrow> 'w \<Rightarrow> (ip_error, bool) result \<times> 'w" where
  "Netlink_EnsurePresent cfg client addr w =
     (case validateIPv4Addr addr of
        Some err \<Rightarrow> (Inl err, w)
      | None \<Rightarrow>
          (case Netlink_List cfg client w of
             (Inl err, w) \<Rightarrow> (Inl err, w)
           | (Inr current, w) \<Rightarrow>
               if containsAddr current addr then (Inr False, w)
               else
                 case AddIPv4Addr client (Interface cfg) (PrefixFrom addr (CIDRSuffix cfg)) w of
                   (Some err, w) \<Rightarrow> ensureNetlinkStateAfterOperation cfg client addr True AttachExternalIP err w
                 | (None, w) \<Rightarrow> (Inr True, w)))"

definition Netlink_EnsureAbsent ::
  "attach_config \<Rightarrow> 'w netlink_client \<Rightarrow> addr \<Rightarrow> 'w \<Rightarrow> (ip_error, bool) result \<times> 'w" where
  "Netlink_EnsureAbsent cfg client addr w =
     (case validateIPv4Addr addr of
        Some err \<Rightarrow> (Inl err, w)
      | None \<Rightarrow>
          (case Netlink_List cfg client w of
             (Inl err, w) \<Rightarrow> (Inl err, w)
           | (Inr current, w) \<Rightarrow>
               if \<not> containsAddr current addr then (Inr False, w)
               else
                 case DeleteIPv4Addr client (Interface cfg) (PrefixFrom addr (CIDRSuffix cfg)) w of
                   (Some err, w) \<Rightarrow> ensureNetlinkStateAfterOperation cfg client addr False DetachExternalIP err w
                 | (None, w) \<Rightarrow> (Inr True, w)))"

definition netlinkManager :: "attach_config \<Rightarrow> 'w netlink_client \<Rightarrow> 'w external_ip_manager" where
  "netlinkManager cfg client = \<lparr>ipm_List = Netlink_List cfg client,
     ipm_EnsurePresent = Netlink_EnsurePresent cfg client,
     ipm_EnsureAbsent = Netlink_EnsureAbsent cfg client\<rparr>"

section \<open>The client over the netlink package\<close>

record ('w, 'l) netlink_lib =
  LinkByName :: "string \<Rightarrow> 'w \<Rightarrow> (string, 'l) result \<times> 'w"
  AddrList :: "'l \<Rightarrow> 'w \<Rightarrow> (string, ipnet option list) result \<times> 'w"
  AddrAdd :: "'l \<Rightarrow> ipnet \<Rightarrow> 'w \<Rightarrow> string option \<times> 'w"
  AddrDel :: "'l \<Rightarrow> ipnet \<Rightarrow> 'w \<Rightarrow> string option \<times> 'w"

text \<open>\<open>netip.AddrFromSlice\<close>, \<open>Addr.Unmap\<close>, \<open>Addr.AsSlice\<close>, \<open>net.CIDRMask\<close> and \<open>IPMask.Size\<close>.\<close>

definition AddrFromSlice :: "8 word list \<Rightarrow> addr option" where
  "AddrFromSlice bs =
     (if length bs = 4 then Some (V4 (bs ! 0) (bs ! 1) (bs ! 2) (bs ! 3))
      else if length bs = 16 then Some (V6 bs []) else None)"

fun Unmap :: "addr \<Rightarrow> addr" where
  "Unmap (V6 bs zone) =
     (if length bs = 16 \<and> take 12 bs = replicate 10 0 @ [0xFF, 0xFF]
      then V4 (bs ! 12) (bs ! 13) (bs ! 14) (bs ! 15) else V6 bs zone)"
| "Unmap a = a"

fun AsSlice :: "addr \<Rightarrow> 8 word list" where
  "AsSlice (V4 a b c d) = [a, b, c, d]"
| "AsSlice (V6 bs _) = bs"
| "AsSlice InvalidAddr = []"

fun maskBytes :: "nat \<Rightarrow> nat \<Rightarrow> 8 word list" where
  "maskBytes 0 n = []"
| "maskBytes (Suc l) n =
     (if 8 \<le> n then 0xFF # maskBytes l (n - 8)
      else not (drop_bit n 0xFF) # maskBytes l 0)"

definition CIDRMask :: "nat \<Rightarrow> nat \<Rightarrow> 8 word list" where
  "CIDRMask ones bits = (if (bits = 32 \<or> bits = 128) \<and> ones \<le> bits then maskBytes (bits div 8) ones else [])"

fun leadingOnes :: "nat \<Rightarrow> 8 word \<Rightarrow> nat \<Rightarrow> nat \<times> 8 word" where
  "leadingOnes 0 v n = (n, v)"
| "leadingOnes (Suc k) v n = (if bit v 7 then leadingOnes k (push_bit 1 v) (n + 1) else (n, v))"

text \<open>\<open>simpleMaskLength\<close>, whose result -1 is \<open>None\<close> here; a byte has at most 8 leading ones.\<close>

fun simpleMaskLength :: "8 word list \<Rightarrow> nat \<Rightarrow> nat option" where
  "simpleMaskLength [] n = Some n"
| "simpleMaskLength (v # m) n =
     (if v = 0xFF then simpleMaskLength m (n + 8)
      else case leadingOnes 8 v n of (n', v') \<Rightarrow>
        if v' \<noteq> 0 \<or> list_ex (\<lambda>b. b \<noteq> 0) m then None else Some n')"

definition Mask_Size :: "8 word list \<Rightarrow> nat \<times> nat" where
  "Mask_Size m = (case simpleMaskLength m 0 of None \<Rightarrow> (0, 0) | Some ones \<Rightarrow> (ones, length m * 8))"

definition prefixToIPNet :: "ip_prefix \<Rightarrow> ipnet" where
  "prefixToIPNet p = \<lparr>IPNet_IP = AsSlice (fst p), IPNet_Mask = CIDRMask (snd p) 32\<rparr>"

definition prefixFromIPNet :: "ipnet \<Rightarrow> (ipnet_error, ip_prefix) result" where
  "prefixFromIPNet ipNet =
     (case AddrFromSlice (IPNet_IP ipNet) of
        None \<Rightarrow> Inl InvalidIP
      | Some addr \<Rightarrow>
          (case Mask_Size (IPNet_Mask ipNet) of (ones, bits) \<Rightarrow>
             if bits \<noteq> 32 then Inl (UnsupportedMaskSize bits) else Inr (PrefixFrom (Unmap addr) (int ones))))"

fun convertAddrs :: "string \<Rightarrow> ipnet option list \<Rightarrow> (netlink_error, ip_prefix list) result" where
  "convertAddrs interfaceName [] = Inr []"
| "convertAddrs interfaceName (None # addrs) = convertAddrs interfaceName addrs"
| "convertAddrs interfaceName (Some ipNet # addrs) =
     (case prefixFromIPNet ipNet of
        Inl err \<Rightarrow> Inl (ConvertAddress ipNet interfaceName err)
      | Inr pfx \<Rightarrow>
          (case convertAddrs interfaceName addrs of
             Inl err \<Rightarrow> Inl err
           | Inr pfxs \<Rightarrow> Inr (if Is4 (fst pfx) then pfx # pfxs else pfxs)))"

definition Linux_ListIPv4Addrs ::
  "('w, 'l) netlink_lib \<Rightarrow> string \<Rightarrow> 'w \<Rightarrow> (netlink_error, ip_prefix list) result \<times> 'w" where
  "Linux_ListIPv4Addrs lib interfaceName w =
     (case LinkByName lib interfaceName w of
        (Inl err, w) \<Rightarrow> (Inl (LookupInterface interfaceName err), w)
      | (Inr link, w) \<Rightarrow>
          (case AddrList lib link w of
             (Inl err, w) \<Rightarrow> (Inl (ListIPv4Failed interfaceName err), w)
           | (Inr addrs, w) \<Rightarrow> (convertAddrs interfaceName addrs, w)))"

definition Linux_AddIPv4Addr ::
  "('w, 'l) netlink_lib \<Rightarrow> string \<Rightarrow> ip_prefix \<Rightarrow> 'w \<Rightarrow> netlink_error option \<times> 'w" where
  "Linux_AddIPv4Addr lib interfaceName pfx w =
     (case LinkByName lib interfaceName w of
        (Inl err, w) \<Rightarrow> (Some (LookupInterface interfaceName err), w)
      | (Inr link, w) \<Rightarrow>
          (case AddrAdd lib link (prefixToIPNet pfx) w of
             (Some err, w) \<Rightarrow> (Some (AddFailed pfx interfaceName err), w)
           | (None, w) \<Rightarrow> (None, w)))"

definition Linux_DeleteIPv4Addr ::
  "('w, 'l) netlink_lib \<Rightarrow> string \<Rightarrow> ip_prefix \<Rightarrow> 'w \<Rightarrow> netlink_error option \<times> 'w" where
  "Linux_DeleteIPv4Addr lib interfaceName pfx w =
     (case LinkByName lib interfaceName w of
        (Inl err, w) \<Rightarrow> (Some (LookupInterface interfaceName err), w)
      | (Inr link, w) \<Rightarrow>
          (case AddrDel lib link (prefixToIPNet pfx) w of
             (Some err, w) \<Rightarrow> (Some (DeleteFailed pfx interfaceName err), w)
           | (None, w) \<Rightarrow> (None, w)))"

definition linuxNetlinkClient :: "('w, 'l) netlink_lib \<Rightarrow> 'w netlink_client" where
  "linuxNetlinkClient lib = \<lparr>ListIPv4Addrs = Linux_ListIPv4Addrs lib,
     AddIPv4Addr = Linux_AddIPv4Addr lib, DeleteIPv4Addr = Linux_DeleteIPv4Addr lib\<rparr>"

section \<open>The manager over the ip command\<close>

text \<open>\<open>Runner.CombinedOutput\<close>: the output of a command and its error, if any.\<close>

type_synonym 'w runner = "string \<Rightarrow> string list \<Rightarrow> 'w \<Rightarrow> (string \<times> string option) \<times> 'w"

text \<open>\<open>commandError\<close> and \<open>commandFailureMessage\<close> attach the trimmed output to the error.\<close>

definition commandError :: "string \<Rightarrow> string \<Rightarrow> op_error" where
  "commandError err output = CommandOp err (TrimSpace output)"

fun lineAddr :: "int \<Rightarrow> string list \<Rightarrow> (ip_error, addr list) result" where
  "lineAddr cidr (field # next # rest) =
     (if field \<noteq> ''inet'' then lineAddr cidr (next # rest)
      else case ParsePrefix next of
          None \<Rightarrow> Inl (BadInterfaceAddress next)
        | Some (a, bits) \<Rightarrow> Inr (if Is4 a \<and> int bits = cidr then [a] else []))"
| "lineAddr cidr _ = Inr []"

fun parseLines :: "int \<Rightarrow> string list \<Rightarrow> (ip_error, addr list) result" where
  "parseLines cidr [] = Inr []"
| "parseLines cidr (line # lines) =
     (if TrimSpace line = [] then parseLines cidr lines
      else case lineAddr cidr (Fields line) of
          Inl err \<Rightarrow> Inl err
        | Inr found \<Rightarrow>
            (case parseLines cidr lines of Inl err \<Rightarrow> Inl err | Inr addresses \<Rightarrow> Inr (found @ addresses)))"

definition parseManagedInterfaceAddrs :: "string \<Rightarrow> int \<Rightarrow> (ip_error, addr list) result" where
  "parseManagedInterfaceAddrs output managedCIDRSuffix =
     parseLines managedCIDRSuffix (Split CHR 0x0A (TrimSpace output))"

definition Exec_List ::
  "attach_config \<Rightarrow> 'w runner \<Rightarrow> 'w \<Rightarrow> (ip_error, addr list) result \<times> 'w" where
  "Exec_List cfg runner w =
     (case runner (CommandPath cfg) [''-4'', ''-o'', ''addr'', ''show'', ''dev'', Interface cfg] w of
        ((output, Some err), w) \<Rightarrow> (Inl (ListFailed (commandError err output)), w)
      | ((output, None), w) \<Rightarrow>
          (case parseManagedInterfaceAddrs output (CIDRSuffix cfg) of
             Inl err \<Rightarrow> (Inl err, w)
           | Inr addresses \<Rightarrow> (Inr (sortAddrs addresses), w)))"

definition ensureExecStateAfterCommand ::
  "attach_config \<Rightarrow> 'w runner \<Rightarrow> addr \<Rightarrow> bool \<Rightarrow> attach_action \<Rightarrow> string \<Rightarrow> string \<Rightarrow> 'w \<Rightarrow>
   (ip_error, bool) result \<times> 'w" where
  "ensureExecStateAfterCommand cfg runner addr wantPresent action commandErr output w =
     (case Exec_List cfg runner w of
        (Inl err, w) \<Rightarrow> (Inl (ActionThenListFailed action (TrimSpace output) err), w)
      | (Inr current, w) \<Rightarrow>
          if containsAddr current addr = wantPresent then (Inr False, w)
          else (Inl (ActionFailed action (commandError commandErr output)), w))"

definition cidrText :: "attach_config \<Rightarrow> addr \<Rightarrow> string" where
  "cidrText cfg addr = AddrString addr @ ''/'' @ FormatInt (CIDRSuffix cfg)"

definition Exec_EnsurePresent ::
  "attach_config \<Rightarrow> 'w runner \<Rightarrow> addr \<Rightarrow> 'w \<Rightarrow> (ip_error, bool) result \<times> 'w" where
  "Exec_EnsurePresent cfg runner addr w =
     (case validateIPv4Addr addr of
        Some err \<Rightarrow> (Inl err, w)
      | None \<Rightarrow>
          (case Exec_List cfg runner w of
             (Inl err, w) \<Rightarrow> (Inl err, w)
           | (Inr current, w) \<Rightarrow>
               if containsAddr current addr then (Inr False, w)
               else
                 case runner (CommandPath cfg) [''addr'', ''add'', cidrText cfg addr, ''dev'', Interface cfg] w of
                   ((output, Some err), w) \<Rightarrow> ensureExecStateAfterCommand cfg runner addr True AttachExternalIP err output w
                 | ((output, None), w) \<Rightarrow> (Inr True, w)))"

definition Exec_EnsureAbsent ::
  "attach_config \<Rightarrow> 'w runner \<Rightarrow> addr \<Rightarrow> 'w \<Rightarrow> (ip_error, bool) result \<times> 'w" where
  "Exec_EnsureAbsent cfg runner addr w =
     (case validateIPv4Addr addr of
        Some err \<Rightarrow> (Inl err, w)
      | None \<Rightarrow>
          (case Exec_List cfg runner w of
             (Inl err, w) \<Rightarrow> (Inl err, w)
           | (Inr current, w) \<Rightarrow>
               if \<not> containsAddr current addr then (Inr False, w)
               else
                 case runner (CommandPath cfg) [''addr'', ''del'', cidrText cfg addr, ''dev'', Interface cfg] w of
                   ((output, Some err), w) \<Rightarrow> ensureExecStateAfterCommand cfg runner addr False DetachExternalIP err output w
                 | ((output, None), w) \<Rightarrow> (Inr True, w)))"

definition execManager :: "attach_config \<Rightarrow> 'w runner \<Rightarrow> 'w external_ip_manager" where
  "execManager cfg runner = \<lparr>ipm_List = Exec_List cfg runner,
     ipm_EnsurePresent = Exec_EnsurePresent cfg runner,
     ipm_EnsureAbsent = Exec_EnsureAbsent cfg runner\<rparr>"

section \<open>Choosing a manager\<close>

text \<open>
  The dependencies are the injected runner and client, if any, and the defaults the code
  falls back to: the process runner, and the platform's netlink client, which is missing
  (\<open>None\<close>) on systems other than Linux.
\<close>

record 'w dependencies =
  Runner :: "'w runner option"
  NetlinkClient :: "'w netlink_client option"
  ExecRunner :: "'w runner"
  defaultNetlinkClient :: "'w netlink_client option"

datatype manager_error = ConfigError attach_mode_error | NetlinkOnlyOnLinux

definition newExecManager :: "attach_config \<Rightarrow> 'w dependencies \<Rightarrow> 'w external_ip_manager" where
  "newExecManager cfg deps =
     execManager cfg (case Runner deps of None \<Rightarrow> ExecRunner deps | Some runner \<Rightarrow> runner)"

definition newNetlinkManager ::
  "attach_config \<Rightarrow> 'w dependencies \<Rightarrow> (manager_error, 'w external_ip_manager) result" where
  "newNetlinkManager cfg deps =
     (case NetlinkClient deps of
        Some client \<Rightarrow> Inr (netlinkManager cfg client)
      | None \<Rightarrow>
          (case defaultNetlinkClient deps of
             None \<Rightarrow> Inl NetlinkOnlyOnLinux
           | Some client \<Rightarrow> Inr (netlinkManager cfg client)))"

definition NewManager ::
  "attach_config \<Rightarrow> 'w dependencies \<Rightarrow> (manager_error, 'w external_ip_manager) result" where
  "NewManager cfg deps =
     (case normalizeConfig cfg of
        Inl err \<Rightarrow> Inl (ConfigError err)
      | Inr normalized \<Rightarrow>
          if \<not> Enabled normalized then Inr noopManager
          else if Mode normalized = ModeExec then Inr (newExecManager normalized deps)
          else if Mode normalized = ModeNetlink then newNetlinkManager normalized deps
          else Inl (ConfigError (UnsupportedMode (Mode normalized))))"

section \<open>The contract of an external IP manager\<close>

text \<open>
  \<open>view w\<close> is the set of managed addresses attached in the world \<open>w\<close>.  Every manager lists
  the view and changes it at most by the address it is given.
\<close>

locale ip_manager =
  fixes m :: "'w external_ip_manager" and view :: "'w \<Rightarrow> addr set"
  assumes list_ok: "ipm_List m w = (Inr xs, w') \<Longrightarrow> set xs = view w \<and> sorted xs"
    and list_view: "ipm_List m w = (r, w') \<Longrightarrow> view w' = view w"
    and present_frame: "ipm_EnsurePresent m a w = (p, w') \<Longrightarrow> view w' = view w \<or> view w' = insert a (view w)"
    and present_changed: "ipm_EnsurePresent m a w = (Inr True, w') \<Longrightarrow> a \<notin> view w \<and> view w' = insert a (view w)"
    and absent_frame: "ipm_EnsureAbsent m a w = (p, w') \<Longrightarrow> view w' = view w \<or> view w' = view w - {a}"
    and absent_ok: "ipm_EnsureAbsent m a w = (Inr c, w') \<Longrightarrow> view w' = view w - {a}"

text \<open>A manager that attaches: after a success the address is there, whether or not it was before.\<close>

locale ip_attacher = ip_manager +
  assumes present_ok: "ipm_EnsurePresent m a w = (Inr c, w') \<Longrightarrow> view w' = insert a (view w)"

text \<open>A manager whose failures, and whose successes that report no change, change nothing.\<close>

locale ip_atomic = ip_manager +
  assumes present_same: "ipm_EnsurePresent m a w = (p, w') \<Longrightarrow> p \<noteq> Inr True \<Longrightarrow> view w' = view w"

lemma containsAddr_iff [simp]: "containsAddr xs a \<longleftrightarrow> a \<in> set xs"
  by (auto simp: containsAddr_def list_ex_iff)

lemma validateIPv4Addr_None [simp]: "validateIPv4Addr a = None \<longleftrightarrow> Is4 a"
  by (cases a) (simp_all add: validateIPv4Addr_def)

lemma validateIPv4Addr_Is4 [simp]: "Is4 a \<Longrightarrow> validateIPv4Addr a = None"
  by simp

interpretation noop: ip_atomic noopManager "\<lambda>_. {}"
  by unfold_locales (auto simp: noopManager_def)

section \<open>The netlink manager meets the contract\<close>

text \<open>
  What the netlink manager relies on: the client is a view of an address table of the
  interface.  A successful listing gives the table; a successful addition or deletion adds
  or deletes the prefix; a failed one may or may not have done so, as when its answer is
  lost.  Deleting a prefix deletes no other, as on a host that promotes secondary addresses
  or with the default prefix length 32.
\<close>

definition validPrefix :: "ip_prefix \<Rightarrow> bool" where
  "validPrefix q = (Is4 (fst q) \<and> snd q \<le> 32)"

locale netlink_kernel =
  fixes cfg :: attach_config and client :: "'w netlink_client" and table :: "'w \<Rightarrow> ip_prefix set"
  assumes suffix_range: "1 \<le> CIDRSuffix cfg" "CIDRSuffix cfg \<le> 32"
    and client_list: "ListIPv4Addrs client (Interface cfg) w = (Inr ps, w') \<Longrightarrow> set ps = table w"
    and client_list_view: "ListIPv4Addrs client (Interface cfg) w = (r, w') \<Longrightarrow> table w' = table w"
    and client_add: "validPrefix q \<Longrightarrow> AddIPv4Addr client (Interface cfg) q w = (None, w') \<Longrightarrow> table w' = insert q (table w)"
    and client_add_err: "validPrefix q \<Longrightarrow> AddIPv4Addr client (Interface cfg) q w = (Some e, w') \<Longrightarrow>
      table w' = table w \<or> table w' = insert q (table w)"
    and client_del: "validPrefix q \<Longrightarrow> DeleteIPv4Addr client (Interface cfg) q w = (None, w') \<Longrightarrow> table w' = table w - {q}"
    and client_del_err: "validPrefix q \<Longrightarrow> DeleteIPv4Addr client (Interface cfg) q w = (Some e, w') \<Longrightarrow>
      table w' = table w \<or> table w' = table w - {q}"

text \<open>A client that never loses an answer: a failed change has not been made.\<close>

locale netlink_acknowledged = netlink_kernel +
  assumes add_refused: "validPrefix q \<Longrightarrow> AddIPv4Addr client (Interface cfg) q w = (Some e, w') \<Longrightarrow> table w' = table w"
    and del_refused: "validPrefix q \<Longrightarrow> DeleteIPv4Addr client (Interface cfg) q w = (Some e, w') \<Longrightarrow> table w' = table w"

text \<open>The managed addresses: those whose prefix has the configured length.\<close>

definition managedView :: "attach_config \<Rightarrow> ip_prefix set \<Rightarrow> addr set" where
  "managedView cfg T = {a. Is4 a \<and> (a, nat (CIDRSuffix cfg)) \<in> T}"

lemma managedAddrs_set:
  assumes "0 \<le> k"
  shows "set (managedAddrs k ps) = {a. Is4 a \<and> (a, nat k) \<in> set ps}"
proof -
  have "int n = k \<longleftrightarrow> n = nat k" for n using assms by auto
  then show ?thesis by (auto simp: managedAddrs_def image_iff)
qed

lemma managedView_insert:
  "Is4 a \<Longrightarrow> managedView cfg (insert (PrefixFrom a (CIDRSuffix cfg)) T) = insert a (managedView cfg T)"
  by (auto simp: managedView_def PrefixFrom_def)

lemma managedView_delete:
  "managedView cfg (T - {PrefixFrom a (CIDRSuffix cfg)}) = managedView cfg T - {a}"
  by (auto simp: managedView_def PrefixFrom_def)

context netlink_kernel
begin

lemma validPrefix_managed: "Is4 a \<Longrightarrow> validPrefix (PrefixFrom a (CIDRSuffix cfg))"
  using suffix_range by (simp add: validPrefix_def PrefixFrom_def)

lemma List_cases:
  assumes "Netlink_List cfg client w = (r, w')"
  shows "table w' = table w" "r = Inr xs \<Longrightarrow> set xs = managedView cfg (table w) \<and> sorted xs"
  using assms suffix_range client_list client_list_view
  by (auto simp: Netlink_List_def managedView_def managedAddrs_set split: prod.splits sum.splits)

lemma List_error: "Netlink_List cfg client w = (Inl e, w') \<Longrightarrow> \<exists>le. e = ListFailed le"
  by (auto simp: Netlink_List_def split: prod.splits sum.splits)

lemma after_cases:
  assumes "ensureNetlinkStateAfterOperation cfg client a want act e w = (r, w')"
  shows "table w' = table w" "r \<noteq> Inr True"
    "r = Inr c \<Longrightarrow> (a \<in> managedView cfg (table w)) = want"
    "r = Inl e' \<Longrightarrow> (a \<in> managedView cfg (table w)) \<noteq> want \<or>
      (\<exists>out le. e' = ActionThenListFailed act out (ListFailed le))"
  using assms List_cases List_error
  by (auto simp: ensureNetlinkStateAfterOperation_def split: prod.splits sum.splits if_splits)

text \<open>
  The outcomes of \<open>EnsurePresent\<close>: the address is invalid, a listing failed or the client
  refused; the address was there; or it was added, even if the client then reported a failure.
\<close>

lemma present_cases:
  assumes "Netlink_EnsurePresent cfg client a w = (r, w')"
  obtains (err) e where "r = Inl e" "table w' = table w"
  | (doubt) out le where "r = Inl (ActionThenListFailed AttachExternalIP out (ListFailed le))" "Is4 a"
      "table w' = insert (PrefixFrom a (CIDRSuffix cfg)) (table w)"
  | (old) "r = Inr False" "table w' = table w" "a \<in> managedView cfg (table w)"
  | (added) c where "r = Inr c" "Is4 a" "a \<notin> managedView cfg (table w)"
      "table w' = insert (PrefixFrom a (CIDRSuffix cfg)) (table w)"
proof (cases "validateIPv4Addr a")
  case (Some e)
  with assms have "r = Inl e" "w' = w" by (simp_all add: Netlink_EnsurePresent_def)
  then show ?thesis by (intro that(1)) simp_all
next
  case None
  then have a4: "Is4 a" by simp
  let ?q = "PrefixFrom a (CIDRSuffix cfg)"
  note q = validPrefix_managed [OF a4]
  obtain l w1 where l: "Netlink_List cfg client w = (l, w1)" by force
  note L = List_cases [OF l]
  show ?thesis
  proof (cases l)
    case (Inl e)
    with assms None l have "r = Inl e" "w' = w1" by (simp_all add: Netlink_EnsurePresent_def)
    with L(1) show ?thesis by (intro that(1)) simp_all
  next
    case (Inr xs)
    note xs = conjunct1 [OF L(2) [OF Inr]]
    obtain o1 w2 where ad: "AddIPv4Addr client (Interface cfg) ?q w1 = (o1, w2)" by force
    consider "a \<in> set xs" | "a \<notin> set xs" "o1 = None" | e where "a \<notin> set xs" "o1 = Some e" by (cases o1) auto
    then show ?thesis
    proof cases
      case 1
      with assms None l Inr have "r = Inr False" "w' = w1" by (simp_all add: Netlink_EnsurePresent_def)
      with L(1) xs 1 show ?thesis by (intro that(3)) simp_all
    next
      case 2
      then have "r = Inr True" "w' = w2" using assms None l Inr ad by (simp_all add: Netlink_EnsurePresent_def)
      then show ?thesis using that(4) [of True] a4 xs 2 client_add [OF q, of w1 w2] ad L(1) by simp
    next
      case 3
      then have "ensureNetlinkStateAfterOperation cfg client a True AttachExternalIP e w2 = (r, w')"
        using assms None l Inr ad by (simp add: Netlink_EnsurePresent_def)
      note A = after_cases [OF this]
      have new: "a \<notin> managedView cfg (table w)" using 3 xs by simp
      have t2: "table w2 = table w \<or> table w2 = insert ?q (table w)" using client_add_err [OF q, of w1 e w2] ad 3(2) L(1) by simp
      show ?thesis
      proof (cases r)
        case (Inl e')
        show ?thesis
        proof (cases "table w2 = table w")
          case True
          then show ?thesis using A(1) Inl by (intro that(1)) simp_all
        next
          case False
          then have i: "table w2 = insert ?q (table w)" using t2 by simp
          then have "a \<in> managedView cfg (table w2)" using a4 by (simp add: managedView_insert)
          then obtain out le where "e' = ActionThenListFailed AttachExternalIP out (ListFailed le)" using A(4) [OF Inl] by blast
          then show ?thesis using A(1) Inl i a4 by (intro that(2)) simp_all
        qed
      next
        case (Inr c)
        then have "a \<in> managedView cfg (table w2)" using A(3) by auto
        then have i: "table w2 = insert ?q (table w)" using t2 new by metis
        show ?thesis by (rule that(4) [of c]) (use A(1) i Inr new a4 in simp_all)
      qed
    qed
  qed
qed

lemma absent_cases:
  assumes "Netlink_EnsureAbsent cfg client a w = (r, w')"
  obtains (err) e where "r = Inl e" "table w' = table w"
  | (doubt) out le where "r = Inl (ActionThenListFailed DetachExternalIP out (ListFailed le))"
      "table w' = table w - {PrefixFrom a (CIDRSuffix cfg)}"
  | (old) "r = Inr False" "table w' = table w" "a \<notin> managedView cfg (table w)"
  | (deleted) c where "r = Inr c" "table w' = table w - {PrefixFrom a (CIDRSuffix cfg)}" "a \<in> managedView cfg (table w)"
proof (cases "validateIPv4Addr a")
  case (Some e)
  with assms have "r = Inl e" "w' = w" by (simp_all add: Netlink_EnsureAbsent_def)
  then show ?thesis by (intro that(1)) simp_all
next
  case None
  then have a4: "Is4 a" by simp
  let ?q = "PrefixFrom a (CIDRSuffix cfg)"
  note q = validPrefix_managed [OF a4]
  obtain l w1 where l: "Netlink_List cfg client w = (l, w1)" by force
  note L = List_cases [OF l]
  show ?thesis
  proof (cases l)
    case (Inl e)
    with assms None l have "r = Inl e" "w' = w1" by (simp_all add: Netlink_EnsureAbsent_def)
    with L(1) show ?thesis by (intro that(1)) simp_all
  next
    case (Inr xs)
    note xs = conjunct1 [OF L(2) [OF Inr]]
    obtain o1 w2 where de: "DeleteIPv4Addr client (Interface cfg) ?q w1 = (o1, w2)" by force
    consider "a \<notin> set xs" | "a \<in> set xs" "o1 = None" | e where "a \<in> set xs" "o1 = Some e" by (cases o1) auto
    then show ?thesis
    proof cases
      case 1
      with assms None l Inr have "r = Inr False" "w' = w1" by (simp_all add: Netlink_EnsureAbsent_def)
      with L(1) xs 1 show ?thesis by (intro that(3)) simp_all
    next
      case 2
      then have "r = Inr True" "w' = w2" using assms None l Inr de by (simp_all add: Netlink_EnsureAbsent_def)
      then show ?thesis using that(4) [of True] xs 2 client_del [OF q, of w1 w2] de L(1) by simp
    next
      case 3
      then have "ensureNetlinkStateAfterOperation cfg client a False DetachExternalIP e w2 = (r, w')"
        using assms None l Inr de by (simp add: Netlink_EnsureAbsent_def)
      note A = after_cases [OF this]
      have there: "a \<in> managedView cfg (table w)" using 3 xs by simp
      have t2: "table w2 = table w \<or> table w2 = table w - {?q}" using client_del_err [OF q, of w1 e w2] de 3(2) L(1) by simp
      show ?thesis
      proof (cases r)
        case (Inl e')
        show ?thesis
        proof (cases "table w2 = table w")
          case True
          then show ?thesis using A(1) Inl by (intro that(1)) simp_all
        next
          case False
          then have i: "table w2 = table w - {?q}" using t2 by simp
          then have "a \<notin> managedView cfg (table w2)" by (simp add: managedView_delete)
          then obtain out le where "e' = ActionThenListFailed DetachExternalIP out (ListFailed le)" using A(4) [OF Inl] by blast
          then show ?thesis using A(1) Inl i by (intro that(2)) simp_all
        qed
      next
        case (Inr c)
        then have "a \<notin> managedView cfg (table w2)" using A(3) by auto
        then have i: "table w2 = table w - {?q}" using t2 there by metis
        show ?thesis by (rule that(4) [of c]) (use A(1) i Inr there in simp_all)
      qed
    qed
  qed
qed

text \<open>When listings are answered, an error means that the change has not happened.\<close>

lemma List_answers:
  assumes "\<And>v. \<not> isl (fst (ListIPv4Addrs client (Interface cfg) v))"
  obtains xs w1 where "Netlink_List cfg client w = (Inr xs, w1)" "table w1 = table w" "set xs = managedView cfg (table w)"
proof -
  obtain l w1 where l: "Netlink_List cfg client w = (l, w1)" by force
  have "\<not> isl l" using l assms [of w] by (auto simp: Netlink_List_def split: prod.splits sum.splits)
  then obtain xs where xs: "l = Inr xs" by (cases l) auto
  show ?thesis using that [of xs w1] l xs List_cases [OF l] by simp
qed

lemma after_reports:
  assumes "\<And>v. \<not> isl (fst (ListIPv4Addrs client (Interface cfg) v))"
    and "ensureNetlinkStateAfterOperation cfg client a want act e w = (Inl e', w')"
  shows "(a \<in> managedView cfg (table w')) \<noteq> want"
proof -
  obtain xs w1 where l: "Netlink_List cfg client w = (Inr xs, w1)" "table w1 = table w" "set xs = managedView cfg (table w)"
    by (rule List_answers [OF assms(1)])
  then show ?thesis using assms(2) by (auto simp: ensureNetlinkStateAfterOperation_def split: if_splits)
qed

lemma present_reports:
  assumes "\<And>v. \<not> isl (fst (ListIPv4Addrs client (Interface cfg) v))" "Is4 a"
    and "Netlink_EnsurePresent cfg client a w = (Inl e, w')"
  shows "a \<notin> managedView cfg (table w')"
proof -
  obtain xs w1 where l: "Netlink_List cfg client w = (Inr xs, w1)" by (rule List_answers [OF assms(1)])
  obtain o1 w2 where ad: "AddIPv4Addr client (Interface cfg) (PrefixFrom a (CIDRSuffix cfg)) w1 = (o1, w2)" by force
  obtain e1 where "ensureNetlinkStateAfterOperation cfg client a True AttachExternalIP e1 w2 = (Inl e, w')"
    using assms(2,3) l ad by (auto simp: Netlink_EnsurePresent_def split: if_splits option.splits)
  from after_reports [OF assms(1) this] show ?thesis by simp
qed

end

sublocale netlink_kernel \<subseteq> attacher: ip_attacher "netlinkManager cfg client" "\<lambda>w. managedView cfg (table w)"
proof (unfold_locales, goal_cases)
  case (1 w xs w') then show ?case using List_cases(2) by (simp add: netlinkManager_def)
next
  case (2 w r w') then show ?case using List_cases(1) by (simp add: netlinkManager_def)
next
  case (3 a w p w') then show ?case
    by (auto simp: netlinkManager_def managedView_insert elim: present_cases)
next
  case (4 a w w') then show ?case
    by (auto simp: netlinkManager_def managedView_insert elim: present_cases)
next
  case (5 a w p w') then show ?case
    by (auto simp: netlinkManager_def managedView_delete elim: absent_cases)
next
  case (6 a w c w') then show ?case
    by (auto simp: netlinkManager_def managedView_delete elim: absent_cases)
next
  case (7 a w c w') then show ?case
    by (auto simp: netlinkManager_def managedView_insert elim: present_cases)
qed

text \<open>Without lost answers a failure, or a success that reports no change, has changed nothing.\<close>

context netlink_acknowledged
begin

lemma present_table:
  assumes "Netlink_EnsurePresent cfg client a w = (r, w')" "r \<noteq> Inr True"
  shows "table w' = table w"
proof (cases "Is4 a")
  case True
  note q = validPrefix_managed [OF True]
  obtain l w1 where l: "Netlink_List cfg client w = (l, w1)" by force
  obtain o1 w2 where ad: "AddIPv4Addr client (Interface cfg) (PrefixFrom a (CIDRSuffix cfg)) w1 = (o1, w2)" by force
  consider "w' = w1" | e where "o1 = Some e" "ensureNetlinkStateAfterOperation cfg client a True AttachExternalIP e w2 = (r, w')"
    using assms l ad True by (auto simp: Netlink_EnsurePresent_def split: sum.splits if_splits option.splits)
  then show ?thesis using List_cases(1) [OF l] after_cases(1) add_refused [OF q, of w1 _ w2] ad by cases simp_all
qed (use assms in \<open>auto simp: Netlink_EnsurePresent_def split: option.splits\<close>)

lemma absent_table:
  assumes "Netlink_EnsureAbsent cfg client a w = (Inl e', w')"
  shows "table w' = table w"
proof (cases "Is4 a")
  case True
  note q = validPrefix_managed [OF True]
  obtain l w1 where l: "Netlink_List cfg client w = (l, w1)" by force
  obtain o1 w2 where ad: "DeleteIPv4Addr client (Interface cfg) (PrefixFrom a (CIDRSuffix cfg)) w1 = (o1, w2)" by force
  consider "w' = w1" | e where "o1 = Some e" "ensureNetlinkStateAfterOperation cfg client a False DetachExternalIP e w2 = (Inl e', w')"
    using assms l ad True by (auto simp: Netlink_EnsureAbsent_def split: sum.splits if_splits option.splits)
  then show ?thesis using List_cases(1) [OF l] after_cases(1) del_refused [OF q, of w1 _ w2] ad by cases simp_all
qed (use assms in \<open>auto simp: Netlink_EnsureAbsent_def split: option.splits\<close>)

end

sublocale netlink_acknowledged \<subseteq> atomic: ip_atomic "netlinkManager cfg client" "\<lambda>w. managedView cfg (table w)"
  by unfold_locales (simp add: netlinkManager_def present_table)

section \<open>The Linux client over a kernel address table\<close>

lemma CIDRMask_Size: "k \<le> 32 \<Longrightarrow> Mask_Size (CIDRMask k 32) = (k, 32)"
proof -
  have "\<forall>k \<in> set [0..<33]. Mask_Size (CIDRMask k 32) = (k, 32)" by code_simp
  moreover assume "k \<le> 32"
  ultimately show ?thesis by simp
qed

lemma prefix_IPNet: "validPrefix q \<Longrightarrow> prefixFromIPNet (prefixToIPNet q) = Inr q"
  by (cases q; cases "fst q")
    (simp_all add: validPrefix_def prefixFromIPNet_def prefixToIPNet_def AddrFromSlice_def
      CIDRMask_Size PrefixFrom_def)

text \<open>
  A kernel with one interface: its addresses, and whether requests are answered at all.
  Adding an address that is there and deleting one that is not are errors.
\<close>

record kernel =
  link_name :: string
  link_addrs :: "ip_prefix list"
  link_answers :: bool

definition kernelTable :: "'a kernel_scheme \<Rightarrow> ip_prefix set" where
  "kernelTable w = {q \<in> set (link_addrs w). validPrefix q}"

definition kernelLib :: "('a kernel_scheme, unit) netlink_lib" where
  "kernelLib = \<lparr>
     LinkByName = (\<lambda>name w. (if name = link_name w then Inr () else Inl ''Link not found'', w)),
     AddrList = (\<lambda>_ w. (if link_answers w
        then Inr (map (\<lambda>q. Some (prefixToIPNet q)) (filter validPrefix (link_addrs w)))
        else Inl ''timeout'', w)),
     AddrAdd = (\<lambda>_ n w. case prefixFromIPNet n of
        Inl _ \<Rightarrow> (Some ''invalid argument'', w)
      | Inr q \<Rightarrow> if \<not> link_answers w then (Some ''timeout'', w)
          else if q \<in> set (link_addrs w) then (Some ''file exists'', w)
          else (None, w\<lparr>link_addrs := link_addrs w @ [q]\<rparr>)),
     AddrDel = (\<lambda>_ n w. case prefixFromIPNet n of
        Inl _ \<Rightarrow> (Some ''invalid argument'', w)
      | Inr q \<Rightarrow> if \<not> link_answers w then (Some ''timeout'', w)
          else if q \<notin> set (link_addrs w) then (Some ''cannot assign requested address'', w)
          else (None, w\<lparr>link_addrs := filter (\<lambda>x. x \<noteq> q) (link_addrs w)\<rparr>))\<rparr>"

lemma convertAddrs_ok:
  "list_all validPrefix qs \<Longrightarrow> convertAddrs name (map (\<lambda>q. Some (prefixToIPNet q)) qs) = Inr qs"
  by (induction qs) (auto simp: prefix_IPNet, simp_all add: validPrefix_def)

lemma linux_client_kernel:
  assumes "1 \<le> CIDRSuffix cfg" "CIDRSuffix cfg \<le> 32"
  shows "netlink_acknowledged cfg (linuxNetlinkClient kernelLib) kernelTable"
proof (unfold_locales, goal_cases)
  case (3 w ps w')
  have "convertAddrs i (map (\<lambda>q. Some (prefixToIPNet q)) (filter validPrefix (link_addrs w))) =
      Inr (filter validPrefix (link_addrs w))" for i
    by (rule convertAddrs_ok) (simp add: list_all_iff)
  with 3 show ?case
    by (auto simp: linuxNetlinkClient_def Linux_ListIPv4Addrs_def kernelLib_def kernelTable_def
        split: prod.splits sum.splits if_splits)
next
  case (4 w r w') then show ?case
    by (auto simp: linuxNetlinkClient_def Linux_ListIPv4Addrs_def kernelLib_def
        split: prod.splits sum.splits if_splits)
next
  case (5 q w w') then show ?case
    by (auto simp: linuxNetlinkClient_def Linux_AddIPv4Addr_def kernelLib_def kernelTable_def prefix_IPNet
        split: prod.splits sum.splits if_splits option.splits)
next
  case (6 q w e w') then show ?case
    by (auto simp: linuxNetlinkClient_def Linux_AddIPv4Addr_def kernelLib_def kernelTable_def
        split: prod.splits sum.splits if_splits option.splits)
next
  case (7 q w w') then show ?case
    by (auto simp: linuxNetlinkClient_def Linux_DeleteIPv4Addr_def kernelLib_def kernelTable_def prefix_IPNet
        split: prod.splits sum.splits if_splits option.splits)
next
  case (8 q w e w') then show ?case
    by (auto simp: linuxNetlinkClient_def Linux_DeleteIPv4Addr_def kernelLib_def kernelTable_def
        split: prod.splits sum.splits if_splits option.splits)
next
  case (9 q w e w') then show ?case
    by (auto simp: linuxNetlinkClient_def Linux_AddIPv4Addr_def kernelLib_def
        split: prod.splits sum.splits if_splits option.splits)
next
  case (10 q w e w') then show ?case
    by (auto simp: linuxNetlinkClient_def Linux_DeleteIPv4Addr_def kernelLib_def
        split: prod.splits sum.splits if_splits option.splits)
qed (use assms in auto)

definition sampleAttach :: attach_config where
  "sampleAttach = \<lparr>Enabled = True, Mode = ModeNetlink, Interface = ''eth0'',
     CommandPath = DefaultCommandPath, CIDRSuffix = DefaultCIDRSuffix\<rparr>"

interpretation linux: netlink_acknowledged sampleAttach "linuxNetlinkClient kernelLib" kernelTable
  by (rule linux_client_kernel) (simp_all add: sampleAttach_def DefaultCIDRSuffix_def)

text \<open>The same kernel over a client that loses the answer to every change.\<close>

definition deafClient :: "'a kernel_scheme netlink_client" where
  "deafClient = (linuxNetlinkClient kernelLib)\<lparr>
     AddIPv4Addr := (\<lambda>i q w. (Some (AddFailed q i ''timeout''), snd (Linux_AddIPv4Addr kernelLib i q w))),
     DeleteIPv4Addr := (\<lambda>i q w. (Some (DeleteFailed q i ''timeout''), snd (Linux_DeleteIPv4Addr kernelLib i q w)))\<rparr>"

interpretation deaf: netlink_kernel sampleAttach deafClient kernelTable
proof (unfold_locales, goal_cases)
  case (3 w ps w') then show ?case using linux.client_list by (simp add: deafClient_def)
next
  case (4 w r w') then show ?case using linux.client_list_view by (simp add: deafClient_def)
next
  case (6 q w e w')
  then show ?case
    using linux.client_add [of q w w'] linux.add_refused [of q w _ w']
    by (cases "fst (Linux_AddIPv4Addr kernelLib (Interface sampleAttach) q w)")
      (auto simp: deafClient_def linuxNetlinkClient_def prod_eq_iff)
next
  case (8 q w e w')
  then show ?case
    using linux.client_del [of q w w'] linux.del_refused [of q w _ w']
    by (cases "fst (Linux_DeleteIPv4Addr kernelLib (Interface sampleAttach) q w)")
      (auto simp: deafClient_def linuxNetlinkClient_def prod_eq_iff)
qed (simp_all add: sampleAttach_def DefaultCIDRSuffix_def deafClient_def)

section \<open>Properties\<close>

text \<open>
  A normalised attachment configuration names a supported mode, a prefix length from 1 to
  32, a command and, when attachment is enabled, an interface; normalising it again changes
  nothing.
\<close>

theorem normalizeConfig_normal:
  assumes "normalizeConfig cfg = Inr n"
  shows "(Mode n = ModeExec \<or> Mode n = ModeNetlink) \<and> 1 \<le> CIDRSuffix n \<and> CIDRSuffix n \<le> 32 \<and>
    CommandPath n \<noteq> [] \<and> (Enabled n \<longrightarrow> Interface n \<noteq> []) \<and> normalizeConfig n = Inr n"
proof -
  have m: "Mode n = ModeExec \<or> Mode n = ModeNetlink" "1 \<le> CIDRSuffix n" "CIDRSuffix n \<le> 32"
    "CommandPath n \<noteq> []" "Enabled n \<longrightarrow> Interface n \<noteq> []" "TrimSpace (Interface n) = Interface n"
    "TrimSpace (CommandPath n) = CommandPath n"
    using assms TrimSpace_plain [of DefaultCommandPath]
    by (auto simp: normalizeConfig_def Let_def DefaultCIDRSuffix_def DefaultCommandPath_def plain_def
        split: if_splits)
  have "normalizeMode ModeExec = ModeExec" "normalizeMode ModeNetlink = ModeNetlink"
    "ModeExec \<noteq> []" "ModeNetlink \<noteq> []" by code_simp+
  with m have "normalizeMode (Mode n) = Mode n" "Mode n \<noteq> []" by metis+
  with m have "normalizeConfig n = Inr n" by (auto simp: normalizeConfig_def Let_def)
  with m show ?thesis by blast
qed

theorem normalizeConfig_normal_witness:
  "normalizeConfig (sampleAttach\<lparr>Mode := '' Exec '', CIDRSuffix := 0, CommandPath := []\<rparr>) =
     Inr (sampleAttach\<lparr>Mode := ModeExec\<rparr>) \<and>
   normalizeConfig (sampleAttach\<lparr>Mode := ModeExec\<rparr>) = Inr (sampleAttach\<lparr>Mode := ModeExec\<rparr>)"
proof -
  have "normalizeConfig (sampleAttach\<lparr>Mode := '' Exec '', CIDRSuffix := 0, CommandPath := []\<rparr>) =
     Inr (sampleAttach\<lparr>Mode := ModeExec\<rparr>)" by code_simp
  with normalizeConfig_normal [OF this] show ?thesis by blast
qed

text \<open>
  The conversion of an IPv4 prefix to the netlink package's \<open>net.IPNet\<close> and back is the
  identity for every prefix length from 0 to 32.
\<close>

theorem ipnet_roundtrip:
  assumes "Is4 a" "k \<le> 32"
  shows "prefixFromIPNet (prefixToIPNet (a, k)) = Inr (a, k)"
  using assms by (intro prefix_IPNet) (simp add: validPrefix_def)

theorem ipnet_roundtrip_witness:
  "prefixFromIPNet (prefixToIPNet (V4 10 0 0 1, 24)) = Inr (V4 10 0 0 1, 24)"
  by (rule ipnet_roundtrip) simp_all

text \<open>
  C35: Over a client that behaves like a kernel address table, in which a failed change may or
  may not have been made, \<open>EnsurePresent\<close> of the netlink manager keeps to its word.  A success
  has added the given IPv4 address with the configured prefix length to the table, if it was not there,
  and touched no other entry of any length; it reports a change only if the address was
  missing.  After an error the table is as before, or the addition has been made and the
  error says that the listing after it failed.  And as long as listings are answered, the
  result tells the truth: the call succeeds exactly when the address is attached afterwards,
  also when the answer to the addition was lost.
\<close>

theorem netlink_present_correct:
  assumes "netlink_kernel cfg client table"
    and "Netlink_EnsurePresent cfg client a w = (r, w')"
  shows "(\<forall>c. r = Inr c \<longrightarrow> Is4 a \<and> table w' = insert (PrefixFrom a (CIDRSuffix cfg)) (table w) \<and>
      (c \<longrightarrow> PrefixFrom a (CIDRSuffix cfg) \<notin> table w)) \<and>
    (\<forall>e. r = Inl e \<longrightarrow> table w' = table w \<or>
      table w' = insert (PrefixFrom a (CIDRSuffix cfg)) (table w) \<and>
      (\<exists>out le. e = ActionThenListFailed AttachExternalIP out (ListFailed le))) \<and>
    ((\<forall>v. \<not> isl (fst (ListIPv4Addrs client (Interface cfg) v))) \<longrightarrow> Is4 a \<longrightarrow>
      ((\<exists>c. r = Inr c) \<longleftrightarrow> PrefixFrom a (CIDRSuffix cfg) \<in> table w'))"
proof -
  let ?q = "PrefixFrom a (CIDRSuffix cfg)"
  note K = netlink_kernel.present_cases [OF assms]
  have view: "a \<in> managedView cfg T \<longleftrightarrow> Is4 a \<and> ?q \<in> T" for T by (simp add: managedView_def PrefixFrom_def)
  have ok: "Is4 a \<and> table w' = insert ?q (table w) \<and> (c \<longrightarrow> ?q \<notin> table w)" if "r = Inr c" for c
    by (cases rule: K) (use that view in \<open>simp_all add: insert_absorb\<close>)
  have err: "table w' = table w \<or> table w' = insert ?q (table w) \<and>
      (\<exists>out le. e = ActionThenListFailed AttachExternalIP out (ListFailed le))" if "r = Inl e" for e
    by (cases rule: K) (use that in simp_all)
  have "(\<exists>c. r = Inr c) \<longleftrightarrow> ?q \<in> table w'"
    if "\<forall>v. \<not> isl (fst (ListIPv4Addrs client (Interface cfg) v))" "Is4 a"
  proof (cases r)
    case (Inl e)
    then show ?thesis
      using netlink_kernel.present_reports [OF assms(1) _ that(2)] that assms(2) view by auto
  next
    case (Inr c)
    then show ?thesis using ok [OF Inr] by simp
  qed
  then show ?thesis using ok err by blast
qed

definition sampleKernel :: kernel where
  "sampleKernel = \<lparr>link_name = ''eth0'', link_addrs = [(V4 10 0 0 5, 24)], link_answers = True\<rparr>"

lemmas netlink_eval = Netlink_EnsurePresent_def Netlink_EnsureAbsent_def Netlink_List_def linuxNetlinkClient_def
  Linux_ListIPv4Addrs_def Linux_AddIPv4Addr_def Linux_DeleteIPv4Addr_def kernelLib_def sampleKernel_def
  sampleAttach_def DefaultCIDRSuffix_def prefix_IPNet validPrefix_def managedAddrs_def PrefixFrom_def

theorem netlink_present_correct_witness:
  "\<exists>w. Netlink_EnsurePresent sampleAttach deafClient (V4 203 0 113 10) sampleKernel = (Inr False, w) \<and>
    kernelTable w = insert (V4 203 0 113 10, 32) (kernelTable sampleKernel)"
proof -
  let ?w = "sampleKernel\<lparr>link_addrs := [(V4 10 0 0 5, 24), (V4 203 0 113 10, 32)]\<rparr>"
  have e: "Netlink_EnsurePresent sampleAttach deafClient (V4 203 0 113 10) sampleKernel = (Inr False, ?w)"
    by (simp add: netlink_eval deafClient_def ensureNetlinkStateAfterOperation_def)
  from netlink_present_correct [OF deaf.netlink_kernel_axioms e] have
    "kernelTable ?w = insert (PrefixFrom (V4 203 0 113 10) (CIDRSuffix sampleAttach)) (kernelTable sampleKernel)" by blast
  then show ?thesis using e by (auto simp: PrefixFrom_def sampleAttach_def DefaultCIDRSuffix_def)
qed

text \<open>
  Detaching is the converse: a success has removed the given address with the configured
  prefix length from the table and touched nothing else; after an error the table is as
  before, or the deletion has been made and the error says that the listing after it failed.
\<close>

theorem netlink_absent_correct:
  assumes "netlink_kernel cfg client table"
    and "Netlink_EnsureAbsent cfg client a w = (r, w')"
  shows "(\<forall>e. r = Inl e \<longrightarrow> table w' = table w \<or> table w' = table w - {PrefixFrom a (CIDRSuffix cfg)} \<and>
      (\<exists>out le. e = ActionThenListFailed DetachExternalIP out (ListFailed le))) \<and>
    (\<forall>c. r = Inr c \<longrightarrow> managedView cfg (table w') = managedView cfg (table w) - {a}) \<and>
    table w' - {PrefixFrom a (CIDRSuffix cfg)} = table w - {PrefixFrom a (CIDRSuffix cfg)}"
  by (cases rule: netlink_kernel.absent_cases [OF assms]) (simp_all add: managedView_delete)

theorem netlink_absent_correct_witness:
  "Netlink_EnsureAbsent sampleAttach (linuxNetlinkClient kernelLib) (V4 10 0 0 5) sampleKernel =
     (Inr False, sampleKernel) \<and>
   managedView sampleAttach (kernelTable sampleKernel) =
     managedView sampleAttach (kernelTable sampleKernel) - {V4 10 0 0 5}"
proof -
  have e: "Netlink_EnsureAbsent sampleAttach (linuxNetlinkClient kernelLib) (V4 10 0 0 5) sampleKernel =
     (Inr False, sampleKernel)" by (simp add: netlink_eval)
  from netlink_absent_correct [OF linux.netlink_kernel_axioms e] e show ?thesis by blast
qed

end
