(* ===== verification/Engine.thy ===== *)
theory Engine
  imports Ip_Attach Apply
begin

text \<open>
  \<open>internal/dataplane/engine.go\<close> and \<open>externalips.go\<close>: the dataplane engine, which keeps the
  desired Services in a store, attaches their external addresses, applies the aggregate
  configuration and then detaches stale addresses.

  The engine is proved against the contracts of the IP manager and of the applier (locale
  \<open>engine_env\<close>), and the contracts are met together by the netlink manager and the applier
  on one host.
\<close>

section \<open>Desired addresses\<close>

datatype desired_error = ParseDesired string service_ref parse_error | DesiredNotIPv4 string service_ref

fun collectDesired :: "addr list \<Rightarrow> p_service list \<Rightarrow> (desired_error, addr list) result" where
  "collectDesired unique [] = Inr unique"
| "collectDesired unique (s # ss) =
     (if ExternalIP s = [] then collectDesired unique ss
      else case ParseAddr (ExternalIP s) of
          Inl err \<Rightarrow> Inl (ParseDesired (ExternalIP s) (Ref s) err)
        | Inr addr \<Rightarrow>
            if \<not> Is4 addr then Inl (DesiredNotIPv4 (ExternalIP s) (Ref s))
            else collectDesired (List.insert addr unique) ss)"

definition desiredExternalIPs :: "p_service list \<Rightarrow> (desired_error, addr list) result" where
  "desiredExternalIPs ss =
     (case collectDesired [] ss of Inl err \<Rightarrow> Inl err | Inr unique \<Rightarrow> Inr (sortAddrs unique))"

definition diffExternalIPs :: "addr list \<Rightarrow> addr list \<Rightarrow> addr list" where
  "diffExternalIPs left right = filter (\<lambda>addr. addr \<notin> set right) left"

section \<open>The engine\<close>

datatype engine_error =
    InvalidService validate_error
  | ListAttached ip_error
  | BadDesired desired_error
  | AttachFailed addr ip_error "(addr \<times> ip_error) list"
  | ApplyFailed apply_error "(addr \<times> ip_error) list"
  | DetachFailed addr ip_error

record 'w engine =
  eng_store :: store
  eng_applier :: "'w config_applier_ops"
  eng_ipm :: "'w external_ip_manager"

record 'w engine_config =
  ec_Apply :: apply_config
  ec_Applier :: "'w config_applier_ops option"
  ec_IPManager :: "'w external_ip_manager option"

text \<open>The engine's own manager for when none is given: it has no addresses and attaches none.\<close>

definition noopExternalIPManager :: "'w external_ip_manager" where
  "noopExternalIPManager = \<lparr>ipm_List = (\<lambda>w. (Inr [], w)), ipm_EnsurePresent = (\<lambda>_ w. (Inr False, w)),
     ipm_EnsureAbsent = (\<lambda>_ w. (Inr False, w))\<rparr>"

text \<open>\<open>makeApplier\<close> stands for the applier over the validated settings of \<open>NewApplier\<close>.\<close>

definition NewEngine ::
  "(apply_config \<Rightarrow> 'w config_applier_ops) \<Rightarrow> 'w engine_config \<Rightarrow> (apply_error, 'w engine) result" where
  "NewEngine makeApplier cfg =
     (let ipManager = (case ec_IPManager cfg of None \<Rightarrow> noopExternalIPManager | Some m \<Rightarrow> m) in
      case ec_Applier cfg of
        Some applier \<Rightarrow> Inr \<lparr>eng_store = NewStore, eng_applier = applier, eng_ipm = ipManager\<rparr>
      | None \<Rightarrow>
          (case NewApplier (ec_Apply cfg) of
             Inl err \<Rightarrow> Inl err
           | Inr ac \<Rightarrow> Inr \<lparr>eng_store = NewStore, eng_applier = makeApplier ac, eng_ipm = ipManager\<rparr>))"

definition Engine_Bootstrap :: "'w engine \<Rightarrow> 'w \<Rightarrow> apply_error option \<times> 'w" where
  "Engine_Bootstrap e w = app_Bootstrap (eng_applier e) w"

text \<open>Rolling back from the last attached address to the first; failures are collected.\<close>

fun rollbackFrom :: "'w external_ip_manager \<Rightarrow> addr list \<Rightarrow> 'w \<Rightarrow> (addr \<times> ip_error) list \<times> 'w" where
  "rollbackFrom m [] w = ([], w)"
| "rollbackFrom m (addr # addrs) w =
     (case ipm_EnsureAbsent m addr w of
        (Inl err, w) \<Rightarrow> (case rollbackFrom m addrs w of (errs, w) \<Rightarrow> ((addr, err) # errs, w))
      | (Inr _, w) \<Rightarrow> rollbackFrom m addrs w)"

definition rollbackAttachedExternalIPs ::
  "'w external_ip_manager \<Rightarrow> addr list \<Rightarrow> 'w \<Rightarrow> (addr \<times> ip_error) list \<times> 'w" where
  "rollbackAttachedExternalIPs m attached w = rollbackFrom m (rev attached) w"

text \<open>The loop over the new addresses: the address and error it stopped at, if any, and what it attached.\<close>

fun attachLoop ::
  "'w external_ip_manager \<Rightarrow> addr list \<Rightarrow> addr list \<Rightarrow> 'w \<Rightarrow> ((addr \<times> ip_error) option \<times> addr list) \<times> 'w" where
  "attachLoop m newlyAttached [] w = ((None, newlyAttached), w)"
| "attachLoop m newlyAttached (addr # addrs) w =
     (case ipm_EnsurePresent m addr w of
        (Inl err, w) \<Rightarrow> ((Some (addr, err), newlyAttached), w)
      | (Inr changed, w) \<Rightarrow> attachLoop m (if changed then newlyAttached @ [addr] else newlyAttached) addrs w)"

fun detachLoop :: "'w external_ip_manager \<Rightarrow> bool \<Rightarrow> addr list \<Rightarrow> 'w \<Rightarrow> (engine_error, bool) result \<times> 'w" where
  "detachLoop m changed [] w = (Inr changed, w)"
| "detachLoop m changed (addr # addrs) w =
     (case ipm_EnsureAbsent m addr w of
        (Inl err, w) \<Rightarrow> (Inl (DetachFailed addr err), w)
      | (Inr detached, w) \<Rightarrow> detachLoop m (changed \<or> detached) addrs w)"

definition reconcileLocked ::
  "store \<Rightarrow> 'w engine \<Rightarrow> 'w \<Rightarrow> (engine_error, bool) result \<times> 'w engine \<times> 'w" where
  "reconcileLocked nextStore e w =
     (let nextServices = Store_List nextStore; m = eng_ipm e in
      case ipm_List m w of
        (Inl err, w) \<Rightarrow> (Inl (ListAttached err), e, w)
      | (Inr currentIPs, w) \<Rightarrow>
          (case desiredExternalIPs nextServices of
             Inl err \<Rightarrow> (Inl (BadDesired err), e, w)
           | Inr desiredIPs \<Rightarrow>
               let newIPs = diffExternalIPs desiredIPs currentIPs;
                   staleIPs = diffExternalIPs currentIPs desiredIPs
               in case attachLoop m [] newIPs w of
                    ((Some (addr, err), newlyAttached), w) \<Rightarrow>
                      (case rollbackAttachedExternalIPs m newlyAttached w of
                         (errs, w) \<Rightarrow> (Inl (AttachFailed addr err errs), e, w))
                  | ((None, newlyAttached), w) \<Rightarrow>
                      (case app_Apply (eng_applier e) nextServices w of
                         (Inl err, w) \<Rightarrow>
                           (case rollbackAttachedExternalIPs m newlyAttached w of
                              (errs, w) \<Rightarrow> (Inl (ApplyFailed err errs), e, w))
                       | (Inr configChanged, w) \<Rightarrow>
                           let e' = e\<lparr>eng_store := nextStore\<rparr>;
                               changed = (configChanged \<or> 0 < length newlyAttached)
                           in case detachLoop m changed staleIPs w of (r, w) \<Rightarrow> (r, e', w))))"

definition Engine_Ensure ::
  "p_service \<Rightarrow> 'w engine \<Rightarrow> 'w \<Rightarrow> (engine_error, bool) result \<times> 'w engine \<times> 'w" where
  "Engine_Ensure service e w =
     (let normalized = normalizeService service in
      case ValidateService normalized of
        Some err \<Rightarrow> (Inl (InvalidService err), e, w)
      | None \<Rightarrow> reconcileLocked (Upsert normalized (Clone (eng_store e))) e w)"

definition Engine_Delete ::
  "service_ref \<Rightarrow> 'w engine \<Rightarrow> 'w \<Rightarrow> (engine_error, bool) result \<times> 'w engine \<times> 'w" where
  "Engine_Delete ref e w =
     (case Store_Get (eng_store e) ref of
        None \<Rightarrow> (Inr False, e, w)
      | Some _ \<Rightarrow> reconcileLocked (fst (Store_Delete ref (Clone (eng_store e)))) e w)"

definition Engine_Snapshot :: "'w engine \<Rightarrow> (service_ref \<times> p_service) list" where
  "Engine_Snapshot e = Store_Snapshot (eng_store e)"

definition ServiceCount :: "'w engine \<Rightarrow> nat" where
  "ServiceCount e = Store_Len (eng_store e)"

section \<open>The desired set\<close>

text \<open>The addresses a list of Services asks for.\<close>

definition wantedIPs :: "p_service list \<Rightarrow> addr set" where
  "wantedIPs ss = {a. \<exists>s \<in> set ss. parse4 (ExternalIP s) = Some a}"

lemma collectDesired_set:
  "collectDesired u ss = Inr xs \<Longrightarrow> set xs = set u \<union> wantedIPs ss"
  by (induction ss arbitrary: u)
    (auto simp: wantedIPs_def parse4_def split: if_splits sum.splits)

lemma collectDesired_distinct: "collectDesired u ss = Inr xs \<Longrightarrow> distinct u \<Longrightarrow> distinct xs"
  by (induction ss arbitrary: u) (auto split: if_splits sum.splits)

lemma collectDesired_valid:
  "list_all validService ss \<Longrightarrow> \<exists>xs. collectDesired u ss = Inr xs"
  by (induction ss arbitrary: u) (auto simp: validService_def parse4_def split: sum.splits if_splits)

lemma desired_set: "desiredExternalIPs ss = Inr xs \<Longrightarrow> set xs = wantedIPs ss"
  by (auto simp: desiredExternalIPs_def collectDesired_set split: sum.splits)

lemma desired_valid: "list_all validService ss \<Longrightarrow> \<exists>xs. desiredExternalIPs ss = Inr xs"
  using collectDesired_valid [of ss "[]"] by (auto simp: desiredExternalIPs_def)

lemma diff_set [simp]: "set (diffExternalIPs xs ys) = set xs - set ys"
  by (auto simp: diffExternalIPs_def)

section \<open>Outcomes\<close>

text \<open>
  Whether the next store was taken over: on success, and when only the final detaching of
  stale addresses failed.
\<close>

fun committed :: "(engine_error, bool) result \<Rightarrow> bool" where
  "committed (Inr _) = True"
| "committed (Inl (DetachFailed _ _)) = True"
| "committed (Inl _) = False"

fun rollbackErrors :: "(engine_error, bool) result \<Rightarrow> (addr \<times> ip_error) list" where
  "rollbackErrors (Inl (AttachFailed _ _ errs)) = errs"
| "rollbackErrors (Inl (ApplyFailed _ errs)) = errs"
| "rollbackErrors _ = []"

section \<open>The environment of the engine\<close>

text \<open>
  The IP manager and the applier work on one world without disturbing each other: applying
  keeps the attached addresses, attaching and detaching keep the active configuration.
\<close>

locale engine_env = ip_atomic m view + config_applier app active ok
  for m :: "'w external_ip_manager" and view :: "'w \<Rightarrow> addr set"
    and app :: "'w config_applier_ops" and active :: "'w \<Rightarrow> string option" and ok :: "'w \<Rightarrow> bool" +
  assumes apply_view: "app_Apply app ss w = (r, w') \<Longrightarrow> view w' = view w"
    and boot_view: "app_Bootstrap app w = (q, w') \<Longrightarrow> view w' = view w"
    and list_frame: "ipm_List m w = (l, w') \<Longrightarrow> active w' = active w \<and> ok w' = ok w"
    and present_other: "ipm_EnsurePresent m a w = (p, w') \<Longrightarrow> active w' = active w \<and> ok w' = ok w"
    and absent_other: "ipm_EnsureAbsent m a w = (p, w') \<Longrightarrow> active w' = active w \<and> ok w' = ok w"
begin

lemma attachLoop_frame:
  "attachLoop m acc addrs w = ((s, att), w') \<Longrightarrow> active w' = active w \<and> ok w' = ok w"
  by (induction addrs arbitrary: acc w) (auto dest: present_other split: prod.splits sum.splits)

lemma attachLoop_view:
  "attachLoop m acc addrs w = ((s, att), w') \<Longrightarrow> \<exists>new. att = acc @ new \<and> set new \<subseteq> set addrs \<and>
     view w' = view w \<union> set new \<and> set new \<inter> view w = {}"
proof (induction addrs arbitrary: acc w)
  case (Cons a addrs)
  obtain p w1 where p: "ipm_EnsurePresent m a w = (p, w1)" by force
  show ?case
  proof (cases "p = Inr True")
    case True
    with p have v: "a \<notin> view w" "view w1 = insert a (view w)" using present_changed by blast+
    from Cons.prems p True have "attachLoop m (acc @ [a]) addrs w1 = ((s, att), w')" by simp
    from Cons.IH [OF this] obtain new where n: "att = acc @ a # new" "set new \<subseteq> set addrs"
      "view w' = view w1 \<union> set new" "set new \<inter> view w1 = {}" by auto
    then show ?thesis using v by (intro exI [of _ "a # new"]) auto
  next
    case False
    with p have v: "view w1 = view w" using present_same by blast
    show ?thesis
    proof (cases p)
      case (Inl e)
      then show ?thesis using Cons.prems p v by auto
    next
      case (Inr c)
      then have "attachLoop m acc addrs w1 = ((s, att), w')" using Cons.prems p False by simp
      from Cons.IH [OF this] v show ?thesis by auto
    qed
  qed
qed simp

lemma rollback_frame:
  "rollbackFrom m addrs w = (errs, w') \<Longrightarrow> active w' = active w \<and> ok w' = ok w"
proof (induction addrs arbitrary: w errs)
  case (Cons a addrs)
  obtain p w1 where p: "ipm_EnsureAbsent m a w = (p, w1)" by force
  obtain errs1 where "rollbackFrom m addrs w1 = (errs1, w')"
    using Cons.prems p by (cases p) (auto split: prod.splits)
  from Cons.IH [OF this] absent_other [OF p] show ?case by simp
qed simp

lemma rollback_view:
  "rollbackFrom m addrs w = (errs, w') \<Longrightarrow>
   view w - set addrs \<subseteq> view w' \<and> view w' \<subseteq> view w \<and> (errs = [] \<longrightarrow> view w' = view w - set addrs)"
proof (induction addrs arbitrary: w errs)
  case (Cons a addrs)
  obtain p w1 where p: "ipm_EnsureAbsent m a w = (p, w1)" by force
  show ?case
  proof (cases p)
    case (Inl e)
    with Cons.prems p obtain errs1 where "rollbackFrom m addrs w1 = (errs1, w')" "errs = (a, e) # errs1"
      by (auto split: prod.splits)
    with Cons.IH absent_frame [OF p] show ?thesis by fastforce
  next
    case (Inr c)
    with Cons.prems p have "rollbackFrom m addrs w1 = (errs, w')" by simp
    from Cons.IH [OF this] absent_ok [of a w c w1] p Inr show ?thesis by auto
  qed
qed simp

lemma detachLoop_frame:
  "detachLoop m c addrs w = (r, w') \<Longrightarrow> active w' = active w \<and> ok w' = ok w"
  by (induction addrs arbitrary: c w) (auto dest: absent_other split: prod.splits sum.splits)

lemma detachLoop_view:
  "detachLoop m c addrs w = (r, w') \<Longrightarrow>
   view w - set addrs \<subseteq> view w' \<and> view w' \<subseteq> view w \<and> (\<forall>d. r = Inr d \<longrightarrow> view w' = view w - set addrs)"
proof (induction addrs arbitrary: c w)
  case (Cons a addrs)
  obtain p w1 where p: "ipm_EnsureAbsent m a w = (p, w1)" by force
  show ?case
  proof (cases p)
    case (Inl e)
    with Cons.prems p absent_frame [OF p] show ?thesis by auto
  next
    case (Inr d)
    with Cons.prems p have "detachLoop m (c \<or> d) addrs w1 = (r, w')" by simp
    from Cons.IH [OF this] absent_ok [of a w d w1] p Inr show ?thesis by auto
  qed
qed simp

lemma detachLoop_err: "detachLoop m c addrs w = (Inl e, w') \<Longrightarrow> \<exists>a ie. e = DetachFailed a ie \<and> a \<in> set addrs"
  by (induction addrs arbitrary: c w) (auto split: prod.splits sum.splits, blast)

lemma rollback_attached:
  assumes "attachLoop m [] addrs w = ((s, att), w1)" "view w2 = view w1"
    "rollbackAttachedExternalIPs m att w2 = (errs, w3)"
  shows "view w \<subseteq> view w3" "view w3 \<subseteq> view w \<union> set addrs" "errs = [] \<Longrightarrow> view w3 = view w"
    "active w3 = active w2" "ok w3 = ok w2"
proof -
  obtain new where "att = new" "set new \<subseteq> set addrs" "view w1 = view w \<union> set new" "set new \<inter> view w = {}"
    using attachLoop_view [OF assms(1)] by auto
  moreover note rollback_view [of "rev att" w2 errs w3] rollback_frame [of "rev att" w2 errs w3]
  ultimately show "view w \<subseteq> view w3" "view w3 \<subseteq> view w \<union> set addrs" "errs = [] \<Longrightarrow> view w3 = view w"
    "active w3 = active w2" "ok w3 = ok w2"
    using assms(2,3) by (auto simp: rollbackAttachedExternalIPs_def)
qed

lemma reconcile_failed:
  assumes e: "eng_ipm e = m" "eng_applier e = app" and k: "ok w"
    and r: "reconcileLocked nxt e w = (r, e', w')" "\<not> committed r"
  shows "e' = e \<and> ok w' \<and> view w \<subseteq> view w' \<and> view w' \<subseteq> view w \<union> wantedIPs (Store_List nxt) \<and>
    (rollbackErrors r = [] \<longrightarrow> view w' = view w) \<and>
    (active w' = active w \<or> (\<exists>cfg. Render (Store_List nxt) = Inr cfg \<and> active w' = Some cfg))"
proof -
  let ?ss = "Store_List nxt"
  obtain l w1 where 1: "ipm_List m w = (l, w1)" by force
  have v1: "view w1 = view w" "active w1 = active w" "ok w1" using list_view [OF 1] list_frame [OF 1] k by auto
  show ?thesis
  proof (cases "(\<exists>c. l = Inr c) \<and> (\<exists>d. desiredExternalIPs ?ss = Inr d)")
    case False
    then show ?thesis
      using r(1) 1 e v1 by (auto simp: reconcileLocked_def Let_def split: sum.splits)
  next
    case True
    then obtain cur des where c: "l = Inr cur" and d: "desiredExternalIPs ?ss = Inr des" by blast
    let ?new = "diffExternalIPs des cur"
    obtain s att w2 where 2: "attachLoop m [] ?new w1 = ((s, att), w2)" by (metis surj_pair)
    have new: "set ?new \<subseteq> wantedIPs ?ss" using desired_set [OF d] by auto
    note f2 = attachLoop_frame [OF 2]
    show ?thesis
    proof (cases s)
      case (Some ae)
      obtain errs w3 where 3: "rollbackAttachedExternalIPs m att w2 = (errs, w3)" by force
      obtain a ie where "s = Some (a, ie)" using Some by (cases ae) simp
      then have "reconcileLocked nxt e w = (Inl (AttachFailed a ie errs), e, w3)"
        by (simp add: reconcileLocked_def Let_def 1 2 3 c d e)
      then have "e' = e" "w' = w3" "rollbackErrors r = errs" using r(1) by auto
      moreover have "view w3 \<subseteq> view w \<union> wantedIPs ?ss"
        using rollback_attached(2) [OF 2 refl 3] new v1(1) by blast
      ultimately show ?thesis
        using rollback_attached(1,3-5) [OF 2 refl 3] v1 f2 by simp
    next
      case None
      obtain p w3 where 3: "app_Apply app ?ss w2 = (p, w3)" by force
      have "ok w2" using f2 v1 by simp
      note v3 = apply_view [OF 3] apply_keeps [OF this 3]
      obtain errs w4 where 4: "rollbackAttachedExternalIPs m att w3 = (errs, w4)" by force
      show ?thesis
      proof (cases p)
        case (Inl ae)
        then have "reconcileLocked nxt e w = (Inl (ApplyFailed ae errs), e, w4)"
          by (simp add: reconcileLocked_def Let_def 1 2 3 4 c d e None)
        then have "e' = e" "w' = w4" "rollbackErrors r = errs" using r(1) by auto
        moreover have "view w4 \<subseteq> view w \<union> wantedIPs ?ss"
          using rollback_attached(2) [OF 2 v3(1) 4] new v1(1) by blast
        moreover have "active w4 = active w \<or> (\<exists>cfg. Render ?ss = Inr cfg \<and> active w4 = Some cfg)"
          using apply_err [OF \<open>ok w2\<close>, of ?ss ae w3] 3 Inl rollback_attached(4) [OF 2 v3(1) 4] f2 v1(2) by simp
        ultimately show ?thesis
          using rollback_attached(1,3,5) [OF 2 v3(1) 4] v1 v3(2) by simp
      next
        case (Inr cc)
        obtain q w5 where 5: "detachLoop m (cc \<or> 0 < length att) (diffExternalIPs cur des) w3 = (q, w5)" by force
        have "r = q" using r(1) 1 2 3 5 c d e None Inr by (simp add: reconcileLocked_def Let_def)
        then have False using r(2) detachLoop_err [of "cc \<or> 0 < length att"] 5 by (cases q) fastforce+
        then show ?thesis ..
      qed
    qed
  qed
qed

lemma reconcile_committed:
  assumes e: "eng_ipm e = m" "eng_applier e = app" and k: "ok w"
    and r: "reconcileLocked nxt e w = (r, e', w')" "committed r"
  obtains cur des att w1 w2 w3 cfg c where
    "e' = e\<lparr>eng_store := nxt\<rparr>" "ok w'" "Render (Store_List nxt) = Inr cfg" "active w' = Some cfg"
    "set cur = view w" "set des = wantedIPs (Store_List nxt)"
    "view w1 = view w" "attachLoop m [] (diffExternalIPs des cur) w1 = ((None, att), w2)" "view w3 = view w2"
    "detachLoop m c (diffExternalIPs cur des) w3 = (r, w')"
proof -
  let ?ss = "Store_List nxt"
  obtain l w1 where 1: "ipm_List m w = (l, w1)" by force
  obtain cur where c: "l = Inr cur" using r 1 e by (cases l) (auto simp: reconcileLocked_def Let_def)
  obtain des where d: "desiredExternalIPs ?ss = Inr des"
    using r 1 e c by (cases "desiredExternalIPs ?ss") (auto simp: reconcileLocked_def Let_def)
  obtain s att w2 where 2: "attachLoop m [] (diffExternalIPs des cur) w1 = ((s, att), w2)" by (metis surj_pair)
  have s: "s = None"
    using r 1 2 e c d by (cases s) (auto simp: reconcileLocked_def Let_def split: prod.splits)
  obtain p w3 where 3: "app_Apply app ?ss w2 = (p, w3)" by force
  obtain cc where p: "p = Inr cc"
    using r 1 2 3 e c d s by (cases p) (auto simp: reconcileLocked_def Let_def split: prod.splits)
  have 5: "detachLoop m (cc \<or> 0 < length att) (diffExternalIPs cur des) w3 = (r, w')"
    and e': "e' = e\<lparr>eng_store := nxt\<rparr>"
    using r 1 2 3 e c d s p by (auto simp: reconcileLocked_def Let_def split: prod.splits)
  have "ok w2" using attachLoop_frame [OF 2] list_frame [OF 1] k by simp
  then obtain cfg where cfg: "Render ?ss = Inr cfg" "active w3 = Some cfg" "ok w3"
    using apply_ok apply_keeps 3 p by blast
  show ?thesis
    using that [OF e' _ cfg(1) _ _ desired_set [OF d] list_view [OF 1] _ apply_view [OF 3] 5]
      detachLoop_frame [OF 5] cfg list_ok 1 c 2 s by auto
qed

end

text \<open>With a manager that really attaches, the attached addresses follow the desired ones.\<close>

locale engine_attach = engine_env m view app active ok + ip_attacher m view
  for m :: "'w external_ip_manager" and view :: "'w \<Rightarrow> addr set"
    and app :: "'w config_applier_ops" and active :: "'w \<Rightarrow> string option" and ok :: "'w \<Rightarrow> bool"
begin

lemma attachLoop_all: "attachLoop m acc addrs w = ((None, att), w') \<Longrightarrow> view w' = view w \<union> set addrs"
proof (induction addrs arbitrary: acc w)
  case (Cons a addrs)
  obtain p w1 where p: "ipm_EnsurePresent m a w = (p, w1)" by force
  obtain c where c: "p = Inr c" using Cons.prems p by (cases p) auto
  then have "attachLoop m (if c then acc @ [a] else acc) addrs w1 = ((None, att), w')" using Cons.prems p by simp
  from Cons.IH [OF this] present_ok [of a w c w1] p c show ?case by auto
qed simp

lemma reconcile_view:
  assumes "eng_ipm e = m" "eng_applier e = app" "ok w" "reconcileLocked nxt e w = (r, e', w')" "committed r"
  shows "wantedIPs (Store_List nxt) \<subseteq> view w'" "r = Inr c \<Longrightarrow> view w' = wantedIPs (Store_List nxt)"
proof -
  obtain cur des att w1 w2 w3 b where h: "set cur = view w" "set des = wantedIPs (Store_List nxt)"
    "view w1 = view w" "attachLoop m [] (diffExternalIPs des cur) w1 = ((None, att), w2)" "view w3 = view w2"
    "detachLoop m b (diffExternalIPs cur des) w3 = (r, w')"
    using reconcile_committed [OF assms] by metis
  have v: "view w3 = view w \<union> wantedIPs (Store_List nxt)"
    using attachLoop_all [OF h(4)] h(1,2,3,5) by auto
  note d = detachLoop_view [OF h(6)]
  show "wantedIPs (Store_List nxt) \<subseteq> view w'" using d v h(1,2) by auto
  show "r = Inr c \<Longrightarrow> view w' = wantedIPs (Store_List nxt)" using d v h(1,2) by auto
qed

end

section \<open>Requests\<close>

text \<open>The two state-changing requests of the engine, and what they do to the desired state when taken over.\<close>

datatype request = EnsureReq p_service | DeleteReq service_ref

fun handle :: "request \<Rightarrow> 'w engine \<Rightarrow> 'w \<Rightarrow> (engine_error, bool) result \<times> 'w engine \<times> 'w" where
  "handle (EnsureReq s) e w = Engine_Ensure s e w"
| "handle (DeleteReq ref) e w = Engine_Delete ref e w"

fun desiredAfter :: "request \<Rightarrow> (service_ref \<rightharpoonup> p_service) \<Rightarrow> (service_ref \<rightharpoonup> p_service)" where
  "desiredAfter (EnsureReq s) d = d(Ref s \<mapsto> normalizeService s)"
| "desiredAfter (DeleteReq ref) d = d(ref := None)"

fun runRequests :: "request list \<Rightarrow> 'w engine \<Rightarrow> 'w \<Rightarrow> (engine_error, bool) result list \<times> 'w engine \<times> 'w" where
  "runRequests [] e w = ([], e, w)"
| "runRequests (q # qs) e w =
     (case handle q e w of (r, e, w) \<Rightarrow> (case runRequests qs e w of (rs, e, w) \<Rightarrow> (r # rs, e, w)))"

fun desiredAfterAll ::
  "request list \<Rightarrow> (engine_error, bool) result list \<Rightarrow> (service_ref \<rightharpoonup> p_service) \<Rightarrow> (service_ref \<rightharpoonup> p_service)" where
  "desiredAfterAll (q # qs) (r # rs) d = desiredAfterAll qs rs (if committed r then desiredAfter q d else d)"
| "desiredAfterAll _ _ d = d"

definition engine_ok :: "'w engine \<Rightarrow> bool" where
  "engine_ok e = (store_ok (eng_store e) \<and> list_all validService (Store_List (eng_store e)))"

text \<open>The store a request asks the engine to take over, or none when the request needs no work.\<close>

fun nextStore :: "request \<Rightarrow> 'w engine \<Rightarrow> store option" where
  "nextStore (EnsureReq s) e =
     (if validService s then Some (Upsert (normalizeService s) (Clone (eng_store e))) else None)"
| "nextStore (DeleteReq ref) e =
     (if Store_Get (eng_store e) ref = None then None else Some (fst (Store_Delete ref (Clone (eng_store e)))))"

lemma handle_cases:
  assumes "handle q e w = (r, e', w')"
  obtains (work) nxt where "nextStore q e = Some nxt" "reconcileLocked nxt e w = (r, e', w')"
  | (invalid) s v where "q = EnsureReq s" "\<not> validService s" "r = Inl (InvalidService v)" "e' = e" "w' = w"
  | (absent) ref where "q = DeleteReq ref" "Store_Get (eng_store e) ref = None" "r = Inr False" "e' = e" "w' = w"
proof (cases q)
  case (EnsureReq s)
  show ?thesis
  proof (cases "ValidateService (normalizeService s)")
    case None
    then have "validService s" using ValidateService_None by (metis validService_normalize)
    with None assms EnsureReq that(1) show ?thesis by (simp add: Engine_Ensure_def Let_def)
  next
    case (Some v)
    then have "\<not> validService s" using ValidateService_None by (metis option.distinct(1) validService_normalize)
    moreover have "r = Inl (InvalidService v)" "e' = e" "w' = w"
      using Some assms EnsureReq by (simp_all add: Engine_Ensure_def Let_def)
    ultimately show ?thesis using that(2) EnsureReq by blast
  qed
next
  case (DeleteReq ref)
  show ?thesis
  proof (cases "Store_Get (eng_store e) ref")
    case None
    then have "r = Inr False" "e' = e" "w' = w" using assms DeleteReq by (simp_all add: Engine_Delete_def)
    with that(3) [OF DeleteReq None] show ?thesis by blast
  next
    case (Some v)
    then have "reconcileLocked (fst (Store_Delete ref (Clone (eng_store e)))) e w = (r, e', w')"
      using assms DeleteReq by (simp add: Engine_Delete_def)
    moreover have "nextStore q e = Some (fst (Store_Delete ref (Clone (eng_store e))))"
      using Some DeleteReq by simp
    ultimately show ?thesis using that(1) by blast
  qed
qed

lemma ran_desiredAfter:
  "x \<in> ran (desiredAfter q d) \<Longrightarrow> x \<in> ran d \<or> (\<exists>s. q = EnsureReq s \<and> x = normalizeService s)"
  by (cases q) (auto simp: ran_def split: if_splits)

lemma nextStore_ok:
  assumes "engine_ok e" "nextStore q e = Some nxt"
  shows "store_ok nxt" "Store_Get nxt = desiredAfter q (Store_Get (eng_store e))"
    "list_all validService (Store_List nxt)"
proof -
  have s: "store_ok (eng_store e)" and v: "list_all validService (Store_List (eng_store e))"
    using assms(1) by (simp_all add: engine_ok_def)
  have "store_ok nxt \<and> Store_Get nxt = desiredAfter q (Store_Get (eng_store e))"
    using assms(2) ds.get_put [OF s] ds.get_del [OF s] s
    by (cases q) (auto intro: inv_intros simp del: Store_Get_map_of split: if_splits)
  then show o: "store_ok nxt" and g: "Store_Get nxt = desiredAfter q (Store_Get (eng_store e))" by auto
  have old: "validService x" if "x \<in> ran (Store_Get (eng_store e))" for x
    using that v ds.set_listing [OF s] by (auto simp: list_all_iff simp del: Store_Get_map_of)
  have "validService x" if "x \<in> set (Store_List nxt)" for x
  proof -
    have "x \<in> ran (desiredAfter q (Store_Get (eng_store e)))" using that ds.set_listing [OF o] g by simp
    then consider "x \<in> ran (Store_Get (eng_store e))" | s where "q = EnsureReq s" "x = normalizeService s"
      using ran_desiredAfter by metis
    then show ?thesis
    proof cases
      case 2
      then show ?thesis using assms(2) by (auto split: if_splits)
    qed (rule old)
  qed
  then show "list_all validService (Store_List nxt)" by (simp add: list_all_iff)
qed

lemma nextStore_absent:
  "Store_Get (eng_store e) ref = None \<Longrightarrow> desiredAfter (DeleteReq ref) (Store_Get (eng_store e)) = Store_Get (eng_store e)"
  by auto

section \<open>Effects of requests\<close>

definition wired :: "'w external_ip_manager \<Rightarrow> 'w config_applier_ops \<Rightarrow> 'w engine \<Rightarrow> bool" where
  "wired m app e \<longleftrightarrow> eng_ipm e = m \<and> eng_applier e = app"

context engine_env
begin

lemma handle_keeps:
  assumes e: "wired m app e" and k: "ok w" and i: "engine_ok e" and h: "handle q e w = (r, e', w')"
  shows "wired m app e' \<and> ok w' \<and> engine_ok e' \<and>
    Store_Get (eng_store e') =
      (if committed r then desiredAfter q (Store_Get (eng_store e)) else Store_Get (eng_store e))"
using h
proof (cases rule: handle_cases)
  case (work nxt)
  note n = nextStore_ok [OF i work(1)]
  have e': "eng_ipm e = m" "eng_applier e = app" using e by (simp_all add: wired_def)
  show ?thesis
  proof (cases "committed r")
    case True
    then obtain "e' = e\<lparr>eng_store := nxt\<rparr>" "ok w'" using reconcile_committed [OF e' k work(2)] by metis
    with n True e show ?thesis by (simp add: wired_def engine_ok_def del: Store_Get_map_of)
  next
    case False
    then show ?thesis using reconcile_failed [OF e' k work(2)] e i by simp
  qed
qed (use e k i in \<open>auto simp: fun_upd_idem\<close>)

lemma handle_config:
  assumes "wired m app e" "ok w" "handle q e w = (r, e', w')" "committed r" "nextStore q e \<noteq> None"
  shows "\<exists>cfg. Render (Store_List (eng_store e')) = Inr cfg \<and> active w' = Some cfg"
using assms(3)
proof (cases rule: handle_cases)
  case (work nxt)
  have e: "eng_ipm e = m" "eng_applier e = app" using assms(1) by (simp_all add: wired_def)
  from reconcile_committed [OF e assms(2) work(2) assms(4)] obtain cfg where
    "e' = e\<lparr>eng_store := nxt\<rparr>" "Render (Store_List nxt) = Inr cfg" "active w' = Some cfg" by metis
  then show ?thesis by simp
qed (use assms in auto)

lemma handle_failed:
  assumes "wired m app e" "ok w" "handle q e w = (r, e', w')" "\<not> committed r"
  shows "e' = e \<and> view w \<subseteq> view w' \<and> (rollbackErrors r = [] \<longrightarrow> view w' = view w)"
using assms(3)
proof (cases rule: handle_cases)
  case (work nxt)
  have e: "eng_ipm e = m" "eng_applier e = app" using assms(1) by (simp_all add: wired_def)
  from reconcile_failed [OF e assms(2) work(2) assms(4)] show ?thesis by simp
qed (use assms in auto)

lemma run_keeps:
  "wired m app e \<Longrightarrow> ok w \<Longrightarrow> engine_ok e \<Longrightarrow> runRequests qs e w = (rs, e', w') \<Longrightarrow>
   wired m app e' \<and> ok w' \<and> engine_ok e' \<and>
   Store_Get (eng_store e') = desiredAfterAll qs rs (Store_Get (eng_store e))"
proof (induction qs arbitrary: e w rs)
  case (Cons q qs)
  obtain r e1 w1 where h: "handle q e w = (r, e1, w1)" by (metis surj_pair)
  obtain rs1 where rs: "runRequests qs e1 w1 = (rs1, e', w')" "rs = r # rs1"
    using Cons.prems(4) h by (auto split: prod.splits)
  from handle_keeps [OF Cons.prems(1-3) h] Cons.IH [OF _ _ _ rs(1)] rs(2) show ?case
    by (simp del: Store_Get_map_of)
qed (simp del: Store_Get_map_of)

end

context engine_attach
begin

text \<open>Every address of a stored Service is attached, and stays so whatever a request returns.\<close>

lemma handle_attached:
  assumes "wired m app e" "ok w" "handle q e w = (r, e', w')"
    and "wantedIPs (Store_List (eng_store e)) \<subseteq> view w"
  shows "wantedIPs (Store_List (eng_store e')) \<subseteq> view w'"
proof (cases "committed r")
  case False
  with handle_failed [OF assms(1-3)] assms(4) show ?thesis by auto
next
  case True
  show ?thesis
  using assms(3)
  proof (cases rule: handle_cases)
    case (work nxt)
    have e: "eng_ipm e = m" "eng_applier e = app" using assms(1) by (simp_all add: wired_def)
    from reconcile_committed [OF e assms(2) work(2) True] obtain "e' = e\<lparr>eng_store := nxt\<rparr>" by metis
    with reconcile_view(1) [OF e assms(2) work(2) True] show ?thesis by simp
  qed (use assms(4) in auto)
qed

lemma handle_view:
  assumes "wired m app e" "ok w" "handle q e w = (Inr c, e', w')" "nextStore q e \<noteq> None"
  shows "view w' = wantedIPs (Store_List (eng_store e'))"
using assms(3)
proof (cases rule: handle_cases)
  case (work nxt)
  have e: "eng_ipm e = m" "eng_applier e = app" using assms(1) by (simp_all add: wired_def)
  have c: "committed (Inr c)" by simp
  from reconcile_committed [OF e assms(2) work(2) c] obtain "e' = e\<lparr>eng_store := nxt\<rparr>" by metis
  with reconcile_view(2) [OF e assms(2) work(2) c, of c] show ?thesis by simp
qed (use assms in auto)

lemma run_attached:
  "wired m app e \<Longrightarrow> ok w \<Longrightarrow> engine_ok e \<Longrightarrow> runRequests qs e w = (rs, e', w') \<Longrightarrow>
   wantedIPs (Store_List (eng_store e)) \<subseteq> view w \<Longrightarrow> wantedIPs (Store_List (eng_store e')) \<subseteq> view w'"
proof (induction qs arbitrary: e w rs)
  case (Cons q qs)
  obtain r e1 w1 where h: "handle q e w = (r, e1, w1)" by (metis surj_pair)
  obtain rs1 where rs: "runRequests qs e1 w1 = (rs1, e', w')"
    using Cons.prems(4) h by (auto split: prod.splits)
  note k = handle_keeps [OF Cons.prems(1-3) h]
  from Cons.IH [OF _ _ _ rs handle_attached [OF Cons.prems(1,2) h Cons.prems(5)]] k show ?case by blast
qed simp

end

section \<open>One host\<close>

text \<open>
  A host is a kernel and an operating system; managers and appliers act on their part of it.
\<close>

definition onFst :: "('a \<Rightarrow> 'r \<times> 'a) \<Rightarrow> 'a \<times> 'b \<Rightarrow> 'r \<times> 'a \<times> 'b" where
  "onFst f w = (case f (fst w) of (r, a) \<Rightarrow> (r, (a, snd w)))"

definition onSnd :: "('b \<Rightarrow> 'r \<times> 'b) \<Rightarrow> 'a \<times> 'b \<Rightarrow> 'r \<times> 'a \<times> 'b" where
  "onSnd f w = (case f (snd w) of (r, b) \<Rightarrow> (r, (fst w, b)))"

definition managerOnHost :: "'a external_ip_manager \<Rightarrow> ('a \<times> 'b) external_ip_manager" where
  "managerOnHost m = \<lparr>ipm_List = onFst (ipm_List m), ipm_EnsurePresent = (\<lambda>a. onFst (ipm_EnsurePresent m a)),
     ipm_EnsureAbsent = (\<lambda>a. onFst (ipm_EnsureAbsent m a))\<rparr>"

definition applierOnHost :: "'b config_applier_ops \<Rightarrow> ('a \<times> 'b) config_applier_ops" where
  "applierOnHost app = \<lparr>app_Apply = (\<lambda>ss. onSnd (app_Apply app ss)), app_Bootstrap = onSnd (app_Bootstrap app)\<rparr>"

lemma onFst_eq: "onFst f w = (r, w') \<longleftrightarrow> f (fst w) = (r, fst w') \<and> snd w' = snd w"
  by (cases w') (auto simp: onFst_def split: prod.splits)

lemma onSnd_eq: "onSnd f w = (r, w') \<longleftrightarrow> f (snd w) = (r, snd w') \<and> fst w' = fst w"
  by (cases w') (auto simp: onSnd_def split: prod.splits)

lemma host_meets_contracts:
  assumes "ip_atomic m view" "ip_attacher m view" "config_applier app active ok"
  shows "engine_attach (managerOnHost m) (\<lambda>w. view (fst w)) (applierOnHost app)
    (\<lambda>w. active (snd w)) (\<lambda>w. ok (snd w))"
proof -
  note m = ip_manager.list_ok [OF ip_atomic.axioms(1) [OF assms(1)]]
    ip_manager.list_view [OF ip_atomic.axioms(1) [OF assms(1)]]
    ip_manager.present_frame [OF ip_atomic.axioms(1) [OF assms(1)]]
    ip_manager.present_changed [OF ip_atomic.axioms(1) [OF assms(1)]]
    ip_manager.absent_frame [OF ip_atomic.axioms(1) [OF assms(1)]]
    ip_manager.absent_ok [OF ip_atomic.axioms(1) [OF assms(1)]]
    ip_atomic.present_same [OF assms(1)] ip_attacher.present_ok [OF assms(2)]
  note a = config_applier.apply_ok [OF assms(3)] config_applier.apply_err [OF assms(3)]
    config_applier.apply_keeps [OF assms(3)] config_applier.boot_ok [OF assms(3)]
    config_applier.boot_err [OF assms(3)] config_applier.boot_keeps [OF assms(3)]
  show ?thesis
    by unfold_locales
      (simp_all add: managerOnHost_def applierOnHost_def onFst_eq onSnd_eq, (auto dest: m a)+)
qed

definition hostManager :: "(kernel \<times> os) external_ip_manager" where
  "hostManager = managerOnHost (netlinkManager sampleAttach (linuxNetlinkClient kernelLib))"

definition hostApplier :: "(kernel \<times> os) config_applier_ops" where
  "hostApplier = applierOnHost (Applier sampleApply quietExec)"

definition hostView :: "kernel \<times> os \<Rightarrow> addr set" where
  "hostView w = managedView sampleAttach (kernelTable (fst w))"

interpretation host: engine_attach hostManager hostView hostApplier
  "\<lambda>w. activeConfig sampleApply (snd w)" "\<lambda>w. os_ok (snd w)"
  unfolding hostManager_def hostApplier_def hostView_def [abs_def]
  by (rule host_meets_contracts [OF linux.atomic.ip_atomic_axioms linux.attacher.ip_attacher_axioms
        files.config_applier_axioms])

section \<open>A sample run\<close>

definition plainService :: p_service where
  "plainService = \<lparr>svc_Namespace = ''web'', svc_Name = ''shop'', LoadBalancerClass = ''lb'',
     ExternalIP = ''203.0.113.10'', Ports = []\<rparr>"

definition hostEngine :: "(kernel \<times> os) engine" where
  "hostEngine = \<lparr>eng_store = NewStore, eng_applier = hostApplier, eng_ipm = hostManager\<rparr>"

definition hostWorld :: "kernel \<times> os" where
  "hostWorld = (sampleKernel, sampleOs)"

lemma hostEngine_ok: "wired hostManager hostApplier hostEngine" "engine_ok hostEngine" "os_ok (snd hostWorld)"
  "wantedIPs (Store_List (eng_store hostEngine)) \<subseteq> V"
  using store_ok_New ds.listing_empty sampleOs_ok
  by (simp_all add: wired_def hostEngine_def engine_ok_def hostWorld_def wantedIPs_def)

definition attachedKernel :: kernel where
  "attachedKernel = sampleKernel\<lparr>link_addrs := [(V4 10 0 0 5, 24), (V4 203 0 113 10, 32)]\<rparr>"

lemmas host_eval = hostManager_def managerOnHost_def onFst_def netlinkManager_def hostWorld_def netlink_eval
  sortAddrs_sort attachedKernel_def

lemma sample_services:
  "normalizeService plainService = plainService" "ValidateService plainService = None"
  "Store_List (Upsert plainService NewStore) = [plainService]"
  "desiredExternalIPs [plainService] = Inr [V4 203 0 113 10]" "desiredExternalIPs [] = Inr []"
  "fst (Store_Delete (Ref plainService) (Upsert plainService NewStore)) = NewStore"
  by code_simp+

lemma sample_manager:
  "ipm_List hostManager hostWorld = (Inr [], hostWorld)"
  "ipm_EnsurePresent hostManager (V4 203 0 113 10) hostWorld = (Inr True, (attachedKernel, sampleOs))"
  "ipm_List hostManager (attachedKernel, o1) = (Inr [V4 203 0 113 10], (attachedKernel, o1))"
  "ipm_EnsureAbsent hostManager (V4 203 0 113 10) (attachedKernel, o1) = (Inr True, (sampleKernel, o1))"
  by (simp_all add: host_eval)

lemma sample_apply:
  obtains o1 o2 where "app_Apply hostApplier [plainService] (k, sampleOs) = (Inr True, (k, o1))"
    "app_Apply hostApplier [] (k, o1) = (Inr True, (k, o2))"
proof -
  let ?r = "Applier_Apply sampleApply quietExec [plainService] sampleOs"
  have "fst ?r = Inr True" "fst (Applier_Apply sampleApply quietExec [] (snd ?r)) = Inr True" by code_simp+
  then obtain o1 o2 where "?r = (Inr True, o1)" "Applier_Apply sampleApply quietExec [] o1 = (Inr True, o2)"
    by (metis prod.collapse)
  then show ?thesis
    using that by (simp add: hostApplier_def applierOnHost_def onSnd_def Applier_def)
qed

text \<open>Ensuring the sample Service on the empty host succeeds, and so does deleting it again.\<close>

lemma sample_run:
  obtains e w w2 where "Engine_Ensure plainService hostEngine hostWorld = (Inr True, e, w)"
    "e = hostEngine\<lparr>eng_store := Upsert plainService NewStore\<rparr>"
    "Engine_Delete (Ref plainService) e w = (Inr True, hostEngine, w2)"
proof -
  let ?nxt = "Upsert plainService NewStore"
  have s: "store_ok ?nxt" by (rule store_ok_Upsert [OF store_ok_New])
  obtain o1 o2 where a: "app_Apply hostApplier [plainService] (attachedKernel, sampleOs) = (Inr True, (attachedKernel, o1))"
    "app_Apply hostApplier [] (attachedKernel, o1) = (Inr True, (attachedKernel, o2))" using sample_apply by blast
  have "Engine_Ensure plainService hostEngine hostWorld =
      (Inr True, hostEngine\<lparr>eng_store := ?nxt\<rparr>, (attachedKernel, o1))"
    by (simp add: Engine_Ensure_def reconcileLocked_def hostEngine_def diffExternalIPs_def Let_def
        Clone_ok [OF store_ok_New] sample_services sample_manager a)
  moreover have "Store_Get ?nxt (Ref plainService) = Some plainService"
    using ds.get_after_put [OF store_ok_New, of plainService] sample_services(1) by simp
  then have "Engine_Delete (Ref plainService) (hostEngine\<lparr>eng_store := ?nxt\<rparr>) (attachedKernel, o1) =
      (Inr True, hostEngine, (sampleKernel, o2))"
    by (simp add: Engine_Delete_def reconcileLocked_def hostEngine_def diffExternalIPs_def Let_def
        Clone_ok [OF s] sample_services sample_manager a ds.listing_empty del: Store_Get_map_of)
  ultimately show ?thesis using that by blast
qed

section \<open>Properties\<close>

text \<open>
  C14: After a successful \<open>Ensure\<close> the three states agree: the store holds exactly the old
  Services with this one upserted in canonical form, the active configuration is the
  rendered store, and the attached managed addresses are exactly the external addresses of
  the stored Services.
\<close>

theorem engine_ensure_success:
  assumes "engine_attach m view app active ok" "wired m app e" "ok w" "engine_ok e"
    and "Engine_Ensure s e w = (Inr c, e', w')"
  shows "engine_ok e' \<and> Store_Get (eng_store e') = (Store_Get (eng_store e))(Ref s \<mapsto> normalizeService s) \<and>
    (\<exists>cfg. Render (Store_List (eng_store e')) = Inr cfg \<and> active w' = Some cfg) \<and>
    view w' = wantedIPs (Store_List (eng_store e'))"
proof -
  have h: "handle (EnsureReq s) e w = (Inr c, e', w')" using assms(5) by simp
  then have n: "nextStore (EnsureReq s) e \<noteq> None" by (cases rule: handle_cases) auto
  note env = engine_attach.axioms(1) [OF assms(1)]
  have c: "committed (Inr c)" by simp
  show ?thesis
    using engine_env.handle_keeps [OF env assms(2-4) h] engine_env.handle_config [OF env assms(2,3) h c n]
      engine_attach.handle_view [OF assms(1-3) h n] by (simp del: Store_Get_map_of)
qed

theorem engine_ensure_success_witness:
  "\<exists>e w. Engine_Ensure plainService hostEngine hostWorld = (Inr True, e, w) \<and>
    hostView w = wantedIPs (Store_List (eng_store e)) \<and>
    (\<exists>cfg. Render (Store_List (eng_store e)) = Inr cfg \<and> activeConfig sampleApply (snd w) = Some cfg)"
proof -
  obtain e w where "Engine_Ensure plainService hostEngine hostWorld = (Inr True, e, w)"
    using sample_run by blast
  with engine_ensure_success [OF host.engine_attach_axioms hostEngine_ok(1,3,2) this] show ?thesis by blast
qed

text \<open>
  C15: Deleting a stored Service successfully removes exactly that Service; the active
  configuration is then the rendered rest and the attached addresses are those of the rest.
  Deleting an unknown Service touches nothing.
\<close>

theorem engine_delete_success:
  assumes "engine_attach m view app active ok" "wired m app e" "ok w" "engine_ok e"
    and "Engine_Delete ref e w = (Inr c, e', w')"
  shows "if Store_Get (eng_store e) ref = None then c = False \<and> e' = e \<and> w' = w
    else engine_ok e' \<and> Store_Get (eng_store e') = (Store_Get (eng_store e))(ref := None) \<and>
      (\<exists>cfg. Render (Store_List (eng_store e')) = Inr cfg \<and> active w' = Some cfg) \<and>
      view w' = wantedIPs (Store_List (eng_store e'))"
proof (cases "Store_Get (eng_store e) ref")
  case None
  with assms(5) show ?thesis by (simp add: Engine_Delete_def)
next
  case (Some v)
  have h: "handle (DeleteReq ref) e w = (Inr c, e', w')" using assms(5) by simp
  have n: "nextStore (DeleteReq ref) e \<noteq> None" using Some by simp
  note env = engine_attach.axioms(1) [OF assms(1)]
  have c: "committed (Inr c)" by simp
  show ?thesis
    using engine_env.handle_keeps [OF env assms(2-4) h] engine_env.handle_config [OF env assms(2,3) h c n]
      engine_attach.handle_view [OF assms(1-3) h n] Some by (simp del: Store_Get_map_of)
qed

theorem engine_delete_success_witness:
  "\<exists>e w w2. Engine_Ensure plainService hostEngine hostWorld = (Inr True, e, w) \<and>
    Engine_Delete (Ref plainService) e w = (Inr True, hostEngine, w2) \<and>
    hostView w2 = wantedIPs (Store_List NewStore)"
proof -
  obtain e w w2 where r: "Engine_Ensure plainService hostEngine hostWorld = (Inr True, e, w)"
    "e = hostEngine\<lparr>eng_store := Upsert plainService NewStore\<rparr>"
    "Engine_Delete (Ref plainService) e w = (Inr True, hostEngine, w2)" using sample_run by blast
  have g: "Store_Get (eng_store e) (Ref plainService) \<noteq> None"
    using r(2) ds.get_after_put [OF store_ok_New, of plainService] by simp
  have k: "wired hostManager hostApplier e" "os_ok (snd w)" "engine_ok e"
    using host.handle_keeps [OF hostEngine_ok(1,3,2), of "EnsureReq plainService"] r(1) by auto
  have "eng_store hostEngine = NewStore" by (simp add: hostEngine_def)
  then have "hostView w2 = wantedIPs (Store_List NewStore)"
    using engine_delete_success [OF host.engine_attach_axioms k r(3)] g by (metis (full_types))
  with r(1,3) show ?thesis by blast
qed

text \<open>
  C12: A request that fails before its state is taken over leaves the store alone and never
  loses an attached address; when the rollback reports no error, the attached addresses are
  exactly those from before the request.
\<close>

theorem engine_failure_rolls_back:
  assumes "engine_env m view app active ok" "wired m app e" "ok w"
    and "handle q e w = (r, e', w')" "\<not> committed r"
  shows "e' = e \<and> view w \<subseteq> view w' \<and> (rollbackErrors r = [] \<longrightarrow> view w' = view w)"
  using engine_env.handle_failed [OF assms] .

theorem engine_failure_rolls_back_witness:
  "let w = (sampleKernel\<lparr>link_answers := False\<rparr>, sampleOs) in
   handle (EnsureReq plainService) hostEngine w =
     (Inl (ListAttached (ListFailed (NetlinkOp (ListIPv4Failed ''eth0'' ''timeout'')))), hostEngine, w) \<and>
   hostView w \<subseteq> hostView w"
proof -
  let ?w = "(sampleKernel\<lparr>link_answers := False\<rparr>, sampleOs)"
  have "ipm_List hostManager ?w =
      (Inl (ListFailed (NetlinkOp (ListIPv4Failed ''eth0'' ''timeout''))), ?w)"
    by (simp add: host_eval)
  then have h: "handle (EnsureReq plainService) hostEngine ?w =
     (Inl (ListAttached (ListFailed (NetlinkOp (ListIPv4Failed ''eth0'' ''timeout'')))), hostEngine, ?w)"
    by (simp add: Engine_Ensure_def sample_services reconcileLocked_def hostEngine_def)
  have "os_ok (snd ?w)" using sampleOs_ok by simp
  from engine_failure_rolls_back [OF host.engine_env_axioms hostEngine_ok(1) this h] h show ?thesis
    by (simp add: Let_def)
qed

text \<open>
  C13: The engine implements the abstract desired state: along any sequence of requests, the
  store is the map that results from applying exactly the committed requests in order, and
  it stays well formed with only valid Services.
\<close>

theorem engine_refines_desired_state:
  assumes "engine_env m view app active ok" "wired m app e" "ok w" "engine_ok e"
    and "runRequests qs e w = (rs, e', w')"
  shows "engine_ok e' \<and> Store_Get (eng_store e') = desiredAfterAll qs rs (Store_Get (eng_store e))"
  using engine_env.run_keeps [OF assms] by blast

theorem engine_refines_desired_state_witness:
  "\<exists>e w. runRequests [EnsureReq plainService, DeleteReq (Ref plainService)] hostEngine hostWorld =
      ([Inr True, Inr True], e, w) \<and>
    Store_Get (eng_store e) = desiredAfterAll [EnsureReq plainService, DeleteReq (Ref plainService)]
      [Inr True, Inr True] (Store_Get NewStore)"
proof -
  obtain e w w2 where "Engine_Ensure plainService hostEngine hostWorld = (Inr True, e, w)"
    "Engine_Delete (Ref plainService) e w = (Inr True, hostEngine, w2)" using sample_run by blast
  then have r: "runRequests [EnsureReq plainService, DeleteReq (Ref plainService)] hostEngine hostWorld =
      ([Inr True, Inr True], hostEngine, w2)" by simp
  have "eng_store hostEngine = NewStore" by (simp add: hostEngine_def)
  with engine_refines_desired_state [OF host.engine_env_axioms hostEngine_ok(1,3,2) r] r show ?thesis
    by metis
qed

text \<open>
  C16: No stored Service loses its address: along any sequence of requests, whatever fails, the
  external address of every Service in the store is attached.
\<close>

theorem engine_addresses_stay_attached:
  assumes "engine_attach m view app active ok" "wired m app e" "ok w" "engine_ok e"
    and "runRequests qs e w = (rs, e', w')" "wantedIPs (Store_List (eng_store e)) \<subseteq> view w"
  shows "wantedIPs (Store_List (eng_store e')) \<subseteq> view w'"
  using engine_attach.run_attached [OF assms] .

theorem engine_addresses_stay_attached_witness:
  "\<exists>e w. runRequests [EnsureReq plainService] hostEngine hostWorld = ([Inr True], e, w) \<and>
    wantedIPs (Store_List (eng_store e)) \<subseteq> hostView w"
proof -
  obtain e w where "Engine_Ensure plainService hostEngine hostWorld = (Inr True, e, w)"
    using sample_run by blast
  then have r: "runRequests [EnsureReq plainService] hostEngine hostWorld = ([Inr True], e, w)" by simp
  with engine_addresses_stay_attached [OF host.engine_attach_axioms hostEngine_ok(1,3,2) r hostEngine_ok(4)]
  show ?thesis by blast
qed

text \<open>
  C37: A \<open>Delete\<close> that fails only in detaching a stale address is taken over nevertheless, so
  repeating it reports success and does nothing: the address that could not be detached is
  not tried again.
\<close>

theorem failed_detach_not_retried:
  assumes "store_ok (eng_store e)" "Engine_Delete ref e w = (Inl (DetachFailed a err), e', w')"
  shows "Engine_Delete ref e' w2 = (Inr False, e', w2)"
proof -
  have "Store_Get (eng_store e) ref \<noteq> None" using assms(2) by (auto simp: Engine_Delete_def split: option.splits)
  then have r: "reconcileLocked (fst (Store_Delete ref (eng_store e))) e w = (Inl (DetachFailed a err), e', w')"
    using assms by (auto simp: Engine_Delete_def)
  then have "eng_store e' = fst (Store_Delete ref (eng_store e))"
    by (auto simp: reconcileLocked_def Let_def split: prod.splits sum.splits option.splits)
  then have "Store_Get (eng_store e') ref = None" using ds.get_after_del [OF assms(1)] by simp
  then show ?thesis by (simp add: Engine_Delete_def)
qed

text \<open>A host on which detaching always fails; its world is the list of attached addresses.\<close>

definition stuckEngine :: "addr list engine" where
  "stuckEngine = \<lparr>eng_store = Upsert plainService NewStore,
     eng_applier = \<lparr>app_Apply = (\<lambda>_ w. (Inr True, w)), app_Bootstrap = (\<lambda>w. (None, w))\<rparr>,
     eng_ipm = \<lparr>ipm_List = (\<lambda>w. (Inr w, w)), ipm_EnsurePresent = (\<lambda>a w. (Inr True, a # w)),
       ipm_EnsureAbsent = (\<lambda>a w. (Inl (ActionFailed DetachExternalIP (CommandOp ''exit status 2'' '''')), w))\<rparr>\<rparr>"

theorem failed_detach_not_retried_witness:
  "\<exists>e. Engine_Delete (Ref plainService) stuckEngine [V4 203 0 113 10] =
      (Inl (DetachFailed (V4 203 0 113 10) (ActionFailed DetachExternalIP (CommandOp ''exit status 2'' ''''))),
       e, [V4 203 0 113 10]) \<and>
    Engine_Delete (Ref plainService) e [V4 203 0 113 10] = (Inr False, e, [V4 203 0 113 10])"
proof -
  have s: "store_ok (eng_store stuckEngine)" by (simp add: stuckEngine_def store_ok_Upsert [OF store_ok_New])
  have "Store_Get (eng_store stuckEngine) (Ref plainService) \<noteq> None"
    using ds.get_after_put [OF store_ok_New, of plainService] by (simp add: stuckEngine_def)
  then obtain e where d: "Engine_Delete (Ref plainService) stuckEngine [V4 203 0 113 10] =
      (Inl (DetachFailed (V4 203 0 113 10) (ActionFailed DetachExternalIP (CommandOp ''exit status 2'' ''''))),
       e, [V4 203 0 113 10])"
    using sample_services(5,6) s ds.listing_empty
    by (auto simp: Engine_Delete_def reconcileLocked_def stuckEngine_def diffExternalIPs_def Let_def
        simp del: Store_Get_map_of)
  from failed_detach_not_retried [OF s d] d show ?thesis by blast
qed

end
