(* ===== verification/Http.thy ===== *)
theory Http
  imports Json Engine
begin

text \<open>
  \<open>internal/dataplane/http.go\<close>: the HTTP API of the dataplane.  A request is its method,
  its decoded and its escaped path, and its body; a response its status, headers and body.
  Decoding follows \<open>encoding/json\<close> into the Go types of \<open>provider.Service\<close> with unknown
  fields disallowed.
\<close>

section \<open>Decoding JSON into a Service\<close>

text \<open>
  Field names match exactly or up to case folding; the only non-ASCII runes that fold to
  ASCII letters are U+017F (to \<open>S\<close>) and U+212A (to \<open>K\<close>).
\<close>

fun foldName :: "string \<Rightarrow> string" where
  "foldName [] = []"
| "foldName (c # s) =
     (if c = CHR 0xC5 \<and> prefix [CHR 0xBF] s then CHR ''s'' # foldName (drop 1 s)
      else if c = CHR 0xE2 \<and> prefix [CHR 0x84, CHR 0xAA] s then CHR ''k'' # foldName (drop 2 s)
      else lowerByte c # foldName s)"

text \<open>
  The field a key selects among the names of a struct's fields: an exact match first, then
  the first one with the same folding.
\<close>

definition fieldOf :: "string list \<Rightarrow> string \<Rightarrow> string option" where
  "fieldOf names key =
     (if key \<in> set names then Some key else find (\<lambda>n. foldName n = foldName key) names)"

text \<open>Decoding into an existing value; \<open>None\<close> is an error, and \<open>null\<close> changes nothing.\<close>

definition decodeString :: "json \<Rightarrow> string \<Rightarrow> string option" where
  "decodeString v old = (case v of JNull \<Rightarrow> Some old | JString s \<Rightarrow> Some s | _ \<Rightarrow> None)"

definition decodeInt32 :: "json \<Rightarrow> int \<Rightarrow> int option" where
  "decodeInt32 v old =
     (case v of JNull \<Rightarrow> Some old
      | JNumber n \<Rightarrow>
          (case Atoi n of None \<Rightarrow> None
           | Some i \<Rightarrow> if - (2 ^ 31) \<le> i \<and> i < 2 ^ 31 then Some i else None)
      | _ \<Rightarrow> None)"

definition decodeBoolPtr :: "json \<Rightarrow> bool option \<Rightarrow> bool option option" where
  "decodeBoolPtr v old = (case v of JNull \<Rightarrow> Some None | JBool b \<Rightarrow> Some (Some b) | _ \<Rightarrow> None)"

text \<open>
  A slice: its elements, and the elements beyond its length that its backing array still
  holds.  An array is decoded into the elements that are there, then into the ones beyond
  the length, then into zero values; \<open>null\<close> and the empty array give a fresh slice.
\<close>

type_synonym 'a go_slice = "'a list \<times> 'a list"

fun decodeElements :: "(json \<Rightarrow> 'a \<Rightarrow> 'a option) \<Rightarrow> 'a \<Rightarrow> json list \<Rightarrow> 'a list \<Rightarrow> 'a go_slice option" where
  "decodeElements dec zero [] old = Some ([], old)"
| "decodeElements dec zero (v # vs) old =
     (case dec v (case old of [] \<Rightarrow> zero | o1 # _ \<Rightarrow> o1) of None \<Rightarrow> None
      | Some x \<Rightarrow>
          (case decodeElements dec zero vs (drop 1 old) of None \<Rightarrow> None
           | Some (xs, spare) \<Rightarrow> Some (x # xs, spare)))"

definition decodeSlice :: "(json \<Rightarrow> 'a \<Rightarrow> 'a option) \<Rightarrow> 'a \<Rightarrow> json \<Rightarrow> 'a go_slice \<Rightarrow> 'a go_slice option" where
  "decodeSlice dec zero v old =
     (case v of JNull \<Rightarrow> Some ([], [])
      | JArray [] \<Rightarrow> Some ([], [])
      | JArray vs \<Rightarrow> decodeElements dec zero vs (fst old @ snd old)
      | _ \<Rightarrow> None)"

text \<open>The members of an object are decoded one after the other, a later one over an earlier one.\<close>

fun decodeMembers :: "(string \<Rightarrow> json \<Rightarrow> 'a \<Rightarrow> 'a option) \<Rightarrow> (string \<times> json) list \<Rightarrow> 'a \<Rightarrow> 'a option" where
  "decodeMembers dec [] x = Some x"
| "decodeMembers dec ((k, v) # ms) x = (case dec k v x of None \<Rightarrow> None | Some y \<Rightarrow> decodeMembers dec ms y)"

definition decodeStruct :: "(string \<Rightarrow> json \<Rightarrow> 'a \<Rightarrow> 'a option) \<Rightarrow> json \<Rightarrow> 'a \<Rightarrow> 'a option" where
  "decodeStruct dec v x =
     (case v of JNull \<Rightarrow> Some x | JObject ms \<Rightarrow> decodeMembers dec ms x | _ \<Rightarrow> None)"

definition decodeBackendField :: "string \<Rightarrow> json \<Rightarrow> backend_endpoint \<Rightarrow> backend_endpoint option" where
  "decodeBackendField key v b =
     (case fieldOf [''Address'', ''Port''] key of None \<Rightarrow> None
      | Some f \<Rightarrow>
          if f = ''Address'' then map_option (\<lambda>s. b\<lparr>Address := s\<rparr>) (decodeString v (Address b))
          else map_option (\<lambda>i. b\<lparr>Port := i\<rparr>) (decodeInt32 v (Port b)))"

definition zeroBackend :: backend_endpoint where
  "zeroBackend = \<lparr>Address = [], Port = 0\<rparr>"

text \<open>A port and a Service while they are decoded, with their slices.\<close>

record port_target =
  pt_Port :: service_port
  pt_Backends :: "backend_endpoint go_slice"

record service_target =
  st_Service :: p_service
  st_Ports :: "port_target go_slice"

definition decodePortField :: "string \<Rightarrow> json \<Rightarrow> port_target \<Rightarrow> port_target option" where
  "decodePortField key v t =
     (let p = pt_Port t in
      case fieldOf [''Name'', ''Protocol'', ''Port'', ''TargetPort'', ''Backends''] key of None \<Rightarrow> None
      | Some f \<Rightarrow>
          if f = ''Name'' then map_option (\<lambda>s. t\<lparr>pt_Port := p\<lparr>sp_Name := s\<rparr>\<rparr>) (decodeString v (sp_Name p))
          else if f = ''Protocol'' then map_option (\<lambda>s. t\<lparr>pt_Port := p\<lparr>Protocol := s\<rparr>\<rparr>) (decodeString v (Protocol p))
          else if f = ''Port'' then map_option (\<lambda>i. t\<lparr>pt_Port := p\<lparr>sp_Port := i\<rparr>\<rparr>) (decodeInt32 v (sp_Port p))
          else if f = ''TargetPort''
            then map_option (\<lambda>s. t\<lparr>pt_Port := p\<lparr>TargetPort := s\<rparr>\<rparr>) (decodeString v (TargetPort p))
          else map_option (\<lambda>bs. t\<lparr>pt_Backends := bs\<rparr>)
            (decodeSlice (decodeStruct decodeBackendField) zeroBackend v (pt_Backends t)))"

definition zeroPort :: port_target where
  "zeroPort = \<lparr>pt_Port = \<lparr>sp_Name = [], Protocol = [], sp_Port = 0, TargetPort = [], Backends = []\<rparr>,
     pt_Backends = ([], [])\<rparr>"

definition decodeServiceField :: "string \<Rightarrow> json \<Rightarrow> service_target \<Rightarrow> service_target option" where
  "decodeServiceField key v t =
     (let s = st_Service t in
      case fieldOf [''Namespace'', ''Name'', ''LoadBalancerClass'', ''ExternalIP'', ''Ports''] key of None \<Rightarrow> None
      | Some f \<Rightarrow>
          if f = ''Namespace''
            then map_option (\<lambda>x. t\<lparr>st_Service := s\<lparr>svc_Namespace := x\<rparr>\<rparr>) (decodeString v (svc_Namespace s))
          else if f = ''Name'' then map_option (\<lambda>x. t\<lparr>st_Service := s\<lparr>svc_Name := x\<rparr>\<rparr>) (decodeString v (svc_Name s))
          else if f = ''LoadBalancerClass''
            then map_option (\<lambda>x. t\<lparr>st_Service := s\<lparr>LoadBalancerClass := x\<rparr>\<rparr>) (decodeString v (LoadBalancerClass s))
          else if f = ''ExternalIP''
            then map_option (\<lambda>x. t\<lparr>st_Service := s\<lparr>ExternalIP := x\<rparr>\<rparr>) (decodeString v (ExternalIP s))
          else map_option (\<lambda>ps. t\<lparr>st_Ports := ps\<rparr>)
            (decodeSlice (decodeStruct decodePortField) zeroPort v (st_Ports t)))"

definition zeroService :: service_target where
  "zeroService = \<lparr>st_Service = \<lparr>svc_Namespace = [], svc_Name = [], LoadBalancerClass = [], ExternalIP = [], Ports = []\<rparr>,
     st_Ports = ([], [])\<rparr>"

definition portOf :: "port_target \<Rightarrow> service_port" where
  "portOf t = (pt_Port t)\<lparr>Backends := fst (pt_Backends t)\<rparr>"

definition serviceOf :: "service_target \<Rightarrow> p_service" where
  "serviceOf t = (st_Service t)\<lparr>Ports := map portOf (fst (st_Ports t))\<rparr>"

definition decodeService :: "json \<Rightarrow> p_service option" where
  "decodeService v = map_option serviceOf (decodeStruct decodeServiceField v zeroService)"

section \<open>Requests and responses\<close>

record http_request =
  Method :: string
  url_Path :: string
  url_EscapedPath :: string
  req_Body :: string

record http_response =
  StatusCode :: int
  Allow :: string
  ContentType :: string
  resp_Body :: string

datatype request_error =
    BadPath
  | BadEscape string
  | EmptyName
  | BodyTooLarge int
  | DecodeBody
  | NotOneObject
  | NamespaceMismatch
  | NameMismatch
  | InvalidRequest validate_error
  | ApplyDesired engine_error
  | MethodNotAllowed
  | NotReady

text \<open>
  The messages of the errors; \<open>txt\<close> gives the ones that wrap an error of a library or of
  \<open>ValidateService\<close>.
\<close>

definition messageOf :: "(request_error \<Rightarrow> string) \<Rightarrow> request_error \<Rightarrow> string" where
  "messageOf txt e =
     (case e of
        BadPath \<Rightarrow> ''path must match /services/{namespace}/{name}''
      | EmptyName \<Rightarrow> ''path must include namespace and name''
      | BodyTooLarge n \<Rightarrow> ''request body exceeds '' @ FormatInt n @ '' bytes''
      | NotOneObject \<Rightarrow> ''request body must contain exactly one JSON object''
      | NamespaceMismatch \<Rightarrow> ''request body namespace does not match request path''
      | NameMismatch \<Rightarrow> ''request body name does not match request path''
      | ApplyDesired _ \<Rightarrow> ''failed to apply desired state''
      | MethodNotAllowed \<Rightarrow> ''method not allowed''
      | NotReady \<Rightarrow> ''server not ready''
      | _ \<Rightarrow> txt e)"

text \<open>\<open>writeJSON\<close> and its callers.\<close>

definition writeJSON :: "int \<Rightarrow> json \<Rightarrow> http_response" where
  "writeJSON statusCode payload =
     \<lparr>StatusCode = statusCode, Allow = [], ContentType = ''application/json'',
      resp_Body = encode payload @ [CHR 0x0A]\<rparr>"

definition writeJSONError :: "(request_error \<Rightarrow> string) \<Rightarrow> int \<Rightarrow> request_error \<Rightarrow> http_response" where
  "writeJSONError txt statusCode e = writeJSON statusCode (JObject [(''error'', JString (messageOf txt e))])"

definition writeMethodNotAllowed :: "(request_error \<Rightarrow> string) \<Rightarrow> string list \<Rightarrow> http_response" where
  "writeMethodNotAllowed txt methods = (writeJSONError txt 405 MethodNotAllowed)\<lparr>Allow := Join '', '' methods\<rparr>"

definition changedResponse :: "bool \<Rightarrow> json" where
  "changedResponse changed = JObject [(''changed'', JBool changed)]"

section \<open>Reading a request\<close>

text \<open>
  \<open>url.PathUnescape\<close>; \<open>None\<close> is an error.
\<close>

fun PathUnescape :: "string \<Rightarrow> string option" where
  "PathUnescape [] = Some []"
| "PathUnescape (c # s) =
     (if c = CHR ''%'' then
        (case s of
           a # b # t \<Rightarrow>
             (case (hexVal a, hexVal b) of
                (Some x, Some y) \<Rightarrow> map_option (\<lambda>r. char_of (x * 16 + y) # r) (PathUnescape t)
              | _ \<Rightarrow> None)
         | _ \<Rightarrow> None)
      else map_option (\<lambda>r. c # r) (PathUnescape s))"

definition serviceRefFromPath :: "string \<Rightarrow> (request_error, service_ref) result" where
  "serviceRefFromPath requestPath =
     (case Split CHR ''/'' (Trim CHR ''/'' requestPath) of
        [s0, s1, s2] \<Rightarrow>
          if s0 \<noteq> ''services'' then Inl BadPath
          else
            (case PathUnescape s1 of None \<Rightarrow> Inl (BadEscape s1)
             | Some namespace \<Rightarrow>
                 (case PathUnescape s2 of None \<Rightarrow> Inl (BadEscape s2)
                  | Some name \<Rightarrow>
                      if namespace = [] \<or> name = [] then Inl EmptyName
                      else Inr \<lparr>Namespace = namespace, Name = name\<rparr>))
      | _ \<Rightarrow> Inl BadPath)"

text \<open>
  \<open>decodeServiceRequest\<close>: at most \<open>limit\<close> bytes of the body are readable, and reading on
  fails when there are more.  The first \<open>Decode\<close> takes one value; an object or array is
  complete at its closing bracket, any other value only at the byte after it or at the end
  of the body.  The second \<open>Decode\<close> must find nothing but white space up to the end.
\<close>

definition selfDelimiting :: "json \<Rightarrow> bool" where
  "selfDelimiting v = (case v of JObject _ \<Rightarrow> True | JArray _ \<Rightarrow> True | _ \<Rightarrow> False)"

definition decodeServiceRequest :: "int \<Rightarrow> string \<Rightarrow> (request_error, p_service) result" where
  "decodeServiceRequest limit body =
     (let available = take (nat limit) body; cut = (limit < int (length body)) in
      case parseJson available of
        Bad \<Rightarrow> Inl DecodeBody
      | NoFuel \<Rightarrow> Inl DecodeBody
      | More \<Rightarrow> if cut then Inl (BodyTooLarge limit) else Inl DecodeBody
      | Value v rest \<Rightarrow>
          if cut \<and> rest = [] \<and> \<not> selfDelimiting v then Inl (BodyTooLarge limit)
          else case decodeService v of
            None \<Rightarrow> Inl DecodeBody
          | Some service \<Rightarrow>
              if cut \<or> skipSpace rest \<noteq> [] then Inl NotOneObject else Inr service)"

section \<open>The handler\<close>

definition DefaultMaxRequestBodyBytes :: int where
  "DefaultMaxRequestBodyBytes = 1048576"

record 'w handler =
  h_engine :: "'w engine"
  maxRequestBodyBytes :: int
  ready :: bool

definition NewHandler :: "'w engine \<Rightarrow> int \<Rightarrow> 'w handler" where
  "NewHandler engine cfgMaxRequestBodyBytes =
     \<lparr>h_engine = engine,
      maxRequestBodyBytes =
        (if cfgMaxRequestBodyBytes \<le> 0 then DefaultMaxRequestBodyBytes else cfgMaxRequestBodyBytes),
      ready = True\<rparr>"

definition okText :: http_response where
  "okText = \<lparr>StatusCode = 200, Allow = [], ContentType = [], resp_Body = ''ok''\<rparr>"

definition handleHealthz :: "(request_error \<Rightarrow> string) \<Rightarrow> http_request \<Rightarrow> http_response" where
  "handleHealthz txt r = (if Method r \<noteq> ''GET'' then writeMethodNotAllowed txt [''GET''] else okText)"

definition handleReadyz :: "(request_error \<Rightarrow> string) \<Rightarrow> 'w handler \<Rightarrow> http_request \<Rightarrow> http_response" where
  "handleReadyz txt h r =
     (if Method r \<noteq> ''GET'' then writeMethodNotAllowed txt [''GET'']
      else if \<not> ready h then writeJSONError txt 503 NotReady
      else okText)"

definition handleEnsureService ::
  "(request_error \<Rightarrow> string) \<Rightarrow> http_request \<Rightarrow> service_ref \<Rightarrow> 'w handler \<Rightarrow> 'w \<Rightarrow> http_response \<times> 'w handler \<times> 'w" where
  "handleEnsureService txt r ref h w =
     (case decodeServiceRequest (maxRequestBodyBytes h) (req_Body r) of
        Inl err \<Rightarrow> (writeJSONError txt 400 err, h, w)
      | Inr service \<Rightarrow>
          if svc_Namespace service \<noteq> [] \<and> svc_Namespace service \<noteq> Namespace ref
            then (writeJSONError txt 400 NamespaceMismatch, h, w)
          else if svc_Name service \<noteq> [] \<and> svc_Name service \<noteq> Name ref
            then (writeJSONError txt 400 NameMismatch, h, w)
          else
            let service = service\<lparr>svc_Namespace := Namespace ref, svc_Name := Name ref\<rparr> in
            case ValidateService (normalizeService service) of
              Some err \<Rightarrow> (writeJSONError txt 400 (InvalidRequest err), h, w)
            | None \<Rightarrow>
                (case Engine_Ensure service (h_engine h) w of
                   (Inl err, e, w) \<Rightarrow> (writeJSONError txt 500 (ApplyDesired err), h\<lparr>h_engine := e\<rparr>, w)
                 | (Inr changed, e, w) \<Rightarrow> (writeJSON 200 (changedResponse changed), h\<lparr>h_engine := e\<rparr>, w)))"

definition handleDeleteService ::
  "(request_error \<Rightarrow> string) \<Rightarrow> service_ref \<Rightarrow> 'w handler \<Rightarrow> 'w \<Rightarrow> http_response \<times> 'w handler \<times> 'w" where
  "handleDeleteService txt ref h w =
     (case Engine_Delete ref (h_engine h) w of
        (Inl err, e, w) \<Rightarrow> (writeJSONError txt 500 (ApplyDesired err), h\<lparr>h_engine := e\<rparr>, w)
      | (Inr changed, e, w) \<Rightarrow> (writeJSON 200 (changedResponse changed), h\<lparr>h_engine := e\<rparr>, w))"

definition handleServices ::
  "(request_error \<Rightarrow> string) \<Rightarrow> http_request \<Rightarrow> 'w handler \<Rightarrow> 'w \<Rightarrow> http_response \<times> 'w handler \<times> 'w" where
  "handleServices txt r h w =
     (case serviceRefFromPath (url_Path r) of
        Inl err \<Rightarrow> (writeJSONError txt 400 err, h, w)
      | Inr ref \<Rightarrow>
          if Method r = ''PUT'' then handleEnsureService txt r ref h w
          else if Method r = ''DELETE'' then handleDeleteService txt ref h w
          else (writeMethodNotAllowed txt [''PUT'', ''DELETE''], h, w))"

text \<open>
  The request multiplexer with the four patterns that \<open>NewHandler\<close> registers.  It matches
  the escaped path, segment by unescaped segment; a path that is not clean is answered with
  a redirection and a path without a pattern with 404, both by the library and without the
  handler: \<open>None\<close>.
\<close>

definition cleanURLPath :: "string \<Rightarrow> string" where
  "cleanURLPath p =
     (if p = [] then ''/''
      else
        let q = (if prefix ''/'' p then p else CHR ''/'' # p); np = Clean q in
        if suffix ''/'' q \<and> np \<noteq> ''/'' then np @ ''/'' else np)"

datatype route = RouteHealthz | RouteReadyz | RouteServices

definition routeOf :: "http_request \<Rightarrow> route option" where
  "routeOf r =
     (let p = url_EscapedPath r in
      if Method r \<noteq> ''CONNECT'' \<and> cleanURLPath p \<noteq> p then None
      else
        let segs = map (\<lambda>s. case PathUnescape s of None \<Rightarrow> s | Some u \<Rightarrow> u) (Split CHR ''/'' (drop 1 p)) in
        if \<not> prefix ''/'' p then None
        else case segs of
          [s] \<Rightarrow> if s = ''healthz'' then Some RouteHealthz else if s = ''readyz'' then Some RouteReadyz
                 else if s = ''services'' then Some RouteServices else None
        | s # _ \<Rightarrow> if s = ''services'' then Some RouteServices else None
        | [] \<Rightarrow> None)"

definition serveHTTP ::
  "(request_error \<Rightarrow> string) \<Rightarrow> http_request \<Rightarrow> 'w handler \<Rightarrow> 'w \<Rightarrow> http_response option \<times> 'w handler \<times> 'w" where
  "serveHTTP txt r h w =
     (case routeOf r of
        None \<Rightarrow> (None, h, w)
      | Some RouteHealthz \<Rightarrow> (Some (handleHealthz txt r), h, w)
      | Some RouteReadyz \<Rightarrow> (Some (handleReadyz txt h r), h, w)
      | Some RouteServices \<Rightarrow> (case handleServices txt r h w of (resp, h, w) \<Rightarrow> (Some resp, h, w)))"

section \<open>Which bodies are read\<close>

lemma decodeServiceRequest_accepts:
  "decodeServiceRequest limit body = Inr s \<longleftrightarrow>
     int (length body) \<le> limit \<and>
     (\<exists>v rest. parseJson body = Value v rest \<and> skipSpace rest = [] \<and> decodeService v = Some s)"
proof (cases "int (length body) \<le> limit")
  case True
  then have "take (nat limit) body = body" by simp
  with True show ?thesis
    by (auto simp: decodeServiceRequest_def Let_def split: scanned.splits option.splits)
next
  case False
  then show ?thesis by (auto simp: decodeServiceRequest_def Let_def split: scanned.splits option.splits if_splits)
qed

text \<open>
  C20: Reading a request body terminates with an answer: with any fuel above twice its length
  the scanner never runs out and the answer does not depend on the fuel, and a body is
  accepted exactly when it is within the limit and holds one JSON value, followed by nothing
  but white space, that decodes into a Service.
\<close>

theorem request_decoding_terminates:
  assumes "2 * length body + 3 \<le> fuel"
  shows "parseValue fuel maxNestingDepth body \<noteq> NoFuel \<and>
    (decodeServiceRequest limit body = Inr s \<longleftrightarrow>
     int (length body) \<le> limit \<and>
     (\<exists>v rest. parseValue fuel maxNestingDepth body = Value v rest \<and> skipSpace rest = [] \<and> decodeService v = Some s))"
  using parseJson_any_fuel [OF assms] parseJson_total decodeServiceRequest_accepts by simp

theorem request_decoding_terminates_witness:
  "parseValue 7 maxNestingDepth ''{}'' \<noteq> NoFuel \<and> decodeServiceRequest 2 ''{}'' = Inr (serviceOf zeroService)"
proof -
  have "length ''{}'' = 2" by simp
  moreover have "parseValue 7 maxNestingDepth ''{}'' = Value (JObject []) []" "decodeService (JObject []) = Some (serviceOf zeroService)"
    "skipSpace [] = []" by code_simp+
  ultimately show ?thesis
    using request_decoding_terminates [of "''{}''" 7 2 "serviceOf zeroService"] by simp
qed

end
