(* ===== verification/Dataplane_Api.thy ===== *)
theory Dataplane_Api
  imports Http Provider_Contract
begin

text \<open>
  \<open>internal/provider/dataplaneapi/provider.go\<close>: the provider that sends the desired state to
  the dataplane over HTTP.  Parsing and printing URLs (\<open>net/url\<close>) and the network are
  parameters.  The theorems show that the dataplane's handler reads back what the provider
  writes: the Service from the body of the request and the reference from its path.
\<close>

section \<open>URLs\<close>

record go_url =
  Scheme :: string
  Host :: string
  u_Path :: string
  u_User :: string
  RawQuery :: string
  Fragment :: string

record url_lib =
  url_Parse :: "string \<Rightarrow> (string, go_url) result"
  url_String :: "go_url \<Rightarrow> string"

definition IsAbs :: "go_url \<Rightarrow> bool" where
  "IsAbs u = (Scheme u \<noteq> [])"

section \<open>The provider\<close>

record api_provider =
  baseURL :: go_url
  clientTimeout :: int

datatype api_config_error = BaseURLEmpty | ParseBaseURL string | BaseURLNotAbsolute | BaseURLScheme | TimeoutNotPositive

definition NewApiProvider :: "url_lib \<Rightarrow> string \<Rightarrow> int \<Rightarrow> (api_config_error, api_provider) result" where
  "NewApiProvider lib BaseURL Timeout =
     (let base = TrimSpace BaseURL in
      if base = [] then Inl BaseURLEmpty
      else case url_Parse lib base of
        Inl err \<Rightarrow> Inl (ParseBaseURL err)
      | Inr parsedURL \<Rightarrow>
          if \<not> IsAbs parsedURL \<or> Host parsedURL = [] then Inl BaseURLNotAbsolute
          else if Scheme parsedURL \<noteq> ''http'' \<and> Scheme parsedURL \<noteq> ''https'' then Inl BaseURLScheme
          else if Timeout \<le> 0 then Inl TimeoutNotPositive
          else Inr \<lparr>baseURL = parsedURL, clientTimeout = Timeout\<rparr>)"

text \<open>\<open>path.Join\<close> of elements of which the first is not empty.\<close>

definition serviceURL :: "api_provider \<Rightarrow> service_ref \<Rightarrow> go_url" where
  "serviceURL p ref =
     (baseURL p)\<lparr>u_Path :=
        Clean (Join ''/'' [''/'', u_Path (baseURL p), ''services'', Namespace ref, Name ref])\<rparr>"

text \<open>The payload structs, by the JSON values their tags give them.\<close>

definition backendPayload :: "backend_endpoint \<Rightarrow> json" where
  "backendPayload b = JObject [(''address'', JString (Address b)), (''port'', JNumber (FormatInt (Port b)))]"

definition portPayload :: "service_port \<Rightarrow> json" where
  "portPayload p = JObject [(''name'', JString (sp_Name p)), (''protocol'', JString (Protocol p)),
     (''port'', JNumber (FormatInt (sp_Port p))), (''targetPort'', JString (TargetPort p)),
     (''backends'', JArray (map backendPayload (Backends p)))]"

definition servicePayloadFromService :: "p_service \<Rightarrow> json" where
  "servicePayloadFromService s = JObject [(''namespace'', JString (svc_Namespace s)), (''name'', JString (svc_Name s)),
     (''loadBalancerClass'', JString (LoadBalancerClass s)), (''externalIP'', JString (ExternalIP s)),
     (''ports'', JArray (map portPayload (Ports s)))]"

text \<open>
  One exchange with the server, from \<open>http.NewRequestWithContext\<close> over \<open>client.Do\<close> to
  \<open>io.ReadAll\<close>: each can fail; otherwise the status code, the status text and the body.
\<close>

datatype exchange = NotCreated string | NotAnswered string | NotRead string | Answered int string string

datatype dataplane_error =
    CreateRequest string service_ref string
  | DoRequest string service_ref string
  | ReadResponse string service_ref string
  | UnexpectedStatus string service_ref string string
  | DecodeChanged string service_ref
  | MissingChanged string service_ref

definition decodeChangedField :: "string \<Rightarrow> json \<Rightarrow> bool option \<Rightarrow> bool option option" where
  "decodeChangedField key v old =
     (case fieldOf [''changed''] key of None \<Rightarrow> Some old | Some _ \<Rightarrow> decodeBoolPtr v old)"

text \<open>\<open>json.Unmarshal\<close> into a \<open>changedResponse\<close>: one value and nothing but white space after it.\<close>

definition unmarshalChanged :: "string \<Rightarrow> bool option option" where
  "unmarshalChanged body =
     (case parseJson body of
        Value v rest \<Rightarrow> if skipSpace rest = [] then decodeStruct decodeChangedField v None else None
      | _ \<Rightarrow> None)"

type_synonym 'w http_client = "string \<Rightarrow> go_url \<Rightarrow> string \<Rightarrow> string \<Rightarrow> 'w \<Rightarrow> exchange \<times> 'w"

definition doRequest ::
  "'w http_client \<Rightarrow> api_provider \<Rightarrow> string \<Rightarrow> service_ref \<Rightarrow> string \<Rightarrow> string \<Rightarrow> 'w \<Rightarrow>
   (dataplane_error, bool) result \<times> 'w" where
  "doRequest send p meth ref body contentType w =
     (case send meth (serviceURL p ref) body contentType w of
        (NotCreated err, w) \<Rightarrow> (Inl (CreateRequest meth ref err), w)
      | (NotAnswered err, w) \<Rightarrow> (Inl (DoRequest meth ref err), w)
      | (NotRead err, w) \<Rightarrow> (Inl (ReadResponse meth ref err), w)
      | (Answered code status bodyBytes, w) \<Rightarrow>
          if code < 200 \<or> 300 \<le> code then (Inl (UnexpectedStatus meth ref status (TrimSpace bodyBytes)), w)
          else case unmarshalChanged bodyBytes of
            None \<Rightarrow> (Inl (DecodeChanged meth ref), w)
          | Some None \<Rightarrow> (Inl (MissingChanged meth ref), w)
          | Some (Some changed) \<Rightarrow> (Inr changed, w))"

definition Api_Ensure ::
  "'w http_client \<Rightarrow> api_provider \<Rightarrow> p_service \<Rightarrow> 'w \<Rightarrow> (dataplane_error, bool) result \<times> 'w" where
  "Api_Ensure send p service w =
     doRequest send p ''PUT'' (Ref service) (encode (servicePayloadFromService service)) ''application/json'' w"

definition Api_Delete ::
  "'w http_client \<Rightarrow> api_provider \<Rightarrow> service_ref \<Rightarrow> 'w \<Rightarrow> (dataplane_error, bool) result \<times> 'w" where
  "Api_Delete send p ref w = doRequest send p ''DELETE'' ref [] [] w"

definition apiOps :: "'w http_client \<Rightarrow> api_provider \<Rightarrow> ('w, dataplane_error) provider_ops" where
  "apiOps send p = \<lparr>prov_Ensure = Api_Ensure send p, prov_Delete = Api_Delete send p\<rparr>"

section \<open>The payload read back\<close>

definition readPort :: "service_port \<Rightarrow> service_port" where
  "readPort p = \<lparr>sp_Name = toValidUTF8 (sp_Name p), Protocol = toValidUTF8 (Protocol p), sp_Port = sp_Port p,
     TargetPort = toValidUTF8 (TargetPort p),
     Backends = map (\<lambda>b. \<lparr>Address = toValidUTF8 (Address b), Port = Port b\<rparr>) (Backends p)\<rparr>"

definition readService :: "p_service \<Rightarrow> p_service" where
  "readService s = \<lparr>svc_Namespace = toValidUTF8 (svc_Namespace s), svc_Name = toValidUTF8 (svc_Name s),
     LoadBalancerClass = toValidUTF8 (LoadBalancerClass s), ExternalIP = toValidUTF8 (ExternalIP s),
     Ports = map readPort (Ports s)\<rparr>"

definition int32 :: "int \<Rightarrow> bool" where
  "int32 v = (- (2 ^ 31) \<le> v \<and> v < 2 ^ 31)"

definition int32Ports :: "p_service \<Rightarrow> bool" where
  "int32Ports s = list_all (\<lambda>p. int32 (sp_Port p) \<and> list_all (\<lambda>b. int32 (Port b)) (Backends p)) (Ports s)"

lemma toValidUTF8_ascii: "list_all (\<lambda>c. byte c < (0x80::nat)) s \<Longrightarrow> toValidUTF8 s = s"
  by (induction s) (simp_all add: decodeRune_ascii)

declare toValidUTF8.simps [simp del]

lemma field_names [simp]:
  "fieldOf [''Address'', ''Port''] ''address'' = Some ''Address''"
  "fieldOf [''Address'', ''Port''] ''port'' = Some ''Port''"
  "fieldOf [''Name'', ''Protocol'', ''Port'', ''TargetPort'', ''Backends''] ''name'' = Some ''Name''"
  "fieldOf [''Name'', ''Protocol'', ''Port'', ''TargetPort'', ''Backends''] ''protocol'' = Some ''Protocol''"
  "fieldOf [''Name'', ''Protocol'', ''Port'', ''TargetPort'', ''Backends''] ''port'' = Some ''Port''"
  "fieldOf [''Name'', ''Protocol'', ''Port'', ''TargetPort'', ''Backends''] ''targetPort'' = Some ''TargetPort''"
  "fieldOf [''Name'', ''Protocol'', ''Port'', ''TargetPort'', ''Backends''] ''backends'' = Some ''Backends''"
  "fieldOf [''Namespace'', ''Name'', ''LoadBalancerClass'', ''ExternalIP'', ''Ports''] ''namespace'' = Some ''Namespace''"
  "fieldOf [''Namespace'', ''Name'', ''LoadBalancerClass'', ''ExternalIP'', ''Ports''] ''name'' = Some ''Name''"
  "fieldOf [''Namespace'', ''Name'', ''LoadBalancerClass'', ''ExternalIP'', ''Ports''] ''loadBalancerClass'' =
     Some ''LoadBalancerClass''"
  "fieldOf [''Namespace'', ''Name'', ''LoadBalancerClass'', ''ExternalIP'', ''Ports''] ''externalIP'' = Some ''ExternalIP''"
  "fieldOf [''Namespace'', ''Name'', ''LoadBalancerClass'', ''ExternalIP'', ''Ports''] ''ports'' = Some ''Ports''"
  "fieldOf [''changed''] ''changed'' = Some ''changed''"
  by code_simp+

lemma payload_keys [simp]:
  "toValidUTF8 ''address'' = ''address''" "toValidUTF8 ''port'' = ''port''" "toValidUTF8 ''name'' = ''name''"
  "toValidUTF8 ''protocol'' = ''protocol''" "toValidUTF8 ''targetPort'' = ''targetPort''"
  "toValidUTF8 ''backends'' = ''backends''" "toValidUTF8 ''namespace'' = ''namespace''"
  "toValidUTF8 ''loadBalancerClass'' = ''loadBalancerClass''" "toValidUTF8 ''externalIP'' = ''externalIP''"
  "toValidUTF8 ''ports'' = ''ports''" "toValidUTF8 ''changed'' = ''changed''"
  by (rule toValidUTF8_ascii, simp)+

lemma decodeInt32_FormatInt: "decodeInt32 (JNumber (FormatInt v)) old = (if int32 v then Some v else None)"
  by (auto simp: decodeInt32_def int32_def Atoi_FormatInt)

lemma decodeString_simp [simp]: "decodeString (JString s) old = Some s"
  by (simp add: decodeString_def)

lemma decode_backend:
  "decodeStruct decodeBackendField (readBack (backendPayload b)) old =
   (if int32 (Port b) then Some \<lparr>Address = toValidUTF8 (Address b), Port = Port b\<rparr> else None)"
  by (simp add: backendPayload_def decodeStruct_def decodeBackendField_def decodeInt32_FormatInt)

lemma decode_slice:
  assumes "\<And>x. dec (f x) zero = (if P x then Some (g x) else None)"
  shows "decodeSlice dec zero (JArray (map f xs)) ([], []) = (if list_all P xs then Some (map g xs, []) else None)"
proof -
  have "decodeElements dec zero (map f xs) [] = (if list_all P xs then Some (map g xs, []) else None)"
    by (induction xs) (simp_all add: assms)
  then show ?thesis by (cases xs) (simp_all add: decodeSlice_def)
qed

lemma decode_port:
  "decodeStruct decodePortField (readBack (portPayload p)) zeroPort =
   (if int32 (sp_Port p) \<and> list_all (\<lambda>b. int32 (Port b)) (Backends p)
    then Some \<lparr>pt_Port = (readPort p)\<lparr>Backends := []\<rparr>, pt_Backends = (Backends (readPort p), [])\<rparr> else None)"
  using decode_slice [of "decodeStruct decodeBackendField" "\<lambda>b. readBack (backendPayload b)", OF decode_backend,
      of zeroBackend "Backends p"]
  by (auto simp: portPayload_def decodeStruct_def decodePortField_def decodeInt32_FormatInt zeroPort_def readPort_def
      comp_def)

lemma decode_service:
  "decodeService (readBack (servicePayloadFromService s)) = (if int32Ports s then Some (readService s) else None)"
proof -
  let ?t = "\<lambda>p. \<lparr>pt_Port = (readPort p)\<lparr>Backends := []\<rparr>, pt_Backends = (Backends (readPort p), [])\<rparr>"
  have "portOf (?t p) = readPort p" for p by (simp add: portOf_def)
  then have m: "map (\<lambda>p. portOf (?t p)) (Ports s) = map readPort (Ports s)" by simp
  show ?thesis
    using decode_slice [of "decodeStruct decodePortField" "\<lambda>p. readBack (portPayload p)" zeroPort, OF decode_port,
        of "Ports s"] m
    by (auto simp: decodeService_def servicePayloadFromService_def decodeStruct_def decodeServiceField_def
        zeroService_def serviceOf_def readService_def int32Ports_def comp_def)
qed

lemma payload_printed: "printed maxNestingDepth (servicePayloadFromService s)"
proof -
  have "printed (Suc (Suc (Suc (Suc (Suc d))))) (servicePayloadFromService s)" for d
    by (auto simp: servicePayloadFromService_def portPayload_def backendPayload_def list_all_iff)
  from this [of "9995"] show ?thesis by (simp add: maxNestingDepth_def)
qed

lemma decode_request_iff:
  "decodeServiceRequest limit (encode (servicePayloadFromService s)) = Inr x \<longleftrightarrow>
   int (length (encode (servicePayloadFromService s))) \<le> limit \<and> int32Ports s \<and> x = readService s"
proof (cases "limit < int (length (encode (servicePayloadFromService s)))")
  case True
  then show ?thesis by (auto simp: decodeServiceRequest_def Let_def split: scanned.splits option.splits if_splits)
next
  case False
  let ?e = "encode (servicePayloadFromService s)"
  have "parseJson ?e = Value (readBack (servicePayloadFromService s)) []"
    using parseJson_encode [OF payload_printed, of "[]"] by simp
  then show ?thesis using False by (auto simp: decodeServiceRequest_def Let_def decode_service skipSpace_def)
qed

section \<open>Paths\<close>

text \<open>The names that travel unchanged in a path; names of Kubernetes objects are among them.\<close>

definition legalName :: "string \<Rightarrow> bool" where
  "legalName n = (n \<noteq> [] \<and> CHR ''/'' \<notin> set n \<and> CHR ''%'' \<notin> set n \<and> n \<noteq> ''.'' \<and> n \<noteq> ''..'')"

definition legalRef :: "service_ref \<Rightarrow> bool" where
  "legalRef ref = (legalName (Namespace ref) \<and> legalName (Name ref))"

definition rootPath :: "api_provider \<Rightarrow> bool" where
  "rootPath p = (u_Path (baseURL p) = [] \<or> u_Path (baseURL p) = ''/'')"

definition servicePath :: "service_ref \<Rightarrow> string" where
  "servicePath ref = ''/services/'' @ Namespace ref @ ''/'' @ Name ref"

definition plainSegment :: "string \<Rightarrow> bool" where
  "plainSegment s = (s \<noteq> [] \<and> CHR ''/'' \<notin> set s \<and> s \<noteq> ''.'' \<and> s \<noteq> ''..'')"

lemma cleanParts_plain: "list_all plainSegment ps \<Longrightarrow> cleanParts b out ps = rev out @ ps"
  by (induction ps arbitrary: out) (auto simp: plainSegment_def)

lemma split_services:
  assumes "CHR ''/'' \<notin> set a" "CHR ''/'' \<notin> set b"
  shows "Split CHR ''/'' (''services/'' @ a @ CHR ''/'' # b) = [''services'', a, b]"
  using assms by (simp add: Split_append Split_no_sep)

lemma serviceURL_path:
  assumes "rootPath p" "legalRef ref"
  shows "u_Path (serviceURL p ref) = servicePath ref"
proof -
  have l: "CHR ''/'' \<notin> set (Namespace ref)" "CHR ''/'' \<notin> set (Name ref)" and
    p: "list_all plainSegment [''services'', Namespace ref, Name ref]"
    using assms(2) by (simp_all add: legalRef_def legalName_def plainSegment_def)
  have "cleanParts True [] (Split CHR ''/'' (Join ''/'' [''/'', u_Path (baseURL p), ''services'', Namespace ref, Name ref]))
      = cleanParts True [] [''services'', Namespace ref, Name ref]"
    using assms(1) split_services [OF l] by (auto simp: rootPath_def)
  then show ?thesis
    using cleanParts_plain [OF p, of True "[]"] by (simp add: serviceURL_def Clean_def servicePath_def)
qed

lemma PathUnescape_plain: "CHR ''%'' \<notin> set s \<Longrightarrow> PathUnescape s = Some s"
  by (induction s) auto

lemma serviceRefFromPath_servicePath:
  assumes "legalRef ref"
  shows "serviceRefFromPath (servicePath ref) = Inr ref"
proof -
  have l: "legalName (Namespace ref)" "legalName (Name ref)" using assms by (simp_all add: legalRef_def)
  have "Name ref \<noteq> []" "CHR ''/'' \<notin> set (Name ref)" using l(2) by (simp_all add: legalName_def)
  then obtain y ys where y: "rev (Name ref) = y # ys" "y \<noteq> CHR ''/''"
    by (metis list.exhaust rev_is_Nil_conv set_rev list.set_intros(1))
  have "Trim CHR ''/'' (servicePath ref) = ''services/'' @ Namespace ref @ CHR ''/'' # Name ref"
    using y by (simp add: Trim_def servicePath_def)
  then show ?thesis
    using l split_services [of "Namespace ref" "Name ref"]
    by (simp add: serviceRefFromPath_def legalName_def PathUnescape_plain)
qed

section \<open>Requests on the wire\<close>

text \<open>
  A URL is sent with its path escaped as \<open>URL.EscapedPath\<close> does it, and the server sees both
  the escaped and the decoded path.
\<close>

definition upperHex :: "nat \<Rightarrow> char" where
  "upperHex d = char_of (if d < 10 then 48 + d else 55 + d)"

definition keptInPath :: "char \<Rightarrow> bool" where
  "keptInPath c = (isDigit c \<or> isUpper c \<or> CHR ''a'' \<le> c \<and> c \<le> CHR ''z'' \<or> c \<in> set ''-_.~$&+,/:;=@'')"

definition escapePath :: "string \<Rightarrow> string" where
  "escapePath p =
     concat (map (\<lambda>c. if keptInPath c then [c] else [CHR ''%'', upperHex (byte c div 16), upperHex (byte c mod 16)]) p)"

definition requestFor :: "string \<Rightarrow> go_url \<Rightarrow> string \<Rightarrow> http_request" where
  "requestFor meth u body =
     \<lparr>Method = meth, url_Path = u_Path u, url_EscapedPath = escapePath (u_Path u), req_Body = body\<rparr>"

lemma escapePath_simps [simp]:
  "escapePath [] = []" "escapePath (s @ t) = escapePath s @ escapePath t"
  "escapePath (c # s) = (if keptInPath c then [c] else [CHR ''%'', upperHex (byte c div 16), upperHex (byte c mod 16)]) @ escapePath s"
  by (simp_all add: escapePath_def)

lemma upperHex_not_slash: "d < 16 \<Longrightarrow> upperHex d \<noteq> CHR ''/''"
proof
  assume d: "d < 16" "upperHex d = CHR ''/''"
  have "byte (upperHex d) = (if d < 10 then 48 + d else 55 + d)" using d(1) by (simp add: upperHex_def of_char_of)
  then show False unfolding d(2) by (simp split: if_splits)
qed

lemma escapePath_plain:
  assumes "plainSegment s"
  shows "plainSegment (escapePath s)"
proof -
  have n: "CHR ''/'' \<notin> set (escapePath s)" if "CHR ''/'' \<notin> set s" for s
  proof -
    have "upperHex (byte c div 16) \<noteq> CHR ''/''" "upperHex (byte c mod 16) \<noteq> CHR ''/''" for c
    proof -
      have "byte c < 16 * (16::nat)" using nat_of_char_less_256 [of c] by simp
      then have "byte c div 16 < (16::nat)" by (rule less_mult_imp_div_less)
      then show "upperHex (byte c div 16) \<noteq> CHR ''/''" by (rule upperHex_not_slash)
      show "upperHex (byte c mod 16) \<noteq> CHR ''/''" by (rule upperHex_not_slash) simp
    qed
    then show ?thesis using that by (induction s) (auto dest: sym)
  qed
  have "escapePath s = s \<or> CHR ''%'' \<in> set (escapePath s)"
    by (induction s) auto
  then show ?thesis
  proof
    assume p: "CHR ''%'' \<in> set (escapePath s)"
    have "escapePath s \<noteq> []" "escapePath s \<noteq> ''.''" "escapePath s \<noteq> ''..''" using p by force+
    then show ?thesis using assms n [of s] by (simp add: plainSegment_def)
  qed (use assms in simp)
qed

lemma kept_services: "escapePath ''/services/'' = ''/services/''" "escapePath ''/'' = ''/''"
  by code_simp+

lemma routed:
  assumes "u_Path u = servicePath ref" "legalRef ref" 
  shows "routeOf (requestFor meth u body) = Some RouteServices"
proof -
  let ?a = "escapePath (Namespace ref)" and ?b = "escapePath (Name ref)"
  have pl: "list_all plainSegment [''services'', ?a, ?b]"
    using assms(2) escapePath_plain by (simp add: legalRef_def legalName_def plainSegment_def)
  then have l: "CHR ''/'' \<notin> set ?a" "CHR ''/'' \<notin> set ?b" "?b \<noteq> []" by (simp_all add: plainSegment_def)
  have e: "escapePath (u_Path u) = CHR ''/'' # ''services/'' @ ?a @ CHR ''/'' # ?b"
    unfolding assms(1) servicePath_def escapePath_simps(2) kept_services by simp
  note sp = split_services [OF l(1,2)]
  have c: "Clean (escapePath (u_Path u)) = escapePath (u_Path u)"
    using cleanParts_plain [OF pl, of True "[]"] sp unfolding e by (simp add: Clean_def)
  have "\<not> suffix ''/'' (escapePath (u_Path u))"
  proof
    assume "suffix ''/'' (escapePath (u_Path u))"
    then have "last (escapePath (u_Path u)) = CHR ''/''" by (auto simp: suffix_def)
    then have "last ?b = CHR ''/''" using e l(3) by simp
    then show False using l(2,3) last_in_set by metis
  qed
  then have "cleanURLPath (escapePath (u_Path u)) = escapePath (u_Path u)"
    using c e by (simp add: cleanURLPath_def Let_def)
  moreover have "Split CHR ''/'' (drop 1 (escapePath (u_Path u))) = [''services'', ?a, ?b]" using sp e by simp
  moreover have "prefix ''/'' (escapePath (u_Path u))" using e by simp
  ultimately show ?thesis by (simp add: routeOf_def requestFor_def Let_def PathUnescape_plain)
qed

section \<open>Properties\<close>

text \<open>
  C19: The handler of the dataplane accepts the body the provider sends for a Service exactly
  when it is within the limit and every port is a 32-bit number, and then reads back that
  Service, with bytes that are not UTF-8 replaced.
\<close>

theorem payload_roundtrip:
  "decodeServiceRequest limit (encode (servicePayloadFromService s)) = Inr x \<longleftrightarrow>
   int (length (encode (servicePayloadFromService s))) \<le> limit \<and> int32Ports s \<and> x = readService s"
  by (rule decode_request_iff)

text \<open>
  A request for a Service, with any base URL without a path of its own, is routed to the
  handler of Services, which reads back the reference of the Service from the path.
\<close>

theorem path_roundtrip:
  assumes "rootPath p" "legalRef ref"
  shows "routeOf (requestFor meth (serviceURL p ref) body) = Some RouteServices \<and>
    serviceRefFromPath (url_Path (requestFor meth (serviceURL p ref) body)) = Inr ref"
  using routed [OF serviceURL_path [OF assms] assms(2)] serviceRefFromPath_servicePath [OF assms(2)]
    serviceURL_path [OF assms]
  by (simp add: requestFor_def)

definition sampleProvider :: api_provider where
  "sampleProvider = \<lparr>baseURL = \<lparr>Scheme = ''http'', Host = ''dataplane:8090'', u_Path = [], u_User = [],
     RawQuery = [], Fragment = []\<rparr>, clientTimeout = 5\<rparr>"

theorem path_roundtrip_witness:
  "serviceRefFromPath (url_Path (requestFor ''PUT'' (serviceURL sampleProvider \<lparr>Namespace = ''web'', Name = ''shop''\<rparr>) [])) =
     Inr \<lparr>Namespace = ''web'', Name = ''shop''\<rparr>"
proof -
  have "rootPath sampleProvider" "legalRef \<lparr>Namespace = ''web'', Name = ''shop''\<rparr>"
    by (simp_all add: rootPath_def sampleProvider_def legalRef_def legalName_def)
  from path_roundtrip [OF this] show ?thesis by blast
qed

end
