(* ===== verification/Kube.thy ===== *)
theory Kube
  imports Provider_Model
begin

text \<open>
  The fields of the Kubernetes API objects that the program reads or writes: Services,
  their load-balancer status, and EndpointSlices (types of \<open>k8s.io/api\<close>).  A nil pointer
  is \<open>None\<close>.  Objects carry only the fields the program touches; every update of the
  program is a record update, so all other fields are kept by it.
\<close>

record ingress =
  IP :: string
  Hostname :: string

datatype int_or_string = FromInt int | FromString string

text \<open>\<open>IntOrString.String\<close>.\<close>

fun IntOrString_String :: "int_or_string \<Rightarrow> string" where
  "IntOrString_String (FromInt v) = FormatInt v"
| "IntOrString_String (FromString s) = s"

record kube_port =
  kp_Name :: string
  kp_Protocol :: string
  kp_Port :: int
  kp_TargetPort :: int_or_string

record kube_service =
  ks_Namespace :: string
  ks_Name :: string
  DeletionTimestamp :: "int option"
  Finalizers :: "string list"
  Generation :: int
  spec_Type :: string
  spec_LoadBalancerClass :: "string option"
  spec_Ports :: "kube_port list"
  status_Ingress :: "ingress list"

record endpoint =
  Addresses :: "string list"
  Ready :: "bool option"

record endpoint_port =
  ep_Name :: "string option"
  ep_Protocol :: "string option"
  ep_Port :: "int option"

record endpoint_slice =
  es_Namespace :: string
  es_Labels :: "(string \<times> string) list"
  es_ResourceVersion :: string
  es_Ports :: "endpoint_port list"
  es_Endpoints :: "endpoint list"

text \<open>\<open>discoveryv1.LabelServiceName\<close> and the other constants of the API the program names.\<close>

definition LabelServiceName :: string where
  "LabelServiceName = ''kubernetes.io/service-name''"

definition ServiceTypeLoadBalancer :: string where
  "ServiceTypeLoadBalancer = ''LoadBalancer''"

definition ProtocolTCP :: string where
  "ProtocolTCP = ''TCP''"

text \<open>Reading a missing key of a label map gives the empty string.\<close>

definition label :: "(string \<times> string) list \<Rightarrow> string \<Rightarrow> string" where
  "label ls k = (case map_of ls k of None \<Rightarrow> [] | Some v \<Rightarrow> v)"

type_synonym namespaced_name = "string \<times> string"

definition objectKey :: "kube_service \<Rightarrow> namespaced_name" where
  "objectKey s = (ks_Namespace s, ks_Name s)"

end
