(* ===== verification/Ipam.thy ===== *)
theory Ipam
  imports Kube
begin

text \<open>
  \<open>internal/ipam\<close>: parsing the configured address pool (\<open>pool.go\<close>) and choosing an
  address for a Service (\<open>allocator.go\<close>).  The theorems characterise \<open>ParsePool\<close> exactly,
  with its round trip, and \<open>Allocate\<close> on every branch: a returned address is in the pool
  and published by no other live matching Service, the Service's own address is kept
  whenever it can be, otherwise the first free address of the pool is taken, and the
  exhaustion error is returned exactly when every address of the pool is in use.
\<close>

section \<open>The pool\<close>

datatype pool_error =
    NotAnIPAddress nat string parse_error
  | NotIPv4Address nat string
  | DuplicateIPv4 string
  | NoIPv4Address

definition Contains :: "addr list \<Rightarrow> addr \<Rightarrow> bool" where
  "Contains pool a = (a \<in> set pool)"

text \<open>
  The loop of \<open>ParsePool\<close>: \<open>index\<close> counts the parts, \<open>pool\<close> is what was appended so far;
  the set \<open>seen\<close> of the code holds exactly the addresses of \<open>pool\<close>.
\<close>

fun ParsePool_loop :: "nat \<Rightarrow> addr list \<Rightarrow> string list \<Rightarrow> (pool_error, addr list) result" where
  "ParsePool_loop index pool [] = Inr pool"
| "ParsePool_loop index pool (part # parts) =
     (let candidate = TrimSpace part in
      if candidate = [] then ParsePool_loop (index + 1) pool parts
      else case ParseAddr candidate of
        Inl err \<Rightarrow> Inl (NotAnIPAddress (index + 1) candidate err)
      | Inr a \<Rightarrow>
          if \<not> Is4 a then Inl (NotIPv4Address (index + 1) candidate)
          else if a \<in> set pool then Inl (DuplicateIPv4 candidate)
          else ParsePool_loop (index + 1) (pool @ [a]) parts)"

definition ParsePool :: "string \<Rightarrow> (pool_error, addr list) result" where
  "ParsePool raw =
     (case ParsePool_loop 0 [] (Split CHR '','' raw) of
        Inl e \<Rightarrow> Inl e
      | Inr pool \<Rightarrow> if pool = [] then Inl NoIPv4Address else Inr pool)"

section \<open>The allocator\<close>

datatype alloc_error = ServiceIsNil | PoolIsEmpty | ErrNoFreeIP

record allocation =
  alloc_IP :: addr
  Reused :: bool

record allocator =
  pool :: "addr list"
  matches :: "(kube_service option \<Rightarrow> bool) option"

definition NewAllocator :: "addr list \<Rightarrow> (kube_service option \<Rightarrow> bool) option \<Rightarrow> allocator" where
  "NewAllocator p m = \<lparr>pool = p, matches = m\<rparr>"

definition ipam_serviceKey :: "kube_service option \<Rightarrow> namespaced_name" where
  "ipam_serviceKey service =
     (case service of None \<Rightarrow> ([], []) | Some s \<Rightarrow> (ks_Namespace s, ks_Name s))"

fun firstIPv4 :: "ingress list \<Rightarrow> addr option" where
  "firstIPv4 [] = None"
| "firstIPv4 (i # is) =
     (if IP i = [] then firstIPv4 is
      else case ParseAddr (IP i) of
        Inl _ \<Rightarrow> firstIPv4 is
      | Inr a \<Rightarrow> if \<not> Is4 a then firstIPv4 is else Some a)"

definition assignedIPFromStatus :: "kube_service option \<Rightarrow> addr option" where
  "assignedIPFromStatus service =
     (case service of None \<Rightarrow> None | Some s \<Rightarrow> firstIPv4 (status_Ingress s))"

text \<open>
  \<open>collectUsedIPs\<close>: the map from a used pool address to the Service that publishes it.
  The inner loop walks the ingress entries of one Service, the outer one the Services.
\<close>

fun collectIngress ::
  "allocator \<Rightarrow> namespaced_name \<Rightarrow> (addr \<times> namespaced_name) list \<Rightarrow> ingress list \<Rightarrow>
   (addr \<times> namespaced_name) list" where
  "collectIngress a key used [] = used"
| "collectIngress a key used (i # is) =
     (if IP i = [] then collectIngress a key used is
      else case ParseAddr (IP i) of
        Inl _ \<Rightarrow> collectIngress a key used is
      | Inr ad \<Rightarrow>
          if \<not> Is4 ad then collectIngress a key used is
          else if \<not> Contains (pool a) ad then collectIngress a key used is
          else collectIngress a key (AList.update ad key used) is)"

fun collectServices ::
  "allocator \<Rightarrow> namespaced_name \<Rightarrow> (addr \<times> namespaced_name) list \<Rightarrow> kube_service list \<Rightarrow>
   (addr \<times> namespaced_name) list" where
  "collectServices a currentKey used [] = used"
| "collectServices a currentKey used (s # ss) =
     (if DeletionTimestamp s \<noteq> None then collectServices a currentKey used ss
      else if ipam_serviceKey (Some s) = currentKey then collectServices a currentKey used ss
      else if (case matches a of None \<Rightarrow> False | Some m \<Rightarrow> \<not> m (Some s))
        then collectServices a currentKey used ss
      else collectServices a currentKey
        (collectIngress a (ipam_serviceKey (Some s)) used (status_Ingress s)) ss)"

definition collectUsedIPs ::
  "allocator \<Rightarrow> kube_service option \<Rightarrow> kube_service list \<Rightarrow> (addr \<times> namespaced_name) list" where
  "collectUsedIPs a current services = collectServices a (ipam_serviceKey current) [] services"

fun firstFree :: "(addr \<times> namespaced_name) list \<Rightarrow> addr list \<Rightarrow> (alloc_error, allocation) result" where
  "firstFree used [] = Inl ErrNoFreeIP"
| "firstFree used (candidate # cs) =
     (if map_of used candidate \<noteq> None then firstFree used cs
      else Inr \<lparr>alloc_IP = candidate, Reused = False\<rparr>)"

definition Allocate ::
  "allocator \<Rightarrow> kube_service option \<Rightarrow> kube_service list \<Rightarrow> (alloc_error, allocation) result" where
  "Allocate a current services =
     (if current = None then Inl ServiceIsNil
      else if pool a = [] then Inl PoolIsEmpty
      else
        let usedIPs = collectUsedIPs a current services in
        case assignedIPFromStatus current of
          Some currentIP \<Rightarrow>
            if Contains (pool a) currentIP \<and> map_of usedIPs currentIP = None
            then Inr \<lparr>alloc_IP = currentIP, Reused = True\<rparr>
            else firstFree usedIPs (pool a)
        | None \<Rightarrow> firstFree usedIPs (pool a))"

section \<open>Lemmas on the pool\<close>

lemma ParseAddr_parse4: "ParseAddr s = Inr a \<Longrightarrow> Is4 a \<Longrightarrow> parse4 s = Some a"
  by (simp add: parse4_def)

text \<open>The parts of the raw text that the loop looks at.\<close>

definition poolItems :: "string list \<Rightarrow> string list" where
  "poolItems parts = filter (\<lambda>c. c \<noteq> []) (map TrimSpace parts)"

lemma ex_Cons_new:
  "(\<exists>new. res = acc @ new \<and> map f (x # xs) = map Some new \<and> P new) \<longleftrightarrow>
   (\<exists>a zs. res = acc @ a # zs \<and> f x = Some a \<and> map f xs = map Some zs \<and> P (a # zs))"
  by (auto simp: Cons_eq_map_conv)

lemma ParsePool_loop_iff:
  "ParsePool_loop index acc parts = Inr res \<longleftrightarrow>
   (\<exists>new. res = acc @ new \<and> map parse4 (poolItems parts) = map Some new \<and>
      distinct new \<and> set acc \<inter> set new = {})"
proof (induction index acc parts arbitrary: res rule: ParsePool_loop.induct)
  case (1 index acc)
  show ?case by (auto simp: poolItems_def)
next
  case (2 index acc part parts)
  let ?c = "TrimSpace part"
  show ?case
  proof (cases "?c = []")
    case True
    then show ?thesis using 2(1) [OF refl True] by (simp add: poolItems_def)
  next
    case False
    then have items: "poolItems (part # parts) = ?c # poolItems parts" by (simp add: poolItems_def)
    show ?thesis
    proof (cases "\<exists>a. ParseAddr ?c = Inr a \<and> Is4 a \<and> a \<notin> set acc")
      case True
      then obtain a where a: "ParseAddr ?c = Inr a" "Is4 a" "a \<notin> set acc" by blast
      then have p4: "parse4 ?c = Some a" by (simp add: parse4_def)
      have "ParsePool_loop index acc (part # parts) = ParsePool_loop (index + 1) (acc @ [a]) parts"
        using False a by (simp add: Let_def)
      also have "\<dots> = Inr res \<longleftrightarrow> (\<exists>new. res = (acc @ [a]) @ new \<and>
          map parse4 (poolItems parts) = map Some new \<and> distinct new \<and> set (acc @ [a]) \<inter> set new = {})"
        using 2(2) [OF refl False a(1)] a by simp
      also have "\<dots> \<longleftrightarrow> (\<exists>new. res = acc @ new \<and>
          map parse4 (poolItems (part # parts)) = map Some new \<and> distinct new \<and> set acc \<inter> set new = {})"
        unfolding items using a(3) p4 by (subst ex_Cons_new) auto
      finally show ?thesis .
    next
      case bad: False
      then have "\<not> (\<exists>r. ParsePool_loop index acc (part # parts) = Inr r)"
        using False by (auto simp: Let_def split: sum.splits)
      moreover have "\<not> (\<exists>new. map parse4 (poolItems (part # parts)) = map Some new \<and> set acc \<inter> set new = {})"
        using bad unfolding items
        by (auto simp: Cons_eq_map_conv parse4_def split: sum.splits if_splits)
      ultimately show ?thesis by blast
    qed
  qed
qed

lemma ParsePool_iff:
  "ParsePool raw = Inr p \<longleftrightarrow>
   p \<noteq> [] \<and> distinct p \<and> map parse4 (poolItems (Split CHR '','' raw)) = map Some p"
proof -
  have "ParsePool raw = Inr p \<longleftrightarrow>
      p \<noteq> [] \<and> ParsePool_loop 0 [] (Split CHR '','' raw) = Inr p"
    by (auto simp: ParsePool_def split: sum.splits if_splits)
  then show ?thesis by (auto simp: ParsePool_loop_iff)
qed

lemma parse4_items: "map parse4 items = map Some p \<longleftrightarrow> list_all Is4 p \<and> items = map AddrString p"
  by (induction p arbitrary: items) (auto simp: map_eq_Cons_conv Cons_eq_map_conv parse4_Some)

lemma AddrString_no_comma: "Is4 a \<Longrightarrow> CHR '','' \<notin> set (AddrString a)"
  using octet_digits by (cases a) (fastforce simp: dotted_def list_all_iff isDigit_iff)+

section \<open>Lemmas on the allocator\<close>

text \<open>A Service publishes an address when some ingress entry of its status is its text.\<close>

definition publishes :: "kube_service \<Rightarrow> addr \<Rightarrow> bool" where
  "publishes s ad = list_ex (\<lambda>i. parse4 (IP i) = Some ad) (status_Ingress s)"

text \<open>
  A Service competes with the one being allocated when it is another live Service that the
  matcher (if there is one) accepts; an address is taken when a competitor publishes it.
\<close>

definition competes :: "allocator \<Rightarrow> namespaced_name \<Rightarrow> kube_service \<Rightarrow> bool" where
  "competes a key s =
     (DeletionTimestamp s = None \<and> objectKey s \<noteq> key \<and>
      (case matches a of None \<Rightarrow> True | Some m \<Rightarrow> m (Some s)))"

definition taken :: "allocator \<Rightarrow> kube_service \<Rightarrow> kube_service list \<Rightarrow> addr \<Rightarrow> bool" where
  "taken a c services ad =
     list_ex (\<lambda>s. competes a (objectKey c) s \<and> publishes s ad) services"

lemma dom_collectIngress:
  "dom (map_of (collectIngress a key used is)) =
   dom (map_of used) \<union> {ad. ad \<in> set (pool a) \<and> (\<exists>i\<in>set is. parse4 (IP i) = Some ad)}"
proof (induction "is" arbitrary: used)
  case (Cons i "is")
  show ?case
  proof (cases "\<exists>ad. ParseAddr (IP i) = Inr ad \<and> Is4 ad \<and> ad \<in> set (pool a)")
    case True
    then obtain ad where ad: "ParseAddr (IP i) = Inr ad" "Is4 ad" "ad \<in> set (pool a)" by blast
    then have "parse4 (IP i) = Some ad" "IP i \<noteq> []"
      using parse4_Nil by (auto simp: parse4_def)
    with ad Cons show ?thesis by (auto simp: Contains_def alist_update_dom)
  next
    case False
    then have "\<And>ad. parse4 (IP i) = Some ad \<Longrightarrow> ad \<notin> set (pool a)"
      by (auto simp: parse4_def split: sum.splits if_splits)
    moreover have "collectIngress a key used (i # is) = collectIngress a key used is"
      using False by (auto simp: Contains_def split: sum.splits)
    ultimately show ?thesis using Cons by auto
  qed
qed simp

lemma dom_collectServices:
  "dom (map_of (collectServices a key used ss)) =
   dom (map_of used) \<union> {ad. ad \<in> set (pool a) \<and> (\<exists>s\<in>set ss. competes a key s \<and> publishes s ad)}"
proof (induction ss arbitrary: used)
  case (Cons s ss)
  show ?case
  proof (cases "competes a key s")
    case True
    then have "collectServices a key used (s # ss) =
        collectServices a key (collectIngress a (objectKey s) used (status_Ingress s)) ss"
      by (auto simp: competes_def ipam_serviceKey_def objectKey_def split: option.splits)
    then show ?thesis
      using True Cons by (auto simp: dom_collectIngress publishes_def list_ex_iff)
  next
    case False
    then have "collectServices a key used (s # ss) = collectServices a key used ss"
      by (auto simp: competes_def ipam_serviceKey_def objectKey_def split: option.splits)
    then show ?thesis using False Cons by auto
  qed
qed simp

lemma collectUsedIPs_None:
  "ad \<in> set (pool a) \<Longrightarrow>
   map_of (collectUsedIPs a (Some c) services) ad = None \<longleftrightarrow> \<not> taken a c services ad"
  using dom_collectServices [of a "objectKey c" "[]" services]
  by (auto simp: collectUsedIPs_def ipam_serviceKey_def objectKey_def taken_def list_ex_iff domIff)

lemma firstFree_find:
  "firstFree used ps =
   (case find (\<lambda>ad. map_of used ad = None) ps of None \<Rightarrow> Inl ErrNoFreeIP
    | Some ad \<Rightarrow> Inr \<lparr>alloc_IP = ad, Reused = False\<rparr>)"
  by (induction ps) auto

lemma find_cong_set: "(\<And>x. x \<in> set xs \<Longrightarrow> P x = Q x) \<Longrightarrow> find P xs = find Q xs"
  by (induction xs) auto

text \<open>
  The abstract allocation policy: keep the published address when it is a free address of
  the pool, else take the first free address, else report exhaustion.
\<close>

definition alloc_policy ::
  "addr list \<Rightarrow> (addr \<Rightarrow> bool) \<Rightarrow> addr option \<Rightarrow> (alloc_error, allocation) result" where
  "alloc_policy p tk cur =
     (if p = [] then Inl PoolIsEmpty
      else case cur of
        Some ip \<Rightarrow> if ip \<in> set p \<and> \<not> tk ip then Inr \<lparr>alloc_IP = ip, Reused = True\<rparr>
          else (case find (\<lambda>ad. \<not> tk ad) p of None \<Rightarrow> Inl ErrNoFreeIP
                | Some ad \<Rightarrow> Inr \<lparr>alloc_IP = ad, Reused = False\<rparr>)
      | None \<Rightarrow> (case find (\<lambda>ad. \<not> tk ad) p of None \<Rightarrow> Inl ErrNoFreeIP
                | Some ad \<Rightarrow> Inr \<lparr>alloc_IP = ad, Reused = False\<rparr>))"

lemma Allocate_policy:
  "Allocate a (Some c) services =
   alloc_policy (pool a) (taken a c services) (firstIPv4 (status_Ingress c))"
proof -
  have ff: "firstFree (collectUsedIPs a (Some c) services) (pool a) =
      (case find (\<lambda>ad. \<not> taken a c services ad) (pool a) of None \<Rightarrow> Inl ErrNoFreeIP
       | Some ad \<Rightarrow> Inr \<lparr>alloc_IP = ad, Reused = False\<rparr>)"
  proof -
    have "find (\<lambda>ad. map_of (collectUsedIPs a (Some c) services) ad = None) (pool a) =
        find (\<lambda>ad. \<not> taken a c services ad) (pool a)"
      by (rule find_cong_set) (rule collectUsedIPs_None)
    then show ?thesis by (simp add: firstFree_find)
  qed
  show ?thesis
    by (auto simp: Allocate_def alloc_policy_def Let_def assignedIPFromStatus_def Contains_def ff
        collectUsedIPs_None split: option.splits)
qed

lemma alloc_policy_Inr:
  "alloc_policy p tk cur = Inr r \<Longrightarrow> alloc_IP r \<in> set p \<and> \<not> tk (alloc_IP r)"
  by (auto simp: alloc_policy_def find_Some_iff split: option.splits if_splits)

lemma alloc_policy_exhausted:
  "alloc_policy p tk cur = Inl ErrNoFreeIP \<longleftrightarrow> p \<noteq> [] \<and> (\<forall>ad\<in>set p. tk ad)"
  by (auto simp: alloc_policy_def find_None_iff find_Some_iff split: option.splits if_splits)

lemma firstIPv4_publishes: "firstIPv4 (status_Ingress s) = Some ad \<Longrightarrow> publishes s ad"
proof -
  have "firstIPv4 is = Some ad \<Longrightarrow> \<exists>i\<in>set is. parse4 (IP i) = Some ad" for "is"
    by (induction "is") (auto simp: parse4_def split: if_splits sum.splits)
  then show "firstIPv4 (status_Ingress s) = Some ad \<Longrightarrow> publishes s ad"
    by (simp add: publishes_def list_ex_iff)
qed

section \<open>Samples\<close>

definition poolService :: "string \<Rightarrow> string list \<Rightarrow> kube_service" where
  "poolService name ips = \<lparr>ks_Namespace = ''web'', ks_Name = name, DeletionTimestamp = None, Finalizers = [],
     Generation = 1, spec_Type = ServiceTypeLoadBalancer, spec_LoadBalancerClass = None, spec_Ports = [],
     status_Ingress = map (\<lambda>ip. \<lparr>IP = ip, Hostname = []\<rparr>) ips\<rparr>"

section \<open>Properties\<close>

text \<open>
  C18: \<open>Allocate\<close> implements the abstract allocation policy over the set of addresses that
  competing Services publish, on every branch: nil Service, empty pool, kept address, first
  free address in pool order, exhaustion.
\<close>

theorem allocate_refines_policy:
  "Allocate a current services =
   (case current of None \<Rightarrow> Inl ServiceIsNil
    | Some c \<Rightarrow> alloc_policy (pool a) (taken a c services) (firstIPv4 (status_Ingress c)))"
  by (cases current) (simp_all add: Allocate_policy, simp add: Allocate_def)

text \<open>
  An allocated address belongs to the pool and is not published by any other live
  Service that the controller manages.
\<close>

theorem allocate_never_conflicts:
  assumes "Allocate a (Some c) services = Inr r"
  shows "alloc_IP r \<in> set (pool a) \<and>
    (\<forall>s\<in>set services. competes a (objectKey c) s \<longrightarrow> \<not> publishes s (alloc_IP r))"
  using alloc_policy_Inr [of "pool a" "taken a c services" _ r] assms
  by (auto simp: Allocate_policy taken_def list_ex_iff)

theorem allocate_never_conflicts_witness:
  "\<exists>r. Allocate (NewAllocator [V4 10 0 0 1, V4 10 0 0 2] None) (Some (poolService ''a'' []))
        [poolService ''b'' [''10.0.0.1'']] = Inr r \<and> alloc_IP r = V4 10 0 0 2 \<and>
      \<not> publishes (poolService ''b'' [''10.0.0.1'']) (alloc_IP r)"
proof -
  have r: "Allocate (NewAllocator [V4 10 0 0 1, V4 10 0 0 2] None) (Some (poolService ''a'' []))
        [poolService ''b'' [''10.0.0.1'']] = Inr \<lparr>alloc_IP = V4 10 0 0 2, Reused = False\<rparr>"
    by code_simp
  have "competes (NewAllocator [V4 10 0 0 1, V4 10 0 0 2] None) (objectKey (poolService ''a'' []))
     (poolService ''b'' [''10.0.0.1''])" by code_simp
  with allocate_never_conflicts [OF r] r show ?thesis by simp
qed

text \<open>
  The exhaustion error is returned exactly when the pool is non-empty and every one of
  its addresses is published by a competing Service: an address is never refused while one
  is free.
\<close>

theorem allocate_exhausted_iff:
  "Allocate a (Some c) services = Inl ErrNoFreeIP \<longleftrightarrow>
   pool a \<noteq> [] \<and> (\<forall>ad\<in>set (pool a). taken a c services ad)"
  by (simp add: Allocate_policy alloc_policy_exhausted)

theorem allocate_exhausted_iff_witness:
  "Allocate (NewAllocator [V4 10 0 0 1] None) (Some (poolService ''a'' []))
     [poolService ''b'' [''10.0.0.1'']] = Inl ErrNoFreeIP"
proof -
  have "taken (NewAllocator [V4 10 0 0 1] None) (poolService ''a'' []) [poolService ''b'' [''10.0.0.1'']] (V4 10 0 0 1)"
    by code_simp
  then show ?thesis by (subst allocate_exhausted_iff) (simp add: NewAllocator_def)
qed

text \<open>
  \<open>ParsePool\<close> accepts exactly the texts whose non-blank comma-separated items are, after
  trimming, the canonical texts of pairwise distinct IPv4 addresses, at least one of them,
  and returns those addresses in order.
\<close>

theorem parsePool_characterised:
  "ParsePool raw = Inr p \<longleftrightarrow>
   p \<noteq> [] \<and> distinct p \<and> list_all Is4 p \<and> poolItems (Split CHR '','' raw) = map AddrString p"
  by (auto simp: ParsePool_iff parse4_items)

text \<open>
  Round trip of the pool configuration: joining the texts of distinct IPv4 addresses with
  commas and parsing the result gives the same addresses.
\<close>

theorem parsePool_roundtrip:
  assumes "p \<noteq> []" "distinct p" "list_all Is4 p"
  shows "ParsePool (Join '','' (map AddrString p)) = Inr p"
proof -
  have "Split CHR '','' (Join '','' (map AddrString p)) = map AddrString p"
    using assms AddrString_no_comma by (intro Split_Join) (auto simp: list_all_iff)
  moreover have "poolItems (map AddrString p) = map AddrString p"
    using assms(3) by (induction p) (simp_all add: poolItems_def)
  ultimately show ?thesis using assms by (simp add: ParsePool_iff parse4_items del: map_map map_eq_conv)
qed

theorem parsePool_roundtrip_witness:
  "ParsePool (Join '','' (map AddrString [V4 10 0 0 2, V4 10 0 0 1])) = Inr [V4 10 0 0 2, V4 10 0 0 1] \<and>
   Join '','' (map AddrString [V4 10 0 0 2, V4 10 0 0 1]) = ''10.0.0.2,10.0.0.1''"
proof
  show "ParsePool (Join '','' (map AddrString [V4 10 0 0 2, V4 10 0 0 1])) = Inr [V4 10 0 0 2, V4 10 0 0 1]"
    by (rule parsePool_roundtrip) simp_all
  show "Join '','' (map AddrString [V4 10 0 0 2, V4 10 0 0 1]) = ''10.0.0.2,10.0.0.1''" by code_simp
qed

end
