(* ===== verification/Backends.thy ===== *)
theory Backends
  imports Kube
begin

text \<open>
  \<open>internal/backends/discovery.go\<close>: the backends of every Service port, from the
  EndpointSlices of the Service.  The main theorem gives the result of \<open>Discover\<close>
  completely: which endpoints become backends, that none is repeated, and their order;
  it follows that the order in which the API lists the slices does not matter.
\<close>

section \<open>Model\<close>

record port_backends =
  pb_Name :: string
  pb_Protocol :: string
  pb_Port :: int
  pb_TargetPort :: int_or_string
  pb_Backends :: "backend_endpoint list"

definition normalizeServiceProtocol :: "string \<Rightarrow> string" where
  "normalizeServiceProtocol protocol = (if protocol = [] then ProtocolTCP else protocol)"

definition normalizeEndpointSliceProtocol :: "string option \<Rightarrow> string" where
  "normalizeEndpointSliceProtocol protocol =
     (case protocol of None \<Rightarrow> ProtocolTCP | Some p \<Rightarrow> if p = [] then ProtocolTCP else p)"

definition servicePortTargetPort :: "kube_port \<Rightarrow> string \<times> int" where
  "servicePortTargetPort sp =
     (case kp_TargetPort sp of
        FromString s \<Rightarrow> if TrimSpace s \<noteq> [] then (TrimSpace s, 0) else ([], kp_Port sp)
      | FromInt v \<Rightarrow> if v > 0 then ([], v) else ([], kp_Port sp))"

definition endpointReady :: "endpoint \<Rightarrow> bool" where
  "endpointReady e = (case Ready e of None \<Rightarrow> True | Some r \<Rightarrow> r)"

definition normalizeIPv4Address :: "string \<Rightarrow> string option" where
  "normalizeIPv4Address address =
     (case ParseAddr (TrimSpace address) of
        Inl _ \<Rightarrow> None
      | Inr a \<Rightarrow> if \<not> Is4 a then None else Some (AddrString a))"

definition valueOrEmpty :: "string option \<Rightarrow> string" where
  "valueOrEmpty v = (case v of None \<Rightarrow> [] | Some s \<Rightarrow> TrimSpace s)"

definition endpointSliceBelongsToService :: "kube_service option \<Rightarrow> endpoint_slice \<Rightarrow> bool" where
  "endpointSliceBelongsToService service sl =
     (case service of None \<Rightarrow> False
      | Some s \<Rightarrow>
          if es_Namespace sl \<noteq> ks_Namespace s then False
          else label (es_Labels sl) LabelServiceName = ks_Name s)"

definition endpointSlicePortMatchesServicePort :: "kube_port \<Rightarrow> endpoint_port \<Rightarrow> bool" where
  "endpointSlicePortMatchesServicePort sp ep =
     (case ep_Port ep of None \<Rightarrow> False
      | Some port \<Rightarrow>
          if port \<le> 0 then False
          else if normalizeServiceProtocol (kp_Protocol sp) \<noteq> normalizeEndpointSliceProtocol (ep_Protocol ep)
            then False
          else
            let endpointPortName = TrimSpace (valueOrEmpty (ep_Name ep)) in
            if kp_Name sp \<noteq> [] \<and> endpointPortName = kp_Name sp then True
            else
              let (targetPortName, targetPortNumber) = servicePortTargetPort sp in
              if targetPortName \<noteq> [] then endpointPortName = targetPortName
              else port = targetPortNumber)"

text \<open>
  The four nested loops of \<open>Discover\<close>.  The state is the set \<open>seen\<close> of keys and the
  backends appended so far.  A slice port that matches has a number.
\<close>

type_synonym scan = "string list \<times> backend_endpoint list"

definition backendKey :: "backend_endpoint \<Rightarrow> string" where
  "backendKey b = Address b @ '':'' @ FormatInt (Port b)"

definition addBackend :: "scan \<Rightarrow> backend_endpoint \<Rightarrow> scan" where
  "addBackend st b =
     (case st of (seen, out) \<Rightarrow>
        if backendKey b \<in> set seen then (seen, out) else (backendKey b # seen, out @ [b]))"

definition scanAddress :: "endpoint_port \<Rightarrow> scan \<Rightarrow> string \<Rightarrow> scan" where
  "scanAddress ep st address =
     (case normalizeIPv4Address address of None \<Rightarrow> st
      | Some a \<Rightarrow>
          (case ep_Port ep of None \<Rightarrow> st
           | Some port \<Rightarrow> addBackend st \<lparr>Address = a, Port = port\<rparr>))"

definition scanEndpoint :: "endpoint_port \<Rightarrow> scan \<Rightarrow> endpoint \<Rightarrow> scan" where
  "scanEndpoint ep st e =
     (if \<not> endpointReady e then st else foldl (scanAddress ep) st (Addresses e))"

definition scanPort :: "kube_port \<Rightarrow> endpoint_slice \<Rightarrow> scan \<Rightarrow> endpoint_port \<Rightarrow> scan" where
  "scanPort sp sl st ep =
     (if \<not> endpointSlicePortMatchesServicePort sp ep then st
      else foldl (scanEndpoint ep) st (es_Endpoints sl))"

definition scanSlice :: "kube_service \<Rightarrow> kube_port \<Rightarrow> scan \<Rightarrow> endpoint_slice \<Rightarrow> scan" where
  "scanSlice s sp st sl =
     (if \<not> endpointSliceBelongsToService (Some s) sl then st
      else foldl (scanPort sp sl) st (es_Ports sl))"

definition Discover :: "kube_service option \<Rightarrow> endpoint_slice list \<Rightarrow> port_backends list" where
  "Discover service slices =
     (case service of None \<Rightarrow> []
      | Some s \<Rightarrow>
          map (\<lambda>sp.
            \<lparr>pb_Name = kp_Name sp,
             pb_Protocol = normalizeServiceProtocol (kp_Protocol sp),
             pb_Port = kp_Port sp,
             pb_TargetPort = kp_TargetPort sp,
             pb_Backends = sort_Slice backendLess (snd (foldl (scanSlice s sp) ([], []) slices))\<rparr>)
          (spec_Ports s))"

section \<open>Which endpoints become backends\<close>

text \<open>
  \<open>eligible s slices sp b\<close>: some slice of the Service has a port that matches the Service
  port and carries the backend's number, and a ready endpoint one of whose addresses is the
  backend's IPv4 address.
\<close>

definition eligible :: "kube_service \<Rightarrow> endpoint_slice list \<Rightarrow> kube_port \<Rightarrow> backend_endpoint \<Rightarrow> bool" where
  "eligible s slices sp b =
     list_ex (\<lambda>sl. endpointSliceBelongsToService (Some s) sl \<and>
       list_ex (\<lambda>ep. endpointSlicePortMatchesServicePort sp ep \<and> ep_Port ep = Some (Port b) \<and>
         list_ex (\<lambda>e. endpointReady e \<and>
           list_ex (\<lambda>ad. normalizeIPv4Address ad = Some (Address b)) (Addresses e))
         (es_Endpoints sl)) (es_Ports sl)) slices"

definition ipv4Text :: "string \<Rightarrow> bool" where
  "ipv4Text s = (parse4 s \<noteq> None)"

lemma normalizeIPv4Address_Some:
  "normalizeIPv4Address s = Some t \<longleftrightarrow> (\<exists>a. Is4 a \<and> TrimSpace s = AddrString a \<and> t = AddrString a)"
proof -
  have "normalizeIPv4Address s = map_option AddrString (parse4 (TrimSpace s))"
    by (auto simp: normalizeIPv4Address_def parse4_def split: sum.splits)
  then show ?thesis by (auto simp: parse4_Some)
qed

lemma normalizeIPv4Address_ipv4Text: "normalizeIPv4Address s = Some t \<Longrightarrow> ipv4Text t"
  by (auto simp: normalizeIPv4Address_Some ipv4Text_def parse4_AddrString)

lemma ipv4Text_no_colon: "ipv4Text s \<Longrightarrow> CHR '':'' \<notin> set s"
proof -
  assume "ipv4Text s"
  then obtain a where "Is4 a" "s = AddrString a" by (auto simp: ipv4Text_def parse4_Some)
  then show ?thesis
    using octet_digits by (cases a) (fastforce simp: dotted_def list_all_iff isDigit_iff)+
qed

lemma backendKey_inj:
  "ipv4Text (Address a) \<Longrightarrow> ipv4Text (Address b) \<Longrightarrow> backendKey a = backendKey b \<longleftrightarrow> a = b"
  using append_sep_inj [OF ipv4Text_no_colon ipv4Text_no_colon]
  by (auto simp: backendKey_def)

text \<open>What the scan state represents.\<close>

definition represents :: "scan \<Rightarrow> backend_endpoint set \<Rightarrow> bool" where
  "represents st S =
     (case st of (seen, out) \<Rightarrow> set seen = backendKey ` set out \<and> distinct out \<and> set out = S \<and>
        (\<forall>b\<in>S. ipv4Text (Address b)))"

lemma represents_addBackend:
  assumes "represents st S" "ipv4Text (Address b)"
  shows "represents (addBackend st b) (S \<union> {b})"
proof -
  obtain seen out where st: "st = (seen, out)" by force
  with assms have "backendKey b \<in> set seen \<longleftrightarrow> b \<in> set out"
    using backendKey_inj by (auto simp: represents_def)
  then show ?thesis using st assms by (auto simp: represents_def addBackend_def)
qed

lemma represents_scanAddress:
  "represents st S \<Longrightarrow> represents (scanAddress ep st ad)
     (S \<union> {b. ep_Port ep = Some (Port b) \<and> normalizeIPv4Address ad = Some (Address b)})"
proof (cases "normalizeIPv4Address ad"; cases "ep_Port ep")
  fix t p
  assume r: "represents st S" and t: "normalizeIPv4Address ad = Some t" and p: "ep_Port ep = Some p"
  have "{b. ep_Port ep = Some (Port b) \<and> normalizeIPv4Address ad = Some (Address b)} =
      {\<lparr>Address = t, Port = p\<rparr>}" using t p by auto
  then show ?thesis
    using represents_addBackend [OF r] normalizeIPv4Address_ipv4Text [OF t] t p
    by (simp add: scanAddress_def)
qed (simp_all add: scanAddress_def)

lemma represents_guarded:
  assumes "represents st S" and "represents st' (S \<union> T)"
  shows "represents (if \<not> P then st else st') (S \<union> {b. P \<and> b \<in> T})"
  using assms by (cases P) simp_all

text \<open>The backends one endpoint, one slice port and one slice contribute.\<close>

definition fromEndpoint :: "endpoint_port \<Rightarrow> endpoint \<Rightarrow> backend_endpoint set" where
  "fromEndpoint ep e = {b. endpointReady e \<and> b \<in> (\<Union>ad\<in>set (Addresses e).
     {b. ep_Port ep = Some (Port b) \<and> normalizeIPv4Address ad = Some (Address b)})}"

definition fromPort :: "kube_port \<Rightarrow> endpoint_slice \<Rightarrow> endpoint_port \<Rightarrow> backend_endpoint set" where
  "fromPort sp sl ep = {b. endpointSlicePortMatchesServicePort sp ep \<and>
     b \<in> (\<Union>e\<in>set (es_Endpoints sl). fromEndpoint ep e)}"

definition fromSlice :: "kube_service \<Rightarrow> kube_port \<Rightarrow> endpoint_slice \<Rightarrow> backend_endpoint set" where
  "fromSlice s sp sl = {b. endpointSliceBelongsToService (Some s) sl \<and>
     b \<in> (\<Union>ep\<in>set (es_Ports sl). fromPort sp sl ep)}"

lemma represents_scanEndpoint:
  assumes "represents st S"
  shows "represents (scanEndpoint ep st e) (S \<union> fromEndpoint ep e)"
  unfolding scanEndpoint_def fromEndpoint_def
  by (rule represents_guarded [OF assms])
    (rule foldl_collect [where R = represents, OF _ assms], rule represents_scanAddress)

lemma represents_scanPort:
  assumes "represents st S"
  shows "represents (scanPort sp sl st ep) (S \<union> fromPort sp sl ep)"
  unfolding scanPort_def fromPort_def
  by (rule represents_guarded [OF assms])
    (rule foldl_collect [where R = represents, OF _ assms], rule represents_scanEndpoint)

lemma represents_scanSlice:
  assumes "represents st S"
  shows "represents (scanSlice s sp st sl) (S \<union> fromSlice s sp sl)"
  unfolding scanSlice_def fromSlice_def
  by (rule represents_guarded [OF assms])
    (rule foldl_collect [where R = represents, OF _ assms], rule represents_scanPort)

lemma eligible_fromSlice: "{b. eligible s slices sp b} = (\<Union>sl\<in>set slices. fromSlice s sp sl)"
  by (simp add: set_eq_iff eligible_def fromSlice_def fromPort_def fromEndpoint_def list_ex_iff) blast

lemma represents_scan:
  "represents (foldl (scanSlice s sp) ([], []) slices) {b. eligible s slices sp b}"
proof -
  have "represents ([], []) {}" by (simp add: represents_def)
  from foldl_collect [where R = represents and f = "scanSlice s sp" and g = "fromSlice s sp"
      and xs = slices, OF represents_scanSlice this]
  show ?thesis by (simp add: eligible_fromSlice)
qed

lemma scan_backends:
  "set (snd (foldl (scanSlice s sp) ([], []) slices)) = {b. eligible s slices sp b}"
  "distinct (snd (foldl (scanSlice s sp) ([], []) slices))"
  using represents_scan [of s sp slices] by (simp_all add: represents_def split: prod.splits)

lemma eligible_ipv4Text: "eligible s slices sp b \<Longrightarrow> ipv4Text (Address b)"
  by (simp add: eligible_def list_ex_iff) (blast dest: normalizeIPv4Address_ipv4Text)

lemma eligible_Port: "eligible s slices sp b \<Longrightarrow> 0 < Port b"
proof -
  have "endpointSlicePortMatchesServicePort sp ep \<Longrightarrow> ep_Port ep = Some p \<Longrightarrow> 0 < p" for ep p
    by (simp add: endpointSlicePortMatchesServicePort_def split: if_splits)
  then show "eligible s slices sp b \<Longrightarrow> 0 < Port b"
    by (simp add: eligible_def list_ex_iff) blast
qed

section \<open>Samples\<close>

definition sampleBackendService :: kube_service where
  "sampleBackendService = \<lparr>ks_Namespace = ''web'', ks_Name = ''shop'', DeletionTimestamp = None, Finalizers = [],
     Generation = 1, spec_Type = ServiceTypeLoadBalancer, spec_LoadBalancerClass = None,
     spec_Ports = [\<lparr>kp_Name = ''http'', kp_Protocol = [], kp_Port = 80, kp_TargetPort = FromInt 80\<rparr>],
     status_Ingress = []\<rparr>"

definition sampleSlice :: "string list \<Rightarrow> endpoint_slice" where
  "sampleSlice ips = \<lparr>es_Namespace = ''web'', es_Labels = [(LabelServiceName, ''shop'')], es_ResourceVersion = ''1'',
     es_Ports = [\<lparr>ep_Name = None, ep_Protocol = None, ep_Port = Some 80\<rparr>],
     es_Endpoints = [\<lparr>Addresses = ips, Ready = None\<rparr>]\<rparr>"

text \<open>The Service with the target of its port \<open>i\<close> replaced, and one whose only port has no name and a named target.\<close>

definition withTarget :: "kube_service \<Rightarrow> nat \<Rightarrow> int_or_string \<Rightarrow> kube_service" where
  "withTarget s i x = s\<lparr>spec_Ports := (spec_Ports s)[i := (spec_Ports s ! i)\<lparr>kp_TargetPort := x\<rparr>]\<rparr>"

definition namelessService :: kube_service where
  "namelessService = withTarget (sampleBackendService\<lparr>spec_Ports := [\<lparr>kp_Name = [], kp_Protocol = [], kp_Port = 80,
     kp_TargetPort = FromInt 0\<rparr>]\<rparr>) 0 (FromString ''web'')"

lemma discovered_backends:
  assumes "i < length (spec_Ports s)"
  shows "set (pb_Backends (Discover (Some s) slices ! i)) = {b. eligible s slices (spec_Ports s ! i) b}"
  using assms by (simp add: Discover_def scan_backends)

section \<open>Properties\<close>

text \<open>
  C28: \<open>Discover\<close> gives one entry per Service port, in order, whose backends are exactly the
  eligible endpoints (right slice, matching port, ready, IPv4), each once, ordered by address
  and then by port.
\<close>

theorem discover_characterised:
  "length (Discover (Some s) slices) = length (spec_Ports s) \<and>
   (\<forall>i<length (spec_Ports s).
      let sp = spec_Ports s ! i; pb = Discover (Some s) slices ! i in
      pb_Name pb = kp_Name sp \<and> pb_Port pb = kp_Port sp \<and> pb_TargetPort pb = kp_TargetPort sp \<and>
      pb_Protocol pb = normalizeServiceProtocol (kp_Protocol sp) \<and>
      set (pb_Backends pb) = {b. eligible s slices sp b} \<and> distinct (pb_Backends pb) \<and>
      sorted (map (\<lambda>b. (Address b, Port b)) (pb_Backends pb)))"
proof -
  have "sorted (map (\<lambda>b. (Address b, Port b)) (sort_Slice backendLess xs))" for xs
    using sorted_sort_key [of backendKey2 xs]
    by (simp add: sort_backendLess backendKey2_def [abs_def])
  then show ?thesis by (simp add: Discover_def Let_def scan_backends)
qed

theorem discover_characterised_witness:
  "pb_Backends (Discover (Some sampleBackendService) [sampleSlice [''10.1.0.2'', ''10.1.0.1'']] ! 0) =
     [\<lparr>Address = ''10.1.0.1'', Port = 80\<rparr>, \<lparr>Address = ''10.1.0.2'', Port = 80\<rparr>] \<and>
   eligible sampleBackendService [sampleSlice [''10.1.0.2'', ''10.1.0.1'']]
     (spec_Ports sampleBackendService ! 0) \<lparr>Address = ''10.1.0.1'', Port = 80\<rparr>"
proof
  let ?sl = "[sampleSlice [''10.1.0.2'', ''10.1.0.1'']]"
  show d: "pb_Backends (Discover (Some sampleBackendService) ?sl ! 0) =
     [\<lparr>Address = ''10.1.0.1'', Port = 80\<rparr>, \<lparr>Address = ''10.1.0.2'', Port = 80\<rparr>]" by code_simp
  have "0 < length (spec_Ports sampleBackendService)" by (simp add: sampleBackendService_def)
  with discover_characterised [of sampleBackendService ?sl]
  have "set (pb_Backends (Discover (Some sampleBackendService) ?sl ! 0)) =
      {b. eligible sampleBackendService ?sl (spec_Ports sampleBackendService ! 0) b}"
    by (simp only: Let_def)
  then show "eligible sampleBackendService ?sl (spec_Ports sampleBackendService ! 0) \<lparr>Address = ''10.1.0.1'', Port = 80\<rparr>"
    unfolding d by auto
qed

text \<open>
  The discovered backends do not depend on the order in which EndpointSlices are listed.
\<close>

theorem discover_order_independent:
  assumes "mset slices = mset slices'"
  shows "Discover service slices = Discover service slices'"
proof (cases service)
  case (Some s)
  have same: "eligible s slices sp b = eligible s slices' sp b" for sp b
    using mset_eq_setD [OF assms] by (simp add: eligible_def list_ex_iff)
  have "mset (snd (foldl (scanSlice s sp) ([], []) slices)) =
      mset (snd (foldl (scanSlice s sp) ([], []) slices'))" for sp
    by (subst set_eq_iff_mset_eq_distinct [symmetric]) (simp_all add: scan_backends same)
  then have "sort_Slice backendLess (snd (foldl (scanSlice s sp) ([], []) slices)) =
      sort_Slice backendLess (snd (foldl (scanSlice s sp) ([], []) slices'))" for sp
    by (rule sort_backends_unique)
  with Some show ?thesis by (simp add: Discover_def)
qed (simp add: Discover_def)

theorem discover_order_independent_witness:
  "Discover (Some sampleBackendService) [sampleSlice [''10.1.0.2''], sampleSlice [''10.1.0.1'']] =
   Discover (Some sampleBackendService) [sampleSlice [''10.1.0.1''], sampleSlice [''10.1.0.2'']]"
  by (rule discover_order_independent) simp

text \<open>
  Every discovered backend carries the canonical text of an IPv4 address and a positive
  port number.
\<close>

theorem discover_backends_valid:
  assumes "pb \<in> set (Discover service slices)" "b \<in> set (pb_Backends pb)"
  shows "parse4 (Address b) \<noteq> None \<and> 0 < Port b"
proof -
  from assms(1) obtain s sp where pb: "pb_Backends pb =
      sort_Slice backendLess (snd (foldl (scanSlice s sp) ([], []) slices))"
    by (auto simp: Discover_def split: option.splits)
  with assms(2) have "eligible s slices sp b"
    by (simp add: scan_backends)
  then show ?thesis using eligible_ipv4Text eligible_Port by (auto simp: ipv4Text_def)
qed

theorem discover_backends_valid_witness:
  "\<exists>pb. pb \<in> set (Discover (Some sampleBackendService) [sampleSlice [''10.1.0.2'', ''nonsense'']]) \<and>
     pb_Backends pb = [\<lparr>Address = ''10.1.0.2'', Port = 80\<rparr>] \<and> parse4 ''10.1.0.2'' \<noteq> None"
proof -
  let ?ds = "Discover (Some sampleBackendService) [sampleSlice [''10.1.0.2'', ''nonsense'']]"
  have l: "map pb_Backends ?ds = [[\<lparr>Address = ''10.1.0.2'', Port = 80\<rparr>]]" by code_simp
  then obtain pb where pb: "pb \<in> set ?ds" "pb_Backends pb = [\<lparr>Address = ''10.1.0.2'', Port = 80\<rparr>]"
    by (auto simp: map_eq_Cons_conv)
  with discover_backends_valid [OF pb(1), of "\<lparr>Address = ''10.1.0.2'', Port = 80\<rparr>"] show ?thesis by auto
qed

text \<open>
  C40: A Service port without a name whose target port is a name gets no backends from
  EndpointSlices whose ports have no name, which is how the API publishes the ports of such a
  Service.  It is the name that does it: the same Service with its target port given as the
  number the slice publishes gets every ready IPv4 endpoint.
\<close>

theorem unnamed_port_named_target_unmatched:
  assumes "i < length (spec_Ports s)" "kp_Name (spec_Ports s ! i) = []"
    and "kp_TargetPort (spec_Ports s ! i) = FromString t" "TrimSpace t \<noteq> []"
    and "\<forall>sl \<in> set slices. \<forall>ep \<in> set (es_Ports sl). valueOrEmpty (ep_Name ep) = []"
  shows "pb_Backends (Discover (Some s) slices ! i) = [] \<and>
    (\<forall>sl ep n e ad x. sl \<in> set slices \<longrightarrow> endpointSliceBelongsToService (Some s) sl \<longrightarrow>
      ep \<in> set (es_Ports sl) \<longrightarrow> ep_Port ep = Some n \<longrightarrow> 0 < n \<longrightarrow>
      normalizeEndpointSliceProtocol (ep_Protocol ep) = normalizeServiceProtocol (kp_Protocol (spec_Ports s ! i)) \<longrightarrow>
      e \<in> set (es_Endpoints sl) \<longrightarrow> endpointReady e \<longrightarrow> ad \<in> set (Addresses e) \<longrightarrow>
      normalizeIPv4Address ad = Some x \<longrightarrow>
      \<lparr>Address = x, Port = n\<rparr> \<in> set (pb_Backends (Discover (Some (withTarget s i (FromInt n))) slices ! i)))"
proof -
  have "\<not> endpointSlicePortMatchesServicePort (spec_Ports s ! i) ep"
    if "sl \<in> set slices" "ep \<in> set (es_Ports sl)" for sl ep
    using assms(2-5) that
    by (auto simp: endpointSlicePortMatchesServicePort_def servicePortTargetPort_def Let_def split: option.splits)
  then have none: "\<not> eligible s slices (spec_Ports s ! i) b" for b
    by (auto simp: eligible_def list_ex_iff)
  have "pb_Backends (Discover (Some s) slices ! i) = []"
    using discovered_backends [OF assms(1), of slices] none by simp
  moreover have "\<lparr>Address = x, Port = n\<rparr> \<in> set (pb_Backends (Discover (Some (withTarget s i (FromInt n))) slices ! i))"
    if h: "sl \<in> set slices" "endpointSliceBelongsToService (Some s) sl" "ep \<in> set (es_Ports sl)" "ep_Port ep = Some n"
      "0 < n" "normalizeEndpointSliceProtocol (ep_Protocol ep) = normalizeServiceProtocol (kp_Protocol (spec_Ports s ! i))"
      "e \<in> set (es_Endpoints sl)" "endpointReady e" "ad \<in> set (Addresses e)" "normalizeIPv4Address ad = Some x"
    for sl ep n e ad x
  proof -
    let ?s = "withTarget s i (FromInt n)"
    have m: "endpointSlicePortMatchesServicePort (spec_Ports ?s ! i) ep"
      using assms(1,2) h(4-6)
      by (simp add: withTarget_def endpointSlicePortMatchesServicePort_def servicePortTargetPort_def)
    have "endpointSliceBelongsToService (Some ?s) sl"
      using h(2) by (auto simp: withTarget_def endpointSliceBelongsToService_def split: if_splits)
    then have "eligible ?s slices (spec_Ports ?s ! i) \<lparr>Address = x, Port = n\<rparr>"
      using h m unfolding eligible_def list_ex_iff by force
    then show ?thesis using discovered_backends [of i ?s slices] assms(1) by (simp add: withTarget_def)
  qed
  ultimately show ?thesis by blast
qed

theorem unnamed_port_named_target_unmatched_witness:
  "pb_Backends (Discover (Some namelessService) [sampleSlice [''10.1.0.2'']] ! 0) = [] \<and>
   \<lparr>Address = ''10.1.0.2'', Port = 80\<rparr> \<in> set (pb_Backends (Discover (Some (withTarget namelessService 0 (FromInt 80)))
      [sampleSlice [''10.1.0.2'']] ! 0))"
proof -
  let ?sl = "sampleSlice [''10.1.0.2'']"
  have h: "0 < length (spec_Ports namelessService)" "kp_Name (spec_Ports namelessService ! 0) = []"
    "kp_TargetPort (spec_Ports namelessService ! 0) = FromString ''web''"
    by (simp_all add: namelessService_def withTarget_def sampleBackendService_def)
  have "TrimSpace ''web'' \<noteq> []" "\<forall>sl \<in> set [?sl]. \<forall>ep \<in> set (es_Ports sl). valueOrEmpty (ep_Name ep) = []"
    by code_simp+
  note u = unnamed_port_named_target_unmatched [OF h this]
  have "endpointSliceBelongsToService (Some namelessService) ?sl" "normalizeIPv4Address ''10.1.0.2'' = Some ''10.1.0.2''"
    "normalizeEndpointSliceProtocol None = normalizeServiceProtocol (kp_Protocol (spec_Ports namelessService ! 0))"
    by code_simp+
  then show ?thesis
    using conjunct1 [OF u] conjunct2 [OF u, rule_format, of ?sl "\<lparr>ep_Name = None, ep_Protocol = None, ep_Port = Some 80\<rparr>" 80
        "\<lparr>Addresses = [''10.1.0.2''], Ready = None\<rparr>" "''10.1.0.2''" "''10.1.0.2''"]
    by (simp add: sampleSlice_def endpointReady_def)
qed

end
