(* ===== verification/Status.thy ===== *)
theory Status
  imports Kube
begin

text \<open>
  \<open>internal/status/service_status.go\<close>: comparing and writing the load-balancer status of a
  Service.  The Kubernetes API is outside the repository: the client is a record of
  operations over an arbitrary cluster state \<open>'w\<close>, an argument of every definition that
  calls it.
\<close>

section \<open>The Kubernetes client\<close>

datatype api_error = NotFound | APIError string

text \<open>
  The calls of the controller-runtime client that the program makes.  Every call may change
  the cluster state and may fail; a successful write answers with the object as the server
  stored it, which the client copies into the caller's object.
\<close>

record 'w kube_client =
  client_Get :: "namespaced_name \<Rightarrow> 'w \<Rightarrow> 'w \<times> (api_error, kube_service) result"
  client_ListServices :: "'w \<Rightarrow> 'w \<times> (api_error, kube_service list) result"
  client_ListEndpointSlices ::
    "string \<Rightarrow> string \<Rightarrow> 'w \<Rightarrow> 'w \<times> (api_error, endpoint_slice list) result"
  client_StatusUpdate :: "kube_service \<Rightarrow> 'w \<Rightarrow> 'w \<times> (api_error, kube_service) result"
  client_Patch ::
    "kube_service \<Rightarrow> kube_service \<Rightarrow> 'w \<Rightarrow> 'w \<times> (api_error, kube_service) result"

section \<open>Model\<close>

datatype status_error = StatusServiceNil | StatusUpdateFailed namespaced_name api_error

definition DesiredLoadBalancerIngress :: "string \<Rightarrow> ingress list" where
  "DesiredLoadBalancerIngress assignedIP = [\<lparr>IP = assignedIP, Hostname = []\<rparr>]"

fun firstIngressIP :: "ingress list \<Rightarrow> string option" where
  "firstIngressIP [] = None"
| "firstIngressIP (i # is) =
     (let ip = TrimSpace (IP i) in if ip \<noteq> [] then Some ip else firstIngressIP is)"

definition LoadBalancerIngressEqual :: "ingress list \<Rightarrow> ingress list \<Rightarrow> bool" where
  "LoadBalancerIngressEqual current desired =
     (case firstIngressIP desired of
        None \<Rightarrow> current = []
      | Some desiredIP \<Rightarrow>
          (case current of [i] \<Rightarrow> TrimSpace (IP i) = desiredIP | _ \<Rightarrow> False))"

definition NeedsLoadBalancerIngressUpdate :: "kube_service option \<Rightarrow> ingress list \<Rightarrow> bool" where
  "NeedsLoadBalancerIngressUpdate service desired =
     (case service of None \<Rightarrow> True
      | Some s \<Rightarrow> \<not> LoadBalancerIngressEqual (status_Ingress s) desired)"

text \<open>
  \<open>UpdateServiceLoadBalancerStatus\<close>: the new cluster state, the caller's Service (whose
  status is replaced by the stored one after a write) and whether a write happened.
\<close>

definition UpdateServiceLoadBalancerStatus ::
  "'w kube_client \<Rightarrow> kube_service option \<Rightarrow> ingress list \<Rightarrow> 'w \<Rightarrow>
   'w \<times> kube_service option \<times> (status_error, bool) result" where
  "UpdateServiceLoadBalancerStatus c service desired w =
     (case service of None \<Rightarrow> (w, None, Inl StatusServiceNil)
      | Some s \<Rightarrow>
          if \<not> NeedsLoadBalancerIngressUpdate (Some s) desired then (w, Some s, Inr False)
          else
            let updated = s\<lparr>status_Ingress := desired\<rparr> in
            (case client_StatusUpdate c updated w of
               (w', Inl err) \<Rightarrow> (w', Some s, Inl (StatusUpdateFailed (objectKey s) err))
             | (w', Inr stored) \<Rightarrow>
                 (w', Some (s\<lparr>status_Ingress := status_Ingress stored\<rparr>), Inr True)))"

fun ingressInPool :: "addr list \<Rightarrow> ingress list \<Rightarrow> bool" where
  "ingressInPool pool [] = False"
| "ingressInPool pool (i # is) =
     (let ip = TrimSpace (IP i) in
      if ip = [] then ingressInPool pool is
      else case ParseAddr ip of
        Inl _ \<Rightarrow> ingressInPool pool is
      | Inr a \<Rightarrow>
          if \<not> Is4 a then ingressInPool pool is
          else if a \<in> set pool then True
          else ingressInPool pool is)"

definition HasLoadBalancerIngressIPInPool :: "kube_service option \<Rightarrow> addr list \<Rightarrow> bool" where
  "HasLoadBalancerIngressIPInPool service pool =
     (case service of None \<Rightarrow> False | Some s \<Rightarrow> ingressInPool pool (status_Ingress s))"

section \<open>Lemmas\<close>

lemma firstIngressIP_desired:
  "Is4 a \<Longrightarrow> firstIngressIP (DesiredLoadBalancerIngress (AddrString a)) = Some (AddrString a)"
  by (simp add: DesiredLoadBalancerIngress_def)

lemma Equal_desired_iff:
  "Is4 a \<Longrightarrow> LoadBalancerIngressEqual is (DesiredLoadBalancerIngress (AddrString a)) \<longleftrightarrow>
   (\<exists>i. is = [i] \<and> TrimSpace (IP i) = AddrString a)"
  by (auto simp: LoadBalancerIngressEqual_def firstIngressIP_desired split: list.splits)

lemma Equal_Nil_iff: "LoadBalancerIngressEqual is [] \<longleftrightarrow> is = []"
  by (simp add: LoadBalancerIngressEqual_def)

lemma Equal_desired_self:
  "Is4 a \<Longrightarrow> LoadBalancerIngressEqual (DesiredLoadBalancerIngress (AddrString a))
     (DesiredLoadBalancerIngress (AddrString a))"
  by (simp add: Equal_desired_iff) (simp add: DesiredLoadBalancerIngress_def)

lemma ingressInPool_iff:
  "ingressInPool pool is \<longleftrightarrow> (\<exists>i\<in>set is. \<exists>a\<in>set pool. parse4 (TrimSpace (IP i)) = Some a)"
proof (induction "is")
  case (Cons i "is")
  then show ?case
    by (cases "TrimSpace (IP i) = []") (auto simp: Let_def parse4_def split: sum.splits if_splits)
qed simp

lemma UpdateStatus_eq:
  "UpdateServiceLoadBalancerStatus c (Some s) desired w =
   (if LoadBalancerIngressEqual (status_Ingress s) desired then (w, Some s, Inr False)
    else (case client_StatusUpdate c (s\<lparr>status_Ingress := desired\<rparr>) w of
            (w', Inl e) \<Rightarrow> (w', Some s, Inl (StatusUpdateFailed (objectKey s) e))
          | (w', Inr t) \<Rightarrow> (w', Some (s\<lparr>status_Ingress := status_Ingress t\<rparr>), Inr True)))"
  by (simp add: UpdateServiceLoadBalancerStatus_def NeedsLoadBalancerIngressUpdate_def Let_def)

section \<open>Samples\<close>

definition echoClient :: "unit kube_client" where
  "echoClient = \<lparr>client_Get = (\<lambda>k w. (w, Inl NotFound)), client_ListServices = (\<lambda>w. (w, Inr [])),
     client_ListEndpointSlices = (\<lambda>n m w. (w, Inr [])), client_StatusUpdate = (\<lambda>s w. (w, Inr s)),
     client_Patch = (\<lambda>b s w. (w, Inr s))\<rparr>"

section \<open>Properties\<close>

text \<open>
  Writing the status is idempotent: after a write that the server stored as sent, a second
  write of the same address sends nothing and reports no change.
\<close>

theorem status_update_idempotent:
  assumes "Is4 a"
    and "UpdateServiceLoadBalancerStatus c (Some s)
           (DesiredLoadBalancerIngress (AddrString a)) w = (w', Some t, Inr ch)"
    and "\<And>u w1 st. client_StatusUpdate c u w = (w1, Inr st) \<Longrightarrow> status_Ingress st = status_Ingress u"
  shows "UpdateServiceLoadBalancerStatus c (Some t)
           (DesiredLoadBalancerIngress (AddrString a)) w' = (w', Some t, Inr False)"
proof -
  let ?d = "DesiredLoadBalancerIngress (AddrString a)"
  have "LoadBalancerIngressEqual (status_Ingress t) ?d"
    using assms Equal_desired_self [OF assms(1)]
    by (auto simp: UpdateStatus_eq split: if_splits prod.splits sum.splits)
  then show ?thesis by (simp add: UpdateStatus_eq)
qed

theorem status_update_idempotent_witness:
  "\<exists>s t. UpdateServiceLoadBalancerStatus echoClient (Some s) (DesiredLoadBalancerIngress ''10.0.0.1'') () =
       ((), Some t, Inr True) \<and>
     UpdateServiceLoadBalancerStatus echoClient (Some t) (DesiredLoadBalancerIngress ''10.0.0.1'') () =
       ((), Some t, Inr False)"
proof -
  let ?s = "\<lparr>ks_Namespace = ''web'', ks_Name = ''shop'', DeletionTimestamp = None, Finalizers = [],
     Generation = 1, spec_Type = ServiceTypeLoadBalancer, spec_LoadBalancerClass = None, spec_Ports = [],
     status_Ingress = []\<rparr>"
  let ?t = "?s\<lparr>status_Ingress := DesiredLoadBalancerIngress ''10.0.0.1''\<rparr>"
  have a: "AddrString (V4 10 0 0 1) = ''10.0.0.1''" by code_simp
  have u: "UpdateServiceLoadBalancerStatus echoClient (Some ?s) (DesiredLoadBalancerIngress ''10.0.0.1'') () =
      ((), Some ?t, Inr True)"
    by code_simp
  have "UpdateServiceLoadBalancerStatus echoClient (Some ?t) (DesiredLoadBalancerIngress ''10.0.0.1'') () =
      ((), Some ?t, Inr False)"
    unfolding a [symmetric]
    by (rule status_update_idempotent [of _ _ ?s, OF _ u [folded a]])
      (auto simp: echoClient_def)
  with u show ?thesis by blast
qed

end
