(* ===== verification/Metrics.thy ===== *)
theory Metrics
  imports Provider_Contract
begin

text \<open>
  \<open>internal/metrics/metrics.go\<close>: the Prometheus counters of the controller and the wrapper
  that counts provider operations and the managed Services.  Durations are not modelled;
  the number of observations is.
\<close>

record metrics =
  registered :: bool
  serviceReconcileTotal :: nat
  serviceReconcileErrorsTotal :: nat
  serviceReconcileObservations :: nat
  ipAllocationsTotal :: "string \<Rightarrow> nat"
  providerOperationsTotal :: "string \<times> string \<Rightarrow> nat"
  providerManagedServices :: nat

definition noMetrics :: metrics where
  "noMetrics = \<lparr>registered = False, serviceReconcileTotal = 0, serviceReconcileErrorsTotal = 0,
     serviceReconcileObservations = 0, ipAllocationsTotal = (\<lambda>_. 0), providerOperationsTotal = (\<lambda>_. 0),
     providerManagedServices = 0\<rparr>"

definition Register :: "metrics \<Rightarrow> metrics" where
  "Register m = (if registered m then m else m\<lparr>registered := True\<rparr>)"

definition IncServiceReconcile :: "metrics \<Rightarrow> metrics" where
  "IncServiceReconcile m =
     (let m = Register m in m\<lparr>serviceReconcileTotal := serviceReconcileTotal m + 1\<rparr>)"

definition ObserveServiceReconcile :: "bool \<Rightarrow> metrics \<Rightarrow> metrics" where
  "ObserveServiceReconcile failed m =
     (let m = Register m;
          m = m\<lparr>serviceReconcileObservations := serviceReconcileObservations m + 1\<rparr>
      in if failed then m\<lparr>serviceReconcileErrorsTotal := serviceReconcileErrorsTotal m + 1\<rparr> else m)"

definition recordIPAllocation :: "string \<Rightarrow> metrics \<Rightarrow> metrics" where
  "recordIPAllocation result m =
     (let m = Register m in
      m\<lparr>ipAllocationsTotal := (ipAllocationsTotal m)(result := ipAllocationsTotal m result + 1)\<rparr>)"

definition RecordIPAllocationAllocated :: "metrics \<Rightarrow> metrics" where
  "RecordIPAllocationAllocated m = recordIPAllocation ''allocated'' m"

definition RecordIPAllocationReused :: "metrics \<Rightarrow> metrics" where
  "RecordIPAllocationReused m = recordIPAllocation ''reused'' m"

definition RecordIPAllocationExhausted :: "metrics \<Rightarrow> metrics" where
  "RecordIPAllocationExhausted m = recordIPAllocation ''exhausted'' m"

definition RecordIPAllocationError :: "metrics \<Rightarrow> metrics" where
  "RecordIPAllocationError m = recordIPAllocation ''error'' m"

definition recordProviderOperation :: "string \<Rightarrow> string \<Rightarrow> metrics \<Rightarrow> metrics" where
  "recordProviderOperation operation result m =
     (let m = Register m; k = (operation, result) in
      m\<lparr>providerOperationsTotal := (providerOperationsTotal m)(k := providerOperationsTotal m k + 1)\<rparr>)"

section \<open>The instrumented provider\<close>

text \<open>The state of the wrapper: the wrapped provider's state, the tracked references, the metrics.\<close>

type_synonym 'q instrumented = "('q \<times> service_ref list) \<times> metrics"

definition trackEnsure :: "service_ref \<Rightarrow> service_ref list \<Rightarrow> metrics \<Rightarrow> service_ref list \<times> metrics" where
  "trackEnsure ref refs m =
     (let refs = List.insert ref refs in (refs, m\<lparr>providerManagedServices := length refs\<rparr>))"

definition trackDelete :: "service_ref \<Rightarrow> service_ref list \<Rightarrow> metrics \<Rightarrow> service_ref list \<times> metrics" where
  "trackDelete ref refs m =
     (let refs = removeAll ref refs in (refs, m\<lparr>providerManagedServices := length refs\<rparr>))"

definition Instrumented_Ensure ::
  "('q, 'e) provider_ops \<Rightarrow> p_service \<Rightarrow> 'q instrumented \<Rightarrow> ('e, bool) result \<times> 'q instrumented" where
  "Instrumented_Ensure next service = (\<lambda>((q, refs), m).
     case prov_Ensure next service q of
       (Inl err, q) \<Rightarrow> (Inl err, ((q, refs), recordProviderOperation ''ensure'' ''error'' m))
     | (Inr changed, q) \<Rightarrow>
         (case trackEnsure (Ref service) refs (recordProviderOperation ''ensure'' ''success'' m) of
            (refs, m) \<Rightarrow> (Inr changed, ((q, refs), m))))"

definition Instrumented_Delete ::
  "('q, 'e) provider_ops \<Rightarrow> service_ref \<Rightarrow> 'q instrumented \<Rightarrow> ('e, bool) result \<times> 'q instrumented" where
  "Instrumented_Delete next ref = (\<lambda>((q, refs), m).
     case prov_Delete next ref q of
       (Inl err, q) \<Rightarrow> (Inl err, ((q, refs), recordProviderOperation ''delete'' ''error'' m))
     | (Inr changed, q) \<Rightarrow>
         (case trackDelete ref refs (recordProviderOperation ''delete'' ''success'' m) of
            (refs, m) \<Rightarrow> (Inr changed, ((q, refs), m))))"

definition WrapProvider :: "('q, 'e) provider_ops \<Rightarrow> ('q instrumented, 'e) provider_ops" where
  "WrapProvider next = \<lparr>prov_Ensure = Instrumented_Ensure next, prov_Delete = Instrumented_Delete next\<rparr>"

section \<open>The wrapper keeps the contract\<close>

text \<open>The tracked references are the stored Services, and the gauge counts them.\<close>

definition tracks :: "('q \<Rightarrow> service_ref \<rightharpoonup> p_service) \<Rightarrow> 'q instrumented \<Rightarrow> bool" where
  "tracks desired = (\<lambda>((q, refs), m). distinct refs \<and> set refs = dom (desired q) \<and>
     providerManagedServices m = length refs)"

lemma Register_sel [simp]:
  "providerManagedServices (Register m) = providerManagedServices m"
  "providerOperationsTotal (Register m) = providerOperationsTotal m"
  "ipAllocationsTotal (Register m) = ipAllocationsTotal m"
  "serviceReconcileTotal (Register m) = serviceReconcileTotal m"
  "serviceReconcileErrorsTotal (Register m) = serviceReconcileErrorsTotal m"
  "serviceReconcileObservations (Register m) = serviceReconcileObservations m"
  by (simp_all add: Register_def)

lemma recordProviderOperation_sel [simp]:
  "providerManagedServices (recordProviderOperation o1 r m) = providerManagedServices m"
  by (simp add: recordProviderOperation_def Let_def)

lemma WrapProvider_cases:
  assumes "Instrumented_Ensure next s ((q, refs), m) = (r, ((q', refs'), m'))"
  shows "prov_Ensure next s q = (r, q')"
    "refs' = (case r of Inl _ \<Rightarrow> refs | Inr _ \<Rightarrow> List.insert (Ref s) refs)"
    "providerManagedServices m' = (case r of Inl _ \<Rightarrow> providerManagedServices m | Inr _ \<Rightarrow> length refs')"
  using assms
  by (auto simp: Instrumented_Ensure_def trackEnsure_def Let_def split: prod.splits sum.splits)

lemma WrapProvider_delete_cases:
  assumes "Instrumented_Delete next ref ((q, refs), m) = (r, ((q', refs'), m'))"
  shows "prov_Delete next ref q = (r, q')"
    "refs' = (case r of Inl _ \<Rightarrow> refs | Inr _ \<Rightarrow> removeAll ref refs)"
    "providerManagedServices m' = (case r of Inl _ \<Rightarrow> providerManagedServices m | Inr _ \<Rightarrow> length refs')"
  using assms
  by (auto simp: Instrumented_Delete_def trackDelete_def Let_def split: prod.splits sum.splits)

lemma wrapped_meets_contract:
  assumes "service_provider next desired canon ok"
  shows "service_provider (WrapProvider next) (\<lambda>w. desired (fst (fst w))) canon
    (\<lambda>w. ok (fst (fst w)) \<and> tracks desired w)"
proof -
  note c = service_provider.ensure_ok [OF assms] service_provider.ensure_err [OF assms]
    service_provider.ensure_keeps [OF assms] service_provider.delete_ok [OF assms]
    service_provider.delete_err [OF assms] service_provider.delete_keeps [OF assms]
  have tr: "tracks desired w'" if "ok (fst (fst w))" "tracks desired w" "Instrumented_Ensure next s w = (r, w')"
    for s r w w'
  proof -
    obtain q refs m q' refs' m' where w: "w = ((q, refs), m)" "w' = ((q', refs'), m')"
      by (metis surj_pair)
    note W = WrapProvider_cases [OF that(3) [unfolded w]]
    show ?thesis
      using W c(1,2) [of q s] that(1,2) unfolding w
      by (cases r) (auto simp: tracks_def distinct_insert)
  qed
  have td: "tracks desired w'" if "ok (fst (fst w))" "tracks desired w" "Instrumented_Delete next ref w = (r, w')"
    for ref r w w'
  proof -
    obtain q refs m q' refs' m' where w: "w = ((q, refs), m)" "w' = ((q', refs'), m')"
      by (metis surj_pair)
    note W = WrapProvider_delete_cases [OF that(3) [unfolded w]]
    show ?thesis
      using W c(4,5) [of q ref] that(1,2) unfolding w
      by (cases r) (auto simp: tracks_def distinct_removeAll)
  qed
  have e: "prov_Ensure next s (fst (fst w)) = (r, fst (fst w'))" if "Instrumented_Ensure next s w = (r, w')" for s r w w'
    using that WrapProvider_cases(1) by (metis prod.collapse)
  have d: "prov_Delete next ref (fst (fst w)) = (r, fst (fst w'))" if "Instrumented_Delete next ref w = (r, w')"
    for ref r w w'
    using that WrapProvider_delete_cases(1) by (metis prod.collapse)
  show ?thesis
  proof (unfold_locales, unfold WrapProvider_def provider_ops.simps, goal_cases)
    case (1 p s c p') then show ?case using c(1) e by blast
  next
    case (2 p s e' p') then show ?case using c(2) e by blast
  next
    case (3 p s r p') then show ?case using c(3) e tr by blast
  next
    case (4 p ref c p') then show ?case using c(4) d by blast
  next
    case (5 p ref e' p') then show ?case using c(5) d by blast
  next
    case (6 p ref r p') then show ?case using c(6) d td by blast
  qed
qed

text \<open>The wrapper also keeps the weaker contract of a provider behind a network.\<close>

lemma wrapped_keeps_effects:
  assumes "provider_effects next desired canon ok legal"
  shows "provider_effects (WrapProvider next) (\<lambda>w. desired (fst (fst w))) canon (\<lambda>w. ok (fst (fst w))) legal"
proof -
  have e: "prov_Ensure next s (fst (fst w)) = (r, fst (fst w'))" if "Instrumented_Ensure next s w = (r, w')" for s r w w'
    using that WrapProvider_cases(1) by (metis prod.collapse)
  have d: "prov_Delete next ref (fst (fst w)) = (r, fst (fst w'))" if "Instrumented_Delete next ref w = (r, w')"
    for ref r w w'
    using that WrapProvider_delete_cases(1) by (metis prod.collapse)
  show ?thesis
    by (unfold_locales, unfold WrapProvider_def provider_ops.simps)
      (erule (1) provider_effects.ensure_stays [OF assms] provider_effects.ensure_effect [OF assms]
        provider_effects.ensure_done [OF assms] provider_effects.delete_stays [OF assms]
        provider_effects.delete_effect [OF assms] provider_effects.delete_done [OF assms],
       (erule e | erule d))+
qed

interpretation wrapmock: service_provider "WrapProvider mockOps" "\<lambda>w. Mock_Get (fst (fst w))" "\<lambda>s. s"
  "\<lambda>w. mock_ok (fst (fst w)) \<and> tracks Mock_Get w"
  by (rule wrapped_meets_contract [OF mockp.service_provider_axioms])

section \<open>Properties\<close>

text \<open>
  Instrumentation is transparent and its gauge is exact: over a provider that meets the
  contract, \<open>Ensure\<close> and \<open>Delete\<close> return what the wrapped provider returns and change its
  state in the same way, and afterwards the managed-services gauge is the number of
  Services the provider holds.
\<close>

theorem instrumented_transparent:
  assumes "service_provider inner desired canon ok" "ok q" "tracks desired ((q, refs), m)"
  shows "(case Instrumented_Ensure inner s ((q, refs), m) of (r, ((q', refs'), m')) \<Rightarrow>
      prov_Ensure inner s q = (r, q') \<and> providerManagedServices m' = card (dom (desired q'))) \<and>
    (case Instrumented_Delete inner ref ((q, refs), m) of (r, ((q', refs'), m')) \<Rightarrow>
      prov_Delete inner ref q = (r, q') \<and> providerManagedServices m' = card (dom (desired q')))"
proof -
  have g: "providerManagedServices m' = card (dom (desired q'))" if "tracks desired ((q', refs'), m')"
    for q' refs' m'
    using that distinct_card [of refs'] by (auto simp: tracks_def)
  note k = service_provider.ensure_keeps [OF wrapped_meets_contract [OF assms(1)], of "((q, refs), m)" s]
    service_provider.delete_keeps [OF wrapped_meets_contract [OF assms(1)], of "((q, refs), m)" ref]
  obtain r q' refs' m' where e: "Instrumented_Ensure inner s ((q, refs), m) = (r, ((q', refs'), m'))"
    by (metis surj_pair)
  obtain r2 q2 refs2 m2 where d: "Instrumented_Delete inner ref ((q, refs), m) = (r2, ((q2, refs2), m2))"
    by (metis surj_pair)
  have "tracks desired ((q', refs'), m')" "tracks desired ((q2, refs2), m2)"
    using k assms(2,3) e d by (simp_all add: WrapProvider_def)
  with e d g WrapProvider_cases(1) [OF e] WrapProvider_delete_cases(1) [OF d] show ?thesis by simp
qed

definition tinyService :: p_service where
  "tinyService = \<lparr>svc_Namespace = ''web'', svc_Name = ''shop'', LoadBalancerClass = ''lb'',
     ExternalIP = ''203.0.113.10'', Ports = []\<rparr>"

theorem instrumented_transparent_witness:
  "case Instrumented_Ensure (mockOps :: (mock_provider, unit) provider_ops) tinyService
      ((NewMockProvider, []), noMetrics) of
    (r, ((q, refs), m)) \<Rightarrow> r = Inr True \<and> providerManagedServices m = card (dom (Mock_Get q))"
proof -
  have t: "tracks Mock_Get ((NewMockProvider, []), noMetrics)"
    by (simp add: tracks_def NewMockProvider_def noMetrics_def)
  have "fst (prov_Ensure (mockOps :: (mock_provider, unit) provider_ops) tinyService NewMockProvider) = Inr True"
    by (simp add: mockOps_def Mock_Ensure_def NewMockProvider_def)
  moreover obtain r q refs m where
    i: "Instrumented_Ensure (mockOps :: (mock_provider, unit) provider_ops) tinyService
      ((NewMockProvider, []), noMetrics) = (r, ((q, refs), m))"
    by (metis surj_pair)
  ultimately show ?thesis
    using instrumented_transparent [where inner = "mockOps :: (mock_provider, unit) provider_ops",
        OF mockp.service_provider_axioms mock.invar_empty t, of tinyService "Ref tinyService"]
    unfolding i by simp
qed

end
