(* ===== verification/Controller.thy ===== *)
theory Controller
  imports Ipam Backends Status Metrics
begin

text \<open>
  \<open>internal/controller\<close>: which Services are managed, which events cause a reconcile, and the
  reconciler itself: finalizers, address allocation, backend discovery, provider state and
  published status, with the error of every call.

  The Kubernetes client, the provider and the finalizer helpers of controller-runtime are
  parameters.  The reconciler's world is the cluster state, the provider state and the
  metrics.
\<close>

section \<open>Selection and events\<close>

definition isManagedLoadBalancerService :: "kube_service option \<Rightarrow> string \<Rightarrow> bool" where
  "isManagedLoadBalancerService service expectedLoadBalancerClass =
     (case service of None \<Rightarrow> False
      | Some s \<Rightarrow>
          if spec_Type s \<noteq> ServiceTypeLoadBalancer then False
          else case spec_LoadBalancerClass s of
              None \<Rightarrow> False
            | Some c \<Rightarrow> c = expectedLoadBalancerClass)"

definition serviceLoadBalancerClass :: "kube_service option \<Rightarrow> string" where
  "serviceLoadBalancerClass service =
     (case service of None \<Rightarrow> []
      | Some s \<Rightarrow> (case spec_LoadBalancerClass s of None \<Rightarrow> [] | Some c \<Rightarrow> c))"

definition deletionTimestampChanged :: "kube_service option \<Rightarrow> kube_service option \<Rightarrow> bool" where
  "deletionTimestampChanged oldService newService =
     (case (oldService, newService) of
        (None, None) \<Rightarrow> False
      | (None, Some n) \<Rightarrow> DeletionTimestamp n \<noteq> None
      | (Some ol, None) \<Rightarrow> DeletionTimestamp ol \<noteq> None
      | (Some ol, Some n) \<Rightarrow>
          (case (DeletionTimestamp ol, DeletionTimestamp n) of
             (None, None) \<Rightarrow> False
           | (None, Some _) \<Rightarrow> True
           | (Some _, None) \<Rightarrow> True
           | (Some t, Some u) \<Rightarrow> t \<noteq> u))"

text \<open>
  Events of the watched kinds.  The objects of an update event are \<open>None\<close> when they are not
  of the expected type.
\<close>

datatype 'o event = CreateEvent 'o | UpdateEvent "'o option" "'o option" | DeleteEvent 'o | GenericEvent 'o

fun serviceReconcilePredicate :: "kube_service event \<Rightarrow> bool" where
  "serviceReconcilePredicate (CreateEvent _) = True"
| "serviceReconcilePredicate (UpdateEvent (Some ol) (Some n)) =
     (if Generation ol \<noteq> Generation n then True else deletionTimestampChanged (Some ol) (Some n))"
| "serviceReconcilePredicate (UpdateEvent _ _) = True"
| "serviceReconcilePredicate (DeleteEvent _) = False"
| "serviceReconcilePredicate (GenericEvent _) = False"

fun endpointSliceReconcilePredicate :: "endpoint_slice event \<Rightarrow> bool" where
  "endpointSliceReconcilePredicate (CreateEvent _) = True"
| "endpointSliceReconcilePredicate (UpdateEvent (Some ol) (Some n)) = (es_ResourceVersion ol \<noteq> es_ResourceVersion n)"
| "endpointSliceReconcilePredicate (UpdateEvent _ _) = True"
| "endpointSliceReconcilePredicate (DeleteEvent _) = True"
| "endpointSliceReconcilePredicate (GenericEvent _) = False"

definition endpointSliceToServiceRequests :: "endpoint_slice option \<Rightarrow> namespaced_name list" where
  "endpointSliceToServiceRequests obj =
     (case obj of None \<Rightarrow> []
      | Some sl \<Rightarrow>
          let serviceName = label (es_Labels sl) LabelServiceName in
          if serviceName = [] then [] else [(es_Namespace sl, serviceName)])"

section \<open>The reconciler\<close>

text \<open>The helpers of \<open>controllerutil\<close> on the finalizers of an object.\<close>

record finalizer_util =
  ContainsFinalizer :: "string list \<Rightarrow> string \<Rightarrow> bool"
  AddFinalizer :: "string list \<Rightarrow> string \<Rightarrow> string list"
  RemoveFinalizer :: "string list \<Rightarrow> string \<Rightarrow> string list"

record controller_config =
  cc_LoadBalancerClass :: string
  IPPool :: "addr list"
  RequeueAfter :: int

record ('k, 'p, 'e) reconciler =
  Client :: "'k kube_client"
  rec_Config :: controller_config
  Provider :: "('p \<times> metrics, 'e) provider_ops"
  Util :: finalizer_util

record ('k, 'p) cworld =
  kube :: 'k
  prov :: 'p
  met :: metrics

datatype 'e reconcile_error =
    GetService namespaced_name api_error
  | EnsureFinalizer namespaced_name api_error
  | RefreshService namespaced_name api_error
  | ListServicesForAllocation api_error
  | AllocateExternalIP namespaced_name alloc_error
  | ListSlices namespaced_name api_error
  | EnsureProvider namespaced_name 'e
  | UpdateStatus namespaced_name status_error
  | DeleteProvider service_ref 'e
  | RemoveFinalizerFailed service_ref api_error
  | DeleteProviderUnmanaged service_ref 'e
  | ClearStatusUnmanaged service_ref status_error
  | RefreshUnmanaged service_ref api_error
  | RemoveFinalizerUnmanaged service_ref api_error

text \<open>A \<open>ctrl.Result\<close> is its requeue delay; 0 stands for none.\<close>

type_synonym ctrl_result = int

definition serviceFinalizer :: string where
  "serviceFinalizer = ''iedge.local/service-lb-finalizer''"

definition hasServiceFinalizer :: "finalizer_util \<Rightarrow> kube_service option \<Rightarrow> bool" where
  "hasServiceFinalizer u service =
     (case service of None \<Rightarrow> False | Some s \<Rightarrow> ContainsFinalizer u (Finalizers s) serviceFinalizer)"

definition onKube :: "('k \<Rightarrow> 'k \<times> 'r) \<Rightarrow> ('k, 'p) cworld \<Rightarrow> 'r \<times> ('k, 'p) cworld" where
  "onKube f w = (case f (kube w) of (k, r) \<Rightarrow> (r, w\<lparr>kube := k\<rparr>))"

definition onProv :: "('p \<times> metrics \<Rightarrow> 'r \<times> 'p \<times> metrics) \<Rightarrow> ('k, 'p) cworld \<Rightarrow> 'r \<times> ('k, 'p) cworld" where
  "onProv f w = (case f (prov w, met w) of (r, p, m) \<Rightarrow> (r, w\<lparr>prov := p, met := m\<rparr>))"

text \<open>Both finalizer helpers give the Service as the server answered it.\<close>

definition ensureServiceFinalizer ::
  "('k, 'p, 'e) reconciler \<Rightarrow> kube_service \<Rightarrow> ('k, 'p) cworld \<Rightarrow>
   (api_error, bool \<times> kube_service) result \<times> ('k, 'p) cworld" where
  "ensureServiceFinalizer r service w =
     (if hasServiceFinalizer (Util r) (Some service) then (Inr (False, service), w)
      else
        let original = service;
            modified = service\<lparr>Finalizers := AddFinalizer (Util r) (Finalizers service) serviceFinalizer\<rparr>
        in case onKube (client_Patch (Client r) original modified) w of
             (Inl err, w) \<Rightarrow> (Inl err, w)
           | (Inr stored, w) \<Rightarrow> (Inr (True, stored), w))"

definition removeServiceFinalizer ::
  "('k, 'p, 'e) reconciler \<Rightarrow> kube_service \<Rightarrow> ('k, 'p) cworld \<Rightarrow> api_error option \<times> ('k, 'p) cworld" where
  "removeServiceFinalizer r service w =
     (if \<not> hasServiceFinalizer (Util r) (Some service) then (None, w)
      else
        let original = service;
            modified = service\<lparr>Finalizers := RemoveFinalizer (Util r) (Finalizers service) serviceFinalizer\<rparr>
        in case onKube (client_Patch (Client r) original modified) w of
             (Inl err, w) \<Rightarrow> (Some err, w)
           | (Inr stored, w) \<Rightarrow> (None, w))"

definition serviceRefOf :: "kube_service \<Rightarrow> service_ref" where
  "serviceRefOf s = \<lparr>Namespace = ks_Namespace s, Name = ks_Name s\<rparr>"

definition reconcileDeletingService ::
  "('k, 'p, 'e) reconciler \<Rightarrow> kube_service \<Rightarrow> ('k, 'p) cworld \<Rightarrow>
   'e reconcile_error option \<times> ('k, 'p) cworld" where
  "reconcileDeletingService r service w =
     (if \<not> hasServiceFinalizer (Util r) (Some service) then (None, w)
      else
        let serviceRef = serviceRefOf service in
        case onProv (prov_Delete (Provider r) serviceRef) w of
          (Inl err, w) \<Rightarrow> (Some (DeleteProvider serviceRef err), w)
        | (Inr providerChanged, w) \<Rightarrow>
            (case removeServiceFinalizer r service w of
               (Some err, w) \<Rightarrow> (Some (RemoveFinalizerFailed serviceRef err), w)
             | (None, w) \<Rightarrow> (None, w)))"

text \<open>
  \<open>reconcileUnmanagedService\<close>, from the deletion of the provider state on, and then with its
  early return (a Service without finalizer and without an owned status needs no clean-up,
  and one of the two holds wherever the code tests them again).  The caller's Service object is passed along: the status
  update replaces its status, the refresh replaces it whole.
\<close>

definition cleanupUnmanaged ::
  "('k, 'p, 'e) reconciler \<Rightarrow> kube_service \<Rightarrow> ('k, 'p) cworld \<Rightarrow>
   'e reconcile_error option \<times> ('k, 'p) cworld" where
  "cleanupUnmanaged r service w =
     (let serviceRef = serviceRefOf service in
      case onProv (prov_Delete (Provider r) serviceRef) w of
        (Inl err, w) \<Rightarrow> (Some (DeleteProviderUnmanaged serviceRef err), w)
      | (Inr providerChanged, w) \<Rightarrow>
          (case onKube (UpdateServiceLoadBalancerStatus (Client r) (Some service) []) w of
             ((_, Inl err), w) \<Rightarrow> (Some (ClearStatusUnmanaged serviceRef err), w)
           | ((None, Inr statusWasCleared), w) \<Rightarrow> (None, w)
           | ((Some service, Inr statusWasCleared), w) \<Rightarrow>
               if \<not> hasServiceFinalizer (Util r) (Some service) then (None, w)
               else
                 let (refreshed, w) =
                   (if statusWasCleared then onKube (client_Get (Client r) (objectKey service)) w
                    else (Inr service, w))
                 in case refreshed of
                      Inl err \<Rightarrow> (Some (RefreshUnmanaged serviceRef err), w)
                    | Inr service \<Rightarrow>
                        (case removeServiceFinalizer r service w of
                           (Some err, w) \<Rightarrow> (Some (RemoveFinalizerUnmanaged serviceRef err), w)
                         | (None, w) \<Rightarrow> (None, w))))"

definition reconcileUnmanagedService ::
  "('k, 'p, 'e) reconciler \<Rightarrow> kube_service \<Rightarrow> ('k, 'p) cworld \<Rightarrow>
   'e reconcile_error option \<times> ('k, 'p) cworld" where
  "reconcileUnmanagedService r service w =
     (let ownedStatus = HasLoadBalancerIngressIPInPool (Some service) (IPPool (rec_Config r)) in
      if \<not> hasServiceFinalizer (Util r) (Some service) \<and> \<not> ownedStatus then (None, w)
      else cleanupUnmanaged r service w)"

definition listServicesForAllocation ::
  "('k, 'p, 'e) reconciler \<Rightarrow> ('k, 'p) cworld \<Rightarrow> (api_error, kube_service list) result \<times> ('k, 'p) cworld" where
  "listServicesForAllocation r w = onKube (client_ListServices (Client r)) w"

definition listEndpointSlicesForService ::
  "('k, 'p, 'e) reconciler \<Rightarrow> kube_service option \<Rightarrow> ('k, 'p) cworld \<Rightarrow>
   (api_error, endpoint_slice list) result \<times> ('k, 'p) cworld" where
  "listEndpointSlicesForService r service w =
     (case service of None \<Rightarrow> (Inr [], w)
      | Some s \<Rightarrow> onKube (client_ListEndpointSlices (Client r) (ks_Namespace s) (ks_Name s)) w)"

definition buildProviderService :: "kube_service \<Rightarrow> string \<Rightarrow> port_backends list \<Rightarrow> p_service" where
  "buildProviderService service externalIP discoveredBackends =
     \<lparr>svc_Namespace = ks_Namespace service, svc_Name = ks_Name service,
      LoadBalancerClass = serviceLoadBalancerClass (Some service), ExternalIP = externalIP,
      Ports = map (\<lambda>port. \<lparr>sp_Name = pb_Name port, Protocol = pb_Protocol port, sp_Port = pb_Port port,
        TargetPort = IntOrString_String (pb_TargetPort port), Backends = pb_Backends port\<rparr>) discoveredBackends\<rparr>"

definition providerBackendCount :: "p_service \<Rightarrow> nat" where
  "providerBackendCount service = foldl (\<lambda>total port. total + length (Backends port)) 0 (Ports service)"

text \<open>The allocator of the reconciler considers the Services the controller manages.\<close>

definition allocatorOf :: "controller_config \<Rightarrow> allocator" where
  "allocatorOf cfg = NewAllocator (IPPool cfg)
     (Some (\<lambda>candidate. isManagedLoadBalancerService candidate (cc_LoadBalancerClass cfg)))"

definition recordAllocation :: "allocation \<Rightarrow> ('k, 'p) cworld \<Rightarrow> ('k, 'p) cworld" where
  "recordAllocation a w =
     w\<lparr>met := (if Reused a then RecordIPAllocationReused (met w) else RecordIPAllocationAllocated (met w))\<rparr>"

text \<open>The part of \<open>Reconcile\<close> after the allocation: backends, provider, status.\<close>

definition publishService ::
  "('k, 'p, 'e) reconciler \<Rightarrow> namespaced_name \<Rightarrow> kube_service \<Rightarrow> allocation \<Rightarrow> ('k, 'p) cworld \<Rightarrow>
   ('e reconcile_error, ctrl_result) result \<times> ('k, 'p) cworld" where
  "publishService r req service a w =
     (case listEndpointSlicesForService r (Some service) w of
        (Inl err, w) \<Rightarrow> (Inl (ListSlices req err), w)
      | (Inr endpointSlices, w) \<Rightarrow>
          let discoveredBackends = Discover (Some service) endpointSlices;
              providerService = buildProviderService service (AddrString (alloc_IP a)) discoveredBackends
          in case onProv (prov_Ensure (Provider r) providerService) w of
               (Inl err, w) \<Rightarrow> (Inl (EnsureProvider req err), w)
             | (Inr providerChanged, w) \<Rightarrow>
                 (case onKube (UpdateServiceLoadBalancerStatus (Client r) (Some service)
                     (DesiredLoadBalancerIngress (AddrString (alloc_IP a)))) w of
                    ((_, Inl err), w) \<Rightarrow> (Inl (UpdateStatus req err), w)
                  | ((_, Inr updated), w) \<Rightarrow> (Inr 0, w)))"

text \<open>The part of \<open>Reconcile\<close> for a managed Service.\<close>

definition reconcileManaged ::
  "('k, 'p, 'e) reconciler \<Rightarrow> namespaced_name \<Rightarrow> kube_service \<Rightarrow> ('k, 'p) cworld \<Rightarrow>
   ('e reconcile_error, ctrl_result) result \<times> ('k, 'p) cworld" where
  "reconcileManaged r req service w =
     (case ensureServiceFinalizer r service w of
        (Inl err, w) \<Rightarrow> (Inl (EnsureFinalizer req err), w)
      | (Inr (finalizerAdded, service), w) \<Rightarrow>
          let (refreshed, w) =
            (if finalizerAdded then onKube (client_Get (Client r) req) w else (Inr service, w))
          in case refreshed of
               Inl err \<Rightarrow> (Inl (RefreshService req err), w)
             | Inr service \<Rightarrow>
                 (case listServicesForAllocation r w of
                    (Inl err, w) \<Rightarrow> (Inl (ListServicesForAllocation err), w)
                  | (Inr services, w) \<Rightarrow>
                      (case Allocate (allocatorOf (rec_Config r)) (Some service) services of
                         Inl ErrNoFreeIP \<Rightarrow>
                           (Inr (RequeueAfter (rec_Config r)), w\<lparr>met := RecordIPAllocationExhausted (met w)\<rparr>)
                       | Inl err \<Rightarrow>
                           (Inl (AllocateExternalIP req err), w\<lparr>met := RecordIPAllocationError (met w)\<rparr>)
                       | Inr a \<Rightarrow> publishService r req service a (recordAllocation a w))))"

definition reconcileService ::
  "('k, 'p, 'e) reconciler \<Rightarrow> namespaced_name \<Rightarrow> ('k, 'p) cworld \<Rightarrow>
   ('e reconcile_error, ctrl_result) result \<times> ('k, 'p) cworld" where
  "reconcileService r req w =
     (case onKube (client_Get (Client r) req) w of
        (Inl NotFound, w) \<Rightarrow> (Inr 0, w)
      | (Inl err, w) \<Rightarrow> (Inl (GetService req err), w)
      | (Inr service, w) \<Rightarrow>
          if DeletionTimestamp service \<noteq> None then
            (case reconcileDeletingService r service w of
               (Some err, w) \<Rightarrow> (Inl err, w) | (None, w) \<Rightarrow> (Inr 0, w))
          else if \<not> isManagedLoadBalancerService (Some service) (cc_LoadBalancerClass (rec_Config r)) then
            (case reconcileUnmanagedService r service w of
               (Some err, w) \<Rightarrow> (Inl err, w) | (None, w) \<Rightarrow> (Inr 0, w))
          else reconcileManaged r req service w)"

text \<open>\<open>Reconcile\<close> counts the attempt first and observes its outcome last.\<close>

definition Reconcile ::
  "('k, 'p, 'e) reconciler \<Rightarrow> namespaced_name \<Rightarrow> ('k, 'p) cworld \<Rightarrow>
   ('e reconcile_error, ctrl_result) result \<times> ('k, 'p) cworld" where
  "Reconcile r req w =
     (case reconcileService r req (w\<lparr>met := IncServiceReconcile (met w)\<rparr>) of
        (res, w) \<Rightarrow> (res, w\<lparr>met := ObserveServiceReconcile (isl res) (met w)\<rparr>))"

datatype setup_error = ServiceProviderNil

definition SetupControllers ::
  "'k kube_client \<Rightarrow> finalizer_util \<Rightarrow> controller_config \<Rightarrow> ('p \<times> metrics, 'e) provider_ops option \<Rightarrow>
   (setup_error, ('k, 'p, 'e) reconciler) result" where
  "SetupControllers c u cfg serviceProvider =
     (case serviceProvider of
        None \<Rightarrow> Inl ServiceProviderNil
      | Some p \<Rightarrow> Inr \<lparr>Client = c, rec_Config = cfg, Provider = p, Util = u\<rparr>)"

section \<open>What the reconciler relies on\<close>

text \<open>
  The Kubernetes API as a store of Services: \<open>objs k\<close> maps names to stored objects.  Reads
  see the store, a status update replaces the status of the stored object, a merge patch of
  the finalizers replaces its finalizers, and an object marked for deletion is removed with
  its last finalizer.  A write that fails may or may not have been carried out, as when its
  answer is lost.
\<close>

definition withFinalizers :: "kube_service \<Rightarrow> string list \<Rightarrow> kube_service option" where
  "withFinalizers old fs =
     (if DeletionTimestamp old \<noteq> None \<and> fs = [] then None else Some (old\<lparr>Finalizers := fs\<rparr>))"

locale kube_api =
  fixes c :: "'k kube_client" and objs :: "'k \<Rightarrow> namespaced_name \<rightharpoonup> kube_service"
  assumes stored_key: "objs k key = Some s \<Longrightarrow> objectKey s = key"
    and get_state: "client_Get c key k = (k', g) \<Longrightarrow> objs k' = objs k"
    and get_found: "client_Get c key k = (k', Inr s) \<Longrightarrow> objs k key = Some s"
    and get_missing: "client_Get c key k = (k', Inl NotFound) \<Longrightarrow> objs k key = None"
    and list_state: "client_ListServices c k = (k', l) \<Longrightarrow> objs k' = objs k"
    and list_fresh: "client_ListServices c k = (k', Inr ss) \<Longrightarrow> set ss = ran (objs k)"
    and slices_state: "client_ListEndpointSlices c ns name k = (k', sl) \<Longrightarrow> objs k' = objs k"
    and status_ok: "client_StatusUpdate c s k = (k', Inr t) \<Longrightarrow>
      \<exists>old. objs k (objectKey s) = Some old \<and> t = old\<lparr>status_Ingress := status_Ingress s\<rparr> \<and>
        objs k' = (objs k)(objectKey s \<mapsto> t)"
    and status_err: "client_StatusUpdate c s k = (k', Inl e) \<Longrightarrow> objs k' = objs k \<or>
      (\<exists>old. objs k (objectKey s) = Some old \<and>
        objs k' = (objs k)(objectKey s \<mapsto> old\<lparr>status_Ingress := status_Ingress s\<rparr>))"
    and patch_ok: "client_Patch c s (s\<lparr>Finalizers := fs\<rparr>) k = (k', Inr t) \<Longrightarrow> fs \<noteq> Finalizers s \<Longrightarrow>
      \<exists>old. objs k (objectKey s) = Some old \<and> t = old\<lparr>Finalizers := fs\<rparr> \<and>
        objs k' = (objs k)(objectKey s := withFinalizers old fs)"
    and patch_err: "client_Patch c s (s\<lparr>Finalizers := fs\<rparr>) k = (k', Inl e) \<Longrightarrow> fs \<noteq> Finalizers s \<Longrightarrow>
      objs k' = objs k \<or>
      (\<exists>old. objs k (objectKey s) = Some old \<and> objs k' = (objs k)(objectKey s := withFinalizers old fs))"

locale finalizer_laws =
  fixes u :: finalizer_util
  assumes contains: "ContainsFinalizer u fs f \<longleftrightarrow> f \<in> set fs"
    and add: "set (AddFinalizer u fs f) = insert f (set fs)"
    and remove: "set (RemoveFinalizer u fs f) = set fs - {f}"

definition refOf :: "namespaced_name \<Rightarrow> service_ref" where
  "refOf key = \<lparr>Namespace = fst key, Name = snd key\<rparr>"

text \<open>
  The environment of a reconciler: the API, the finalizer helpers and a provider that meets
  its contract and does not care about the counters that the reconciler itself updates.
\<close>

locale controller_env =
  kube_api "Client r" objs + finalizer_laws "Util r" + provider_effects "Provider r" desired canon ok legal
  for r :: "('k, 'p, 'e) reconciler" and objs :: "'k \<Rightarrow> namespaced_name \<rightharpoonup> kube_service"
    and desired :: "'p \<times> metrics \<Rightarrow> service_ref \<rightharpoonup> p_service" and canon :: "p_service \<Rightarrow> p_service"
    and ok :: "'p \<times> metrics \<Rightarrow> bool" and legal :: "service_ref \<Rightarrow> bool" +
  assumes counters: "providerManagedServices m = providerManagedServices m' \<Longrightarrow>
      desired (p, m) = desired (p, m') \<and> ok (p, m) = ok (p, m')"
    and legal_names: "objs k key = Some s \<Longrightarrow> legal (refOf key)"
    and canon_address: "Is4 a \<Longrightarrow> ExternalIP v = AddrString a \<Longrightarrow> ExternalIP (canon v) = AddrString a"
    and pool_ipv4: "a \<in> set (IPPool (rec_Config r)) \<Longrightarrow> Is4 a"

section \<open>The atomic steps of a reconcile\<close>

text \<open>
  An abstract state is the stored Services and the provider's desired state.  Everything a
  reconcile of one Service may do to it is one of these steps; each is a single call to the
  API server or to the provider, so a crash or an error between two of them is covered.
\<close>

type_synonym abs_state = "(namespaced_name \<rightharpoonup> kube_service) \<times> (service_ref \<rightharpoonup> p_service)"

definition liveManaged :: "controller_config \<Rightarrow> kube_service \<Rightarrow> bool" where
  "liveManaged cfg s = (DeletionTimestamp s = None \<and>
     isManagedLoadBalancerService (Some s) (cc_LoadBalancerClass cfg))"

text \<open>No other live managed Service publishes the address.\<close>

definition freeFor :: "controller_config \<Rightarrow> namespaced_name \<Rightarrow> (namespaced_name \<rightharpoonup> kube_service) \<Rightarrow> addr \<Rightarrow> bool" where
  "freeFor cfg key st a \<longleftrightarrow>
     (\<forall>key' s'. st key' = Some s' \<longrightarrow> key' \<noteq> key \<longrightarrow> liveManaged cfg s' \<longrightarrow> \<not> publishes s' a)"

inductive ctl_step :: "controller_config \<Rightarrow> namespaced_name \<Rightarrow> abs_state \<Rightarrow> abs_state \<Rightarrow> bool"
  for cfg :: controller_config and key :: namespaced_name where
  addFinalizer: "st key = Some s \<Longrightarrow> set fs = insert serviceFinalizer (set (Finalizers s)) \<Longrightarrow>
    ctl_step cfg key (st, d) (st(key \<mapsto> s\<lparr>Finalizers := fs\<rparr>), d)"
| providerEnsure: "st key = Some s \<Longrightarrow> serviceFinalizer \<in> set (Finalizers s) \<Longrightarrow>
    a \<in> set (IPPool cfg) \<Longrightarrow> ExternalIP v = AddrString a \<Longrightarrow> freeFor cfg key st a \<Longrightarrow>
    ctl_step cfg key (st, d) (st, d(refOf key \<mapsto> v))"
| publish: "st key = Some s \<Longrightarrow> a \<in> set (IPPool cfg) \<Longrightarrow> freeFor cfg key st a \<Longrightarrow>
    ctl_step cfg key (st, d) (st(key \<mapsto> s\<lparr>status_Ingress := DesiredLoadBalancerIngress (AddrString a)\<rparr>), d)"
| providerDelete: "ctl_step cfg key (st, d) (st, d(refOf key := None))"
| clearStatus: "st key = Some s \<Longrightarrow> ctl_step cfg key (st, d) (st(key \<mapsto> s\<lparr>status_Ingress := []\<rparr>), d)"
| dropFinalizer: "st key = Some s \<Longrightarrow> d (refOf key) = None \<Longrightarrow>
    set fs = set (Finalizers s) - {serviceFinalizer} \<Longrightarrow>
    n = (if DeletionTimestamp s \<noteq> None \<and> fs = [] then None else Some (s\<lparr>Finalizers := fs\<rparr>)) \<Longrightarrow>
    ctl_step cfg key (st, d) (st(key := n), d)"

inductive_cases ctl_stepE: "ctl_step cfg key (st, d) (st', d')"

lemma serviceRefOf_key: "objectKey s = key \<Longrightarrow> serviceRefOf s = refOf key"
  by (auto simp: serviceRefOf_def refOf_def objectKey_def)

lemma Ref_build: "objectKey s = key \<Longrightarrow> Ref (buildProviderService s ip ds) = refOf key"
  by (auto simp: buildProviderService_def refOf_def objectKey_def Ref_def)

text \<open>The abstract state of a world.\<close>

definition absState ::
  "('k \<Rightarrow> namespaced_name \<rightharpoonup> kube_service) \<Rightarrow> ('p \<times> metrics \<Rightarrow> service_ref \<rightharpoonup> p_service) \<Rightarrow>
   ('k, 'p) cworld \<Rightarrow> abs_state" where
  "absState objs desired w = (objs (kube w), desired (prov w, met w))"

text \<open>The last call to the provider was a successful \<open>Ensure\<close> of this Service.\<close>

definition justEnsured ::
  "('p \<times> metrics, 'e) provider_ops \<Rightarrow> ('p \<times> metrics \<Rightarrow> bool) \<Rightarrow> service_ref \<Rightarrow> 'p \<Rightarrow> bool" where
  "justEnsured ops ok ref p \<longleftrightarrow> (\<exists>v q b m. ok q \<and> Ref v = ref \<and> prov_Ensure ops v q = (Inr b, p, m))"

lemma justEnsuredI: "ok q \<Longrightarrow> prov_Ensure ops v q = (Inr b, p, m) \<Longrightarrow> justEnsured ops ok (Ref v) p"
  unfolding justEnsured_def by blast

context controller_env
begin

abbreviation abs :: "('k, 'p) cworld \<Rightarrow> abs_state" where
  "abs w \<equiv> absState objs desired w"

abbreviation good :: "('k, 'p) cworld \<Rightarrow> bool" where
  "good w \<equiv> ok (prov w, met w)"

abbreviation steps :: "namespaced_name \<Rightarrow> ('k, 'p) cworld \<Rightarrow> ('k, 'p) cworld \<Rightarrow> bool" where
  "steps key w w' \<equiv> (ctl_step (rec_Config r) key)\<^sup>*\<^sup>* (abs w) (abs w') \<and> good w'"

lemma counters_abs:
  assumes "providerManagedServices m = providerManagedServices (met w)"
  shows "abs (w\<lparr>met := m\<rparr>) = abs w" "good (w\<lparr>met := m\<rparr>) = good w"
  using counters [OF assms, of "prov w"] by (simp_all add: absState_def)

lemma hasFinalizer_iff: "hasServiceFinalizer (Util r) (Some s) \<longleftrightarrow> serviceFinalizer \<in> set (Finalizers s)"
  by (simp add: hasServiceFinalizer_def contains)

text \<open>Calls that only read.\<close>

lemma onKube_read:
  assumes "onKube f w = (x, w')" "\<And>k' x. f (kube w) = (k', x) \<Longrightarrow> objs k' = objs (kube w)"
  shows "abs w' = abs w" "good w' = good w" "prov w' = prov w" "met w' = met w" "objs (kube w') = objs (kube w)"
  using assms by (auto simp: onKube_def absState_def split: prod.splits)

lemma onKube_result: "onKube f w = (x, w') \<Longrightarrow> \<exists>k'. f (kube w) = (k', x) \<and> w' = w\<lparr>kube := k'\<rparr>"
  by (auto simp: onKube_def split: prod.splits)

lemma get_read:
  assumes "onKube (client_Get (Client r) key) w = (x, w')"
  shows "abs w' = abs w" "good w' = good w" "x = Inr s \<Longrightarrow> objs (kube w') key = Some s \<and> objectKey s = key"
proof -
  obtain k' where k: "client_Get (Client r) key (kube w) = (k', x)" "w' = w\<lparr>kube := k'\<rparr>"
    using onKube_result [OF assms] by blast
  have o: "objs k' = objs (kube w)" using get_state [OF k(1)] .
  show "abs w' = abs w" "good w' = good w" using k(2) o by (simp_all add: absState_def)
  show "x = Inr s \<Longrightarrow> objs (kube w') key = Some s \<and> objectKey s = key"
    using get_found [of key "kube w" k' s] k o stored_key by simp
qed

text \<open>Provider calls.\<close>

lemma prov_delete_cases:
  assumes "onProv (prov_Delete (Provider r) ref) w = (x, w')" "good w" "legal ref"
  shows "kube w' = kube w" "good w'" "abs w' = abs w \<or> abs w' = (fst (abs w), (snd (abs w))(ref := None))"
    "x = Inr b \<Longrightarrow> abs w' = (fst (abs w), (snd (abs w))(ref := None))"
  using assms delete_done [of "(prov w, met w)" ref] delete_effect [of "(prov w, met w)" ref]
    delete_stays [of "(prov w, met w)" ref]
  by (auto simp: onProv_def absState_def split: prod.splits)

lemma prov_ensure_cases:
  assumes "onProv (prov_Ensure (Provider r) v) w = (x, w')" "good w" "legal (Ref v)"
  shows "kube w' = kube w" "good w'" "abs w' = abs w \<or> abs w' = (fst (abs w), (snd (abs w))(Ref v \<mapsto> canon v))"
    "x = Inr b \<Longrightarrow> abs w' = (fst (abs w), (snd (abs w))(Ref v \<mapsto> canon v))"
    "x = Inr b \<Longrightarrow> justEnsured (Provider r) ok (Ref v) (prov w')"
  using assms ensure_done [of "(prov w, met w)" v] ensure_effect [of "(prov w, met w)" v]
    ensure_stays [of "(prov w, met w)" v]
  by (auto simp: onProv_def absState_def intro: justEnsuredI split: prod.splits)

text \<open>Calls that write to the API.\<close>

lemma patch_result:
  assumes "onKube (client_Patch (Client r) s (s\<lparr>Finalizers := fs\<rparr>)) w = (x, w')" "objectKey s = key"
    and "objs (kube w) key = Some old" "fs \<noteq> Finalizers s"
  shows "good w' = good w"
    "x = Inl e \<Longrightarrow> abs w' = abs w \<or> abs w' = ((fst (abs w))(key := withFinalizers old fs), snd (abs w))"
    "x = Inr t \<Longrightarrow> t = old\<lparr>Finalizers := fs\<rparr> \<and>
      abs w' = ((fst (abs w))(key := withFinalizers old fs), snd (abs w))"
proof -
  obtain k' where k: "client_Patch (Client r) s (s\<lparr>Finalizers := fs\<rparr>) (kube w) = (k', x)" "w' = w\<lparr>kube := k'\<rparr>"
    using onKube_result [OF assms(1)] by blast
  show "good w' = good w" using k(2) by simp
  show "x = Inl e \<Longrightarrow> abs w' = abs w \<or> abs w' = ((fst (abs w))(key := withFinalizers old fs), snd (abs w))"
    using patch_err [of s fs "kube w" k' e] k assms(2-4) by (auto simp: absState_def)
  show "x = Inr t \<Longrightarrow> t = old\<lparr>Finalizers := fs\<rparr> \<and>
      abs w' = ((fst (abs w))(key := withFinalizers old fs), snd (abs w))"
    using patch_ok [of s fs "kube w" k' t] k assms(2-4) by (auto simp: absState_def)
qed

lemma ensureFinalizer_steps:
  assumes e: "ensureServiceFinalizer r s w = (x, w')" and s: "objs (kube w) key = Some s" and g: "good w"
  shows "steps key w w'" "x = Inr (b, t) \<Longrightarrow> objs (kube w') key = Some t \<and> serviceFinalizer \<in> set (Finalizers t) \<and>
      t = s\<lparr>Finalizers := Finalizers t\<rparr>"
proof -
  have key: "objectKey s = key" using stored_key [OF s] .
  let ?fs = "AddFinalizer (Util r) (Finalizers s) serviceFinalizer"
  have fs: "set ?fs = insert serviceFinalizer (set (Finalizers s))" by (rule add)
  have "steps key w w' \<and> (\<forall>b t. x = Inr (b, t) \<longrightarrow> objs (kube w') key = Some t \<and>
      serviceFinalizer \<in> set (Finalizers t) \<and> t = s\<lparr>Finalizers := Finalizers t\<rparr>)"
  proof (cases "serviceFinalizer \<in> set (Finalizers s)")
    case True
    then have "x = Inr (False, s)" "w' = w"
      using e by (auto simp: ensureServiceFinalizer_def hasFinalizer_iff)
    then show ?thesis using True s g by simp
  next
    case False
    obtain y w1 where p: "onKube (client_Patch (Client r) s (s\<lparr>Finalizers := ?fs\<rparr>)) w = (y, w1)" by force
    have ne: "?fs \<noteq> []" "?fs \<noteq> Finalizers s" using fs False by auto
    note P = patch_result [OF p key s ne(2)]
    let ?A = "((fst (abs w))(key \<mapsto> s\<lparr>Finalizers := ?fs\<rparr>), snd (abs w))"
    have wf: "withFinalizers s ?fs = Some (s\<lparr>Finalizers := ?fs\<rparr>)" using ne(1) by (simp add: withFinalizers_def)
    have step: "ctl_step (rec_Config r) key (abs w) ?A"
      using addFinalizer [of "fst (abs w)" key s ?fs "rec_Config r" "snd (abs w)"] s fs by (simp add: absState_def)
    show ?thesis
    proof (cases y)
      case (Inl er)
      then have x: "x = Inl er" "w' = w1" using e p False by (auto simp: ensureServiceFinalizer_def hasFinalizer_iff)
      have "abs w1 = abs w \<or> abs w1 = ?A" using P(2) [OF Inl] unfolding wf .
      then have "steps key w w1" using step P(1) g by (metis r_into_rtranclp rtranclp.rtrancl_refl)
      then show ?thesis using x by simp
    next
      case (Inr t)
      then have x: "x = Inr (True, t)" "w' = w1" using e p False by (auto simp: ensureServiceFinalizer_def hasFinalizer_iff)
      have t: "t = s\<lparr>Finalizers := ?fs\<rparr>" and a: "abs w1 = ?A" using P(3) [OF Inr] unfolding wf by blast+
      have "objs (kube w1) key = Some t" using a t by (auto simp: absState_def)
      moreover have "steps key w w1" using step a P(1) g by (metis r_into_rtranclp)
      ultimately show ?thesis using x t fs by simp
    qed
  qed
  then show "steps key w w'" "x = Inr (b, t) \<Longrightarrow> objs (kube w') key = Some t \<and> serviceFinalizer \<in> set (Finalizers t) \<and>
      t = s\<lparr>Finalizers := Finalizers t\<rparr>" by auto
qed

lemma removeFinalizer_steps:
  assumes e: "removeServiceFinalizer r s w = (x, w')" and s: "objs (kube w) key = Some old"
    and f: "Finalizers old = Finalizers s" "objectKey s = key" and g: "good w" and d: "snd (abs w) (refOf key) = None"
  shows "steps key w w'" "x = None \<Longrightarrow> \<forall>n. objs (kube w') key = Some n \<longrightarrow> serviceFinalizer \<notin> set (Finalizers n)"
    "snd (abs w') = snd (abs w)"
proof -
  let ?fs = "RemoveFinalizer (Util r) (Finalizers s) serviceFinalizer"
  have fs: "set ?fs = set (Finalizers old) - {serviceFinalizer}" using remove f(1) by simp
  have "steps key w w' \<and> (x = None \<longrightarrow> (\<forall>n. objs (kube w') key = Some n \<longrightarrow> serviceFinalizer \<notin> set (Finalizers n))) \<and>
    snd (abs w') = snd (abs w)"
  proof (cases "serviceFinalizer \<in> set (Finalizers s)")
    case False
    then have "x = None" "w' = w"
      using e by (auto simp: removeServiceFinalizer_def hasFinalizer_iff)
    then show ?thesis using False s g f by simp
  next
    case True
    obtain y w1 where p: "onKube (client_Patch (Client r) s (s\<lparr>Finalizers := ?fs\<rparr>)) w = (y, w1)" by force
    have "serviceFinalizer \<notin> set ?fs" using remove by simp
    then have "?fs \<noteq> Finalizers s" using True by metis
    note P = patch_result [OF p f(2) s this]
    let ?n = "withFinalizers old ?fs"
    let ?A = "((fst (abs w))(key := ?n), snd (abs w))"
    have step: "ctl_step (rec_Config r) key (abs w) ?A"
      using dropFinalizer [of "fst (abs w)" key old "snd (abs w)" ?fs ?n "rec_Config r"] s fs d
      by (simp add: absState_def withFinalizers_def)
    show ?thesis
    proof (cases y)
      case (Inl er)
      then have x: "x = Some er" "w' = w1" using e p True by (auto simp: removeServiceFinalizer_def hasFinalizer_iff)
      have c: "abs w1 = abs w \<or> abs w1 = ?A" using P(2) [OF Inl] .
      then have "steps key w w1" using step P(1) g by (metis r_into_rtranclp rtranclp.rtrancl_refl)
      then show ?thesis using x c by auto
    next
      case (Inr t)
      then have x: "x = None" "w' = w1" using e p True by (auto simp: removeServiceFinalizer_def hasFinalizer_iff)
      have a: "abs w1 = ?A" using P(3) [OF Inr] by simp
      have "objs (kube w1) key = ?n" using a by (auto simp: absState_def)
      moreover have "\<forall>n. ?n = Some n \<longrightarrow> serviceFinalizer \<notin> set (Finalizers n)" using fs by (simp add: withFinalizers_def)
      moreover have "snd (abs w1) = snd (abs w)" using a by simp
      ultimately show ?thesis using x P(1) g step a by (metis r_into_rtranclp)
    qed
  qed
  then show "steps key w w'" "snd (abs w') = snd (abs w)"
    "x = None \<Longrightarrow> \<forall>n. objs (kube w') key = Some n \<longrightarrow> serviceFinalizer \<notin> set (Finalizers n)" by auto
qed

lemma status_result:
  assumes u: "onKube (UpdateServiceLoadBalancerStatus (Client r) (Some s) is) w = ((so, x), w')"
    and s: "objs (kube w) key = Some old" "objectKey s = key"
  shows "good w' = good w"
    "x = Inl e \<Longrightarrow> abs w' = abs w \<or> abs w' = ((fst (abs w))(key \<mapsto> old\<lparr>status_Ingress := is\<rparr>), snd (abs w))"
    "x = Inr False \<Longrightarrow> abs w' = abs w \<and> so = Some s \<and> LoadBalancerIngressEqual (status_Ingress s) is"
    "x = Inr True \<Longrightarrow> abs w' = ((fst (abs w))(key \<mapsto> old\<lparr>status_Ingress := is\<rparr>), snd (abs w)) \<and>
      so = Some (s\<lparr>status_Ingress := is\<rparr>)"
proof -
  obtain k' where k: "UpdateServiceLoadBalancerStatus (Client r) (Some s) is (kube w) = (k', so, x)" "w' = w\<lparr>kube := k'\<rparr>"
    using onKube_result [OF u] by blast
  have key: "objectKey (s\<lparr>status_Ingress := is\<rparr>) = key" using s(2) by (simp add: objectKey_def)
  note ok1 = status_ok [of "s\<lparr>status_Ingress := is\<rparr>" "kube w"] and er = status_err [of "s\<lparr>status_Ingress := is\<rparr>" "kube w"]
  show "good w' = good w" using k(2) by simp
  show "x = Inl e \<Longrightarrow> abs w' = abs w \<or> abs w' = ((fst (abs w))(key \<mapsto> old\<lparr>status_Ingress := is\<rparr>), snd (abs w))"
    using k er s(1) key by (fastforce simp: UpdateStatus_eq absState_def split: if_splits prod.splits sum.splits)
  show "x = Inr False \<Longrightarrow> abs w' = abs w \<and> so = Some s \<and> LoadBalancerIngressEqual (status_Ingress s) is"
    using k by (auto simp: UpdateStatus_eq split: if_splits prod.splits sum.splits)
  show "x = Inr True \<Longrightarrow> abs w' = ((fst (abs w))(key \<mapsto> old\<lparr>status_Ingress := is\<rparr>), snd (abs w)) \<and>
      so = Some (s\<lparr>status_Ingress := is\<rparr>)"
  proof -
    assume "x = Inr True"
    then obtain t where t: "client_StatusUpdate (Client r) (s\<lparr>status_Ingress := is\<rparr>) (kube w) = (k', Inr t)"
      "so = Some (s\<lparr>status_Ingress := status_Ingress t\<rparr>)"
      using k(1) by (auto simp: UpdateStatus_eq split: if_splits prod.splits sum.splits)
    from ok1 [OF t(1)] t(2) k(2) key s(1) show ?thesis by (auto simp: absState_def)
  qed
qed

text \<open>Deleting the provider state of the reconciled Service is a step.\<close>

lemma prov_delete_step:
  assumes "onProv (prov_Delete (Provider r) (refOf key)) w = (x, w')" "good w" "legal (refOf key)"
  shows "steps key w w'" "x = Inr b \<Longrightarrow> snd (abs w') (refOf key) = None"
    "objs (kube w') = objs (kube w)"
proof -
  note D = prov_delete_cases [OF assms]
  show "objs (kube w') = objs (kube w)" using D(1) by simp
  show "x = Inr b \<Longrightarrow> snd (abs w') (refOf key) = None" using D(4) by simp
  have "ctl_step (rec_Config r) key (abs w) (fst (abs w), (snd (abs w))(refOf key := None))"
    using providerDelete by (metis prod.collapse)
  with D(2,3) show "steps key w w'" by (metis r_into_rtranclp rtranclp.rtrancl_refl)
qed

lemma deleting_steps:
  assumes e: "reconcileDeletingService r s w = (x, w')" and s: "objs (kube w) key = Some s" and g: "good w"
  shows "steps key w w'"
    "x = None \<Longrightarrow> serviceFinalizer \<in> set (Finalizers s) \<Longrightarrow> snd (abs w') (refOf key) = None \<and>
      (\<forall>n. objs (kube w') key = Some n \<longrightarrow> serviceFinalizer \<notin> set (Finalizers n))"
proof -
  have key: "objectKey s = key" using stored_key [OF s] .
  have "steps key w w' \<and> (x = None \<longrightarrow> serviceFinalizer \<in> set (Finalizers s) \<longrightarrow> snd (abs w') (refOf key) = None \<and>
      (\<forall>n. objs (kube w') key = Some n \<longrightarrow> serviceFinalizer \<notin> set (Finalizers n)))"
  proof (cases "serviceFinalizer \<in> set (Finalizers s)")
    case False
    then have "x = None" "w' = w" using e by (auto simp: reconcileDeletingService_def hasFinalizer_iff)
    then show ?thesis using False g by simp
  next
    case True
    obtain y w1 where d: "onProv (prov_Delete (Provider r) (refOf key)) w = (y, w1)" by force
    note D = prov_delete_step [OF d g legal_names [OF s]]
    show ?thesis
    proof (cases y)
      case (Inl er)
      then have "x = Some (DeleteProvider (refOf key) er)" "w' = w1"
        using e d True serviceRefOf_key [OF key] by (auto simp: reconcileDeletingService_def hasFinalizer_iff Let_def)
      then show ?thesis using D(1) by simp
    next
      case (Inr b)
      obtain z w2 where m: "removeServiceFinalizer r s w1 = (z, w2)" by force
      have "objs (kube w1) key = Some s" using D(3) s by simp
      note R = removeFinalizer_steps [OF m this refl key conjunct2 [OF D(1)] D(2) [OF Inr]]
      have "w' = w2" "x = None \<longleftrightarrow> z = None"
        using e d True Inr m serviceRefOf_key [OF key]
        by (auto simp: reconcileDeletingService_def hasFinalizer_iff Let_def split: option.splits)
      then show ?thesis using D(1) D(2) [OF Inr] R by auto
    qed
  qed
  then show "steps key w w'" "x = None \<Longrightarrow> serviceFinalizer \<in> set (Finalizers s) \<Longrightarrow> snd (abs w') (refOf key) = None \<and>
      (\<forall>n. objs (kube w') key = Some n \<longrightarrow> serviceFinalizer \<notin> set (Finalizers n))" by blast+
qed

lemma clear_status_steps:
  assumes u: "onKube (UpdateServiceLoadBalancerStatus (Client r) (Some s) []) w = ((so, x), w')"
    and s: "objs (kube w) key = Some s" and g: "good w"
  shows "steps key w w'" "snd (abs w') = snd (abs w)"
    "x = Inr b \<Longrightarrow> so = Some (s\<lparr>status_Ingress := []\<rparr>) \<and> objs (kube w') key = Some (s\<lparr>status_Ingress := []\<rparr>)"
proof -
  note S = status_result [OF u s stored_key [OF s]]
  have "steps key w w' \<and> snd (abs w') = snd (abs w) \<and> (\<forall>b. x = Inr b \<longrightarrow>
    so = Some (s\<lparr>status_Ingress := []\<rparr>) \<and> objs (kube w') key = Some (s\<lparr>status_Ingress := []\<rparr>))"
  proof (cases "abs w' = abs w")
    case False
    consider er where "x = Inl er" | "x = Inr True" | "x = Inr False" by (metis sumE)
    then have a: "abs w' = ((fst (abs w))(key \<mapsto> s\<lparr>status_Ingress := []\<rparr>), snd (abs w)) \<and>
      (\<forall>b. x = Inr b \<longrightarrow> so = Some (s\<lparr>status_Ingress := []\<rparr>))"
    proof cases
      case 1
      then show ?thesis using S(2) [OF 1] False by simp
    next
      case 2
      then show ?thesis using S(4) [OF 2] by simp
    next
      case 3
      then show ?thesis using S(3) [OF 3] False by simp
    qed
    have "ctl_step (rec_Config r) key (abs w) (abs w')"
      using clearStatus [of "fst (abs w)" key s "rec_Config r" "snd (abs w)"] s a
      by (simp add: absState_def)
    moreover have "objs (kube w') key = Some (s\<lparr>status_Ingress := []\<rparr>)" using a by (auto simp: absState_def)
    moreover have "snd (abs w') = snd (abs w)" using a by simp
    ultimately show ?thesis using S(1) g a by auto
  next
    case a: True
    then have o: "objs (kube w') key = Some s" using s by (simp add: absState_def)
    have "so = Some (s\<lparr>status_Ingress := []\<rparr>) \<and> s = s\<lparr>status_Ingress := []\<rparr>" if "x = Inr b" for b
    proof (cases b)
      case True
      have "objs (kube w') key = Some (s\<lparr>status_Ingress := []\<rparr>)" using S(4) that True by (auto simp: absState_def)
      then show ?thesis using S(4) that True o by simp
    next
      case False
      then show ?thesis using S(3) that by (simp add: Equal_Nil_iff)
    qed
    then show ?thesis using a o S(1) g by auto
  qed
  then show "steps key w w'" "snd (abs w') = snd (abs w)"
    "x = Inr b \<Longrightarrow> so = Some (s\<lparr>status_Ingress := []\<rparr>) \<and> objs (kube w') key = Some (s\<lparr>status_Ingress := []\<rparr>)" by blast+
qed

lemma steps_trans: "steps key w w1 \<Longrightarrow> steps key w1 w2 \<Longrightarrow> steps key w w2"
  by (meson rtranclp_trans)

lemma steps_refl: "abs w' = abs w \<Longrightarrow> good w' \<Longrightarrow> steps key w w'"
  by simp

text \<open>The end of the clean-up of an unmanaged Service: refresh it if its status changed, drop the finalizer.\<close>

lemma unmanaged_end_steps:
  assumes g: "(if b then onKube (client_Get (Client r) key) w else (Inr s, w)) = (x, w1)"
    and s: "objs (kube w) key = Some s" and k: "good w" and d: "snd (abs w) (refOf key) = None"
  shows "abs w1 = abs w" "good w1" "x = Inr t \<Longrightarrow> removeServiceFinalizer r t w1 = (z, w2) \<Longrightarrow> steps key w w2"
proof -
  have "abs w1 = abs w \<and> good w1 \<and> (\<forall>t. x = Inr t \<longrightarrow> t = s)"
  proof (cases b)
    case True
    then have "onKube (client_Get (Client r) key) w = (x, w1)" using g by simp
    note G = get_read [OF this]
    show ?thesis using G(1,2) G(3) k s by (auto simp: absState_def)
  next
    case False
    then show ?thesis using g k by auto
  qed
  then show a: "abs w1 = abs w" and k1: "good w1" and t: "x = Inr t \<Longrightarrow> removeServiceFinalizer r t w1 = (z, w2) \<Longrightarrow> steps key w w2"
  proof -
    assume h: "abs w1 = abs w \<and> good w1 \<and> (\<forall>t. x = Inr t \<longrightarrow> t = s)"
    then show a: "abs w1 = abs w" and k1: "good w1" by auto
    assume m: "x = Inr t" "removeServiceFinalizer r t w1 = (z, w2)"
    have "t = s" using h m(1) by blast
    moreover have "objs (kube w1) key = Some s" using a s by (simp add: absState_def)
    moreover have "snd (abs w1) (refOf key) = None" using a d by simp
    ultimately show "steps key w w2"
      using removeFinalizer_steps(1) [OF m(2), of key s] k1 a stored_key [OF s] by simp
  qed
qed

lemma unmanaged_steps:
  assumes e: "reconcileUnmanagedService r s w = (x, w')" and s: "objs (kube w) key = Some s" and g: "good w"
  shows "steps key w w'"
proof -
  have key: "objectKey s = key" using stored_key [OF s] .
  let ?s = "s\<lparr>status_Ingress := []\<rparr>"
  show ?thesis
  proof (cases "cleanupUnmanaged r s w = (x, w')")
    case False
    then have "w' = w" using e by (auto simp: reconcileUnmanagedService_def Let_def split: if_splits)
    then show ?thesis using g by simp
  next
    case e: True
    obtain y w1 where d: "onProv (prov_Delete (Provider r) (refOf key)) w = (y, w1)" by force
    note D = prov_delete_step [OF d g legal_names [OF s]]
    have s1: "objs (kube w1) key = Some s" using D(3) s by simp
    obtain so q w2 where u: "onKube (UpdateServiceLoadBalancerStatus (Client r) (Some s) []) w1 = ((so, q), w2)"
      by (metis surj_pair)
    note U = clear_status_steps [OF u s1 conjunct2 [OF D(1)]]
    have steps2: "steps key w w2" by (rule steps_trans [OF D(1) U(1)])
    show ?thesis
    proof (cases "(\<exists>c. y = Inr c) \<and> (\<exists>b. q = Inr b)")
      case False
      then consider er where "y = Inl er" | c er where "y = Inr c" "q = Inl er"
        by (cases y; cases q) auto
      then have "w' = w1 \<or> w' = w2"
      proof cases
        case 1
        then show ?thesis using e d serviceRefOf_key [OF key]
          by (simp add: cleanupUnmanaged_def hasFinalizer_iff Let_def)
      next
        case 2
        then show ?thesis using e d u serviceRefOf_key [OF key]
          by (cases so) (simp_all add: cleanupUnmanaged_def hasFinalizer_iff Let_def)
      qed
      then show ?thesis using D(1) steps2 by blast
    next
      case ok: True
      then obtain c b where y: "y = Inr c" and q: "q = Inr b" by blast
      have so: "so = Some ?s" "objs (kube w2) key = Some ?s" using U(3) [OF q] by auto
      have d2: "snd (abs w2) (refOf key) = None" using U(2) D(2) [OF y] by simp
      have k2: "objectKey ?s = key" using key by (simp add: objectKey_def)
      obtain f w3 where f: "(if b then onKube (client_Get (Client r) key) w2 else (Inr ?s, w2)) = (f, w3)" by force
      note E = unmanaged_end_steps [OF f so(2) conjunct2 [OF steps2] d2]
      show ?thesis
      proof (cases "serviceFinalizer \<in> set (Finalizers s) \<and> (\<exists>t. f = Inr t)")
        case False
        then consider "serviceFinalizer \<notin> set (Finalizers s)" | er where "serviceFinalizer \<in> set (Finalizers s)" "f = Inl er"
          by (cases f) auto
        then have "w' = w2 \<or> w' = w3"
        proof cases
          case 1
          then show ?thesis using e d u y q so serviceRefOf_key [OF key]
            by (simp add: cleanupUnmanaged_def hasFinalizer_iff Let_def)
        next
          case 2
          then show ?thesis using e d u y q so f k2 serviceRefOf_key [OF key]
            by (cases b) (simp_all add: cleanupUnmanaged_def hasFinalizer_iff Let_def)
        qed
        then show ?thesis using steps2 steps_trans [OF steps2 steps_refl [OF E(1,2)]] by blast
      next
        case fin: True
        then obtain t where t: "f = Inr t" by blast
        obtain z w4 where m: "removeServiceFinalizer r t w3 = (z, w4)" by force
        have "w' = w4"
          using e d u y q so f t m fin k2 serviceRefOf_key [OF key]
          by (cases b; cases z) (simp_all add: cleanupUnmanaged_def hasFinalizer_iff Let_def)
        then show ?thesis using steps_trans [OF steps2 E(3) [OF t m]] by simp
      qed
    qed
  qed
qed

lemma allocated_free:
  assumes "Allocate (allocatorOf cfg) (Some s) ss = Inr a" "set ss = ran (objs k)" "objectKey s = key"
  shows "alloc_IP a \<in> set (IPPool cfg)" "freeFor cfg key (objs k) (alloc_IP a)"
proof -
  have p: "pool (allocatorOf cfg) = IPPool cfg" by (simp add: allocatorOf_def NewAllocator_def)
  have r: "alloc_IP a \<in> set (IPPool cfg)" "\<not> taken (allocatorOf cfg) s ss (alloc_IP a)"
    using alloc_policy_Inr [of "IPPool cfg" "taken (allocatorOf cfg) s ss" _ a] assms(1)
    by (simp_all add: Allocate_policy p)
  show "alloc_IP a \<in> set (IPPool cfg)" using r(1) .
  show "freeFor cfg key (objs k) (alloc_IP a)"
    unfolding freeFor_def
  proof (intro allI impI)
    fix key' s' assume h: "objs k key' = Some s'" "key' \<noteq> key" "liveManaged cfg s'"
    have "s' \<in> set ss" using h(1) assms(2) by (auto intro: ranI)
    moreover have "competes (allocatorOf cfg) (objectKey s) s'"
      using h stored_key [OF h(1)] assms(3)
      by (simp add: competes_def allocatorOf_def NewAllocator_def liveManaged_def)
    ultimately show "\<not> publishes s' (alloc_IP a)" using r(2) by (auto simp: taken_def list_ex_iff)
  qed
qed

lemma publish_steps:
  assumes e: "publishService r key s a w = (x, w')" and s: "objs (kube w) key = Some s" and g: "good w"
    and f: "serviceFinalizer \<in> set (Finalizers s)"
    and a: "alloc_IP a \<in> set (IPPool (rec_Config r))" "freeFor (rec_Config r) key (objs (kube w)) (alloc_IP a)"
  shows "steps key w w'" "x = Inr n \<Longrightarrow> n = 0 \<and> (\<exists>t v. objs (kube w') key = Some t \<and>
      LoadBalancerIngressEqual (status_Ingress t) (DesiredLoadBalancerIngress (AddrString (alloc_IP a))) \<and>
      serviceFinalizer \<in> set (Finalizers t) \<and> snd (abs w') (refOf key) = Some v \<and>
      ExternalIP v = AddrString (alloc_IP a)) \<and> freeFor (rec_Config r) key (objs (kube w')) (alloc_IP a) \<and>
      justEnsured (Provider r) ok (refOf key) (prov w')"
proof -
  let ?ip = "AddrString (alloc_IP a)" and ?cfg = "rec_Config r"
  let ?post = "\<lambda>w'. (\<exists>t v. objs (kube w') key = Some t \<and>
      LoadBalancerIngressEqual (status_Ingress t) (DesiredLoadBalancerIngress ?ip) \<and>
      serviceFinalizer \<in> set (Finalizers t) \<and> snd (abs w') (refOf key) = Some v \<and> ExternalIP v = ?ip) \<and>
      freeFor ?cfg key (objs (kube w')) (alloc_IP a) \<and> justEnsured (Provider r) ok (refOf key) (prov w')"
  have key: "objectKey s = key" using stored_key [OF s] .
  obtain y w1 where l: "listEndpointSlicesForService r (Some s) w = (y, w1)" by force
  have l': "onKube (client_ListEndpointSlices (Client r) (ks_Namespace s) (ks_Name s)) w = (y, w1)"
    using l by (simp add: listEndpointSlicesForService_def)
  have L: "abs w1 = abs w" "good w1" "objs (kube w1) = objs (kube w)"
    using onKube_read [OF l' slices_state] g by auto
  have "steps key w w' \<and> (\<forall>n. x = Inr n \<longrightarrow> n = 0 \<and> ?post w')"
  proof (cases y)
    case (Inl er)
    then have "w' = w1" "x = Inl (ListSlices key er)" using e l by (simp_all add: publishService_def)
    then show ?thesis using L by simp
  next
    case (Inr sl)
    let ?v = "buildProviderService s ?ip (Discover (Some s) sl)"
    obtain z w2 where p: "onProv (prov_Ensure (Provider r) ?v) w1 = (z, w2)" by force
    have v: "ExternalIP (canon ?v) = ?ip" "Ref ?v = refOf key"
      using canon_address [OF pool_ipv4 [OF a(1)], of ?v] Ref_build [OF key] by (simp_all add: buildProviderService_def)
    have "legal (Ref ?v)" using legal_names [OF s] v(2) by simp
    note P = prov_ensure_cases [OF p L(2) this]
    let ?A = "(fst (abs w), (snd (abs w))(refOf key \<mapsto> canon ?v))"
    have step: "ctl_step ?cfg key (abs w) ?A"
      using providerEnsure [of "fst (abs w)" key s "alloc_IP a" ?cfg "canon ?v" "snd (abs w)"] s f a v(1)
      by (simp add: absState_def)
    have "abs w2 = abs w \<or> abs w2 = ?A" using P(3) L(1) v(2) by simp
    then have st: "steps key w w2" using step P(2) by (metis r_into_rtranclp rtranclp.rtrancl_refl)
    show ?thesis
    proof (cases z)
      case (Inl er)
      then have "w' = w2" "x = Inl (EnsureProvider key er)" using e l p Inr by (simp_all add: publishService_def Let_def)
      then show ?thesis using st by simp
    next
      case (Inr b)
      have A: "abs w2 = ?A" using P(4) [OF Inr] L(1) v(2) by simp
      have s2: "objs (kube w2) key = Some s" using P(1) L(3) s by simp
      obtain so q w3 where u: "onKube (UpdateServiceLoadBalancerStatus (Client r) (Some s)
          (DesiredLoadBalancerIngress ?ip)) w2 = ((so, q), w3)" by (metis surj_pair)
      note S = status_result [OF u s2 key]
      have J: "justEnsured (Provider r) ok (refOf key) (prov w3)"
        using P(5) [OF Inr] v(2) onKube_result [OF u] by auto
      have w': "w' = w3" "x = (case q of Inl er \<Rightarrow> Inl (UpdateStatus key er) | Inr _ \<Rightarrow> Inr 0)"
        using e l p u \<open>y = Inr sl\<close> Inr by (auto simp: publishService_def Let_def split: sum.splits)
      let ?t = "s\<lparr>status_Ingress := DesiredLoadBalancerIngress ?ip\<rparr>"
      let ?B = "((fst (abs w2))(key \<mapsto> ?t), snd (abs w2))"
      have free2: "freeFor ?cfg key (objs (kube w2)) (alloc_IP a)" using P(1) L(3) a(2) by simp
      have "ctl_step ?cfg key (abs w2) ?B"
        using publish [of "fst (abs w2)" key s "alloc_IP a" ?cfg "snd (abs w2)"] s2 a(1) free2 by (simp add: absState_def)
      moreover have c: "abs w3 = abs w2 \<or> abs w3 = ?B" and eq: "q = Inr c \<Longrightarrow> abs w3 = ?B \<or>
          abs w3 = abs w2 \<and> LoadBalancerIngressEqual (status_Ingress s) (DesiredLoadBalancerIngress ?ip)" for c
        using S(2-4) by (cases q; cases c; fastforce)+
      ultimately have "steps key w2 w3" using S(1) P(2) by (metis r_into_rtranclp rtranclp.rtrancl_refl)
      then have "steps key w w3" using steps_trans [OF st] by blast
      moreover have "?post w3" if q: "q = Inr c" for c
      proof -
        obtain t where t: "objs (kube w3) key = Some t" "objs (kube w3) = (objs (kube w2))(key \<mapsto> t)"
          "LoadBalancerIngressEqual (status_Ingress t) (DesiredLoadBalancerIngress ?ip)" "Finalizers t = Finalizers s"
          using eq [OF q] s2 Equal_desired_self [OF pool_ipv4 [OF a(1)]] by (force simp: absState_def)
        have "snd (abs w3) (refOf key) = Some (canon ?v)" using c A by auto
        moreover have "freeFor ?cfg key (objs (kube w3)) (alloc_IP a)"
          using free2 unfolding t(2) freeFor_def by (simp del: split_paired_All)
        ultimately show ?thesis using t(1,3,4) f v(1) J by auto
      qed
      ultimately show ?thesis using w' by (cases q) auto
    qed
  qed
  then show "steps key w w'" "x = Inr n \<Longrightarrow> n = 0 \<and> ?post w'" by blast+
qed

text \<open>What a successful reconcile of a live managed Service has established.\<close>

abbreviation served :: "namespaced_name \<Rightarrow> ('k, 'p) cworld \<Rightarrow> bool" where
  "served key w \<equiv> (\<exists>t v a. objs (kube w) key = Some t \<and> a \<in> set (IPPool (rec_Config r)) \<and>
     LoadBalancerIngressEqual (status_Ingress t) (DesiredLoadBalancerIngress (AddrString a)) \<and>
     serviceFinalizer \<in> set (Finalizers t) \<and>
     snd (abs w) (refOf key) = Some v \<and> ExternalIP v = AddrString a \<and>
     freeFor (rec_Config r) key (objs (kube w)) a) \<and>
     justEnsured (Provider r) ok (refOf key) (prov w)"

lemma managed_steps:
  assumes e: "reconcileManaged r key s w = (x, w')" and s: "objs (kube w) key = Some s" and g: "good w"
  shows "steps key w w'" "x = Inr 0 \<Longrightarrow> RequeueAfter (rec_Config r) \<noteq> 0 \<Longrightarrow> served key w'"
proof -
  let ?cfg = "rec_Config r"
  obtain y w1 where en: "ensureServiceFinalizer r s w = (y, w1)" by force
  note E = ensureFinalizer_steps [OF en s g]
  have "steps key w w' \<and> (x = Inr 0 \<longrightarrow> RequeueAfter ?cfg \<noteq> 0 \<longrightarrow> served key w')"
  proof (cases y)
    case (Inl er)
    then have "w' = w1" "x = Inl (EnsureFinalizer key er)" using e en by (simp_all add: reconcileManaged_def)
    then show ?thesis using E(1) by simp
  next
    case (Inr bt)
    obtain b t where y: "y = Inr (b, t)" using Inr by (cases bt) simp
    have t: "objs (kube w1) key = Some t" "serviceFinalizer \<in> set (Finalizers t)" using E(2) [OF y] by auto
    obtain f w2 where f: "(if b then onKube (client_Get (Client r) key) w1 else (Inr t, w1)) = (f, w2)" by force
    have F: "abs w2 = abs w1" "good w2" "\<And>u. f = Inr u \<Longrightarrow> u = t"
      using f t(1) E(1) get_read [of key w1 f w2] by (auto simp: absState_def split: if_splits)
    have st2: "steps key w w2" using E(1) F(1,2) by simp
    show ?thesis
    proof (cases f)
      case (Inl er)
      then have "w' = w2" "x = Inl (RefreshService key er)" using e en y f by (simp_all add: reconcileManaged_def)
      then show ?thesis using st2 by simp
    next
      case (Inr u)
      then have u: "f = Inr t" using F(3) by simp
      obtain l w3 where l: "listServicesForAllocation r w2 = (l, w3)" by force
      obtain k3 where k3: "client_ListServices (Client r) (kube w2) = (k3, l)" "w3 = w2\<lparr>kube := k3\<rparr>"
        using onKube_result [OF l [unfolded listServicesForAllocation_def]] by blast
      have o3: "objs (kube w3) = objs (kube w2)" using list_state [OF k3(1)] k3(2) by simp
      then have a3: "abs w3 = abs w2" "good w3" using k3(2) F(2) by (simp_all add: absState_def)
      have st3: "steps key w w3" using st2 a3 by simp
      have t3: "objs (kube w3) key = Some t" using o3 F(1) t(1) by (simp add: absState_def)
      let ?res = "Allocate (allocatorOf ?cfg) (Some t)"
      show ?thesis
      proof (cases l)
        case (Inl er)
        then have "w' = w3" "x = Inl (ListServicesForAllocation er)"
          using e en y f u l by (simp_all add: reconcileManaged_def)
        then show ?thesis using st3 by simp
      next
        case (Inr ss)
        show ?thesis
        proof (cases "?res ss")
          case (Inl er)
          define m where "m = (if er = ErrNoFreeIP then RecordIPAllocationExhausted (met w3)
            else RecordIPAllocationError (met w3))"
          have m: "providerManagedServices m = providerManagedServices (met w3)"
            by (simp add: m_def RecordIPAllocationExhausted_def RecordIPAllocationError_def
                recordIPAllocation_def Let_def)
          have "w' = w3\<lparr>met := m\<rparr>" "x = Inr 0 \<Longrightarrow> RequeueAfter ?cfg = 0"
            using e en y f u l Inr Inl by (cases er; simp add: reconcileManaged_def m_def)+
          then show ?thesis using st3 counters_abs [OF m] by auto
        next
          case al: (Inr a)
          let ?w4 = "recordAllocation a w3"
          have pub: "publishService r key t a ?w4 = (x, w')"
            using e en y f u l Inr al by (simp add: reconcileManaged_def)
          have k4: "kube ?w4 = kube w3" by (simp add: recordAllocation_def)
          have g4: "abs ?w4 = abs w3" "good ?w4 = good w3"
            unfolding recordAllocation_def
            by (rule counters_abs; simp add: RecordIPAllocationReused_def RecordIPAllocationAllocated_def
                recordIPAllocation_def Let_def)+
          have "set ss = ran (objs (kube w3))" using list_fresh k3(1) Inr o3 by simp
          note A = allocated_free [OF al this stored_key [OF t3]]
          note P = publish_steps [OF pub, unfolded k4 g4, OF t3 a3(2) t(2) A]
          show ?thesis using steps_trans [OF st3 P(1)] P(2) A(1) by blast
        qed
      qed
    qed
  qed
  then show "steps key w w'" "x = Inr 0 \<Longrightarrow> RequeueAfter ?cfg \<noteq> 0 \<Longrightarrow> served key w'" by blast+
qed

lemma service_steps:
  assumes e: "reconcileService r key w = (x, w')" and g: "good w"
  shows "steps key w w'"
    "objs (kube w) key = Some s \<Longrightarrow> liveManaged (rec_Config r) s \<Longrightarrow> x = Inr 0 \<Longrightarrow>
      RequeueAfter (rec_Config r) \<noteq> 0 \<Longrightarrow> served key w'"
    "objs (kube w) key = Some s \<Longrightarrow> DeletionTimestamp s \<noteq> None \<Longrightarrow> serviceFinalizer \<in> set (Finalizers s) \<Longrightarrow>
      x = Inr n \<Longrightarrow> snd (abs w') (refOf key) = None \<and>
      (\<forall>t. objs (kube w') key = Some t \<longrightarrow> serviceFinalizer \<notin> set (Finalizers t))"
proof -
  obtain y w1 where g1: "onKube (client_Get (Client r) key) w = (y, w1)" by force
  note G = get_read [OF g1]
  have gd: "good w1" using G(2) g by simp
  have same: "objs (kube w1) = objs (kube w)" using G(1) by (simp add: absState_def)
  have main: "steps key w w' \<and> (\<forall>s. y = Inr s \<longrightarrow>
      (liveManaged (rec_Config r) s \<longrightarrow> x = Inr 0 \<longrightarrow> RequeueAfter (rec_Config r) \<noteq> 0 \<longrightarrow> served key w') \<and>
      (DeletionTimestamp s \<noteq> None \<longrightarrow> serviceFinalizer \<in> set (Finalizers s) \<longrightarrow> (\<exists>n. x = Inr n) \<longrightarrow>
        snd (abs w') (refOf key) = None \<and>
        (\<forall>t. objs (kube w') key = Some t \<longrightarrow> serviceFinalizer \<notin> set (Finalizers t))))"
  proof (cases y)
    case (Inl er)
    then have "w' = w1" using e g1 by (cases er) (simp_all add: reconcileService_def)
    then show ?thesis using Inl G(1) gd by simp
  next
    case (Inr s)
    have s: "objs (kube w1) key = Some s" using G(3) [OF Inr] by simp
    show ?thesis
    proof (cases "DeletionTimestamp s")
      case (Some ts)
      obtain z w2 where d: "reconcileDeletingService r s w1 = (z, w2)" by force
      note D = deleting_steps [OF d s gd]
      have w': "w' = w2" "(\<exists>n. x = Inr n) \<longleftrightarrow> z = None"
        using e g1 Inr Some d by (auto simp: reconcileService_def split: option.splits)
      have nl: "\<not> liveManaged (rec_Config r) s" using Some by (simp add: liveManaged_def)
      show ?thesis using D(1) D(2) G(1) w' Inr nl by (simp add: Some)
    next
      case None
      show ?thesis
      proof (cases "isManagedLoadBalancerService (Some s) (cc_LoadBalancerClass (rec_Config r))")
        case False
        obtain z w2 where d: "reconcileUnmanagedService r s w1 = (z, w2)" by force
        have "w' = w2" using e g1 Inr None False d by (auto simp: reconcileService_def split: option.splits)
        then show ?thesis using unmanaged_steps [OF d s gd] G(1) Inr None False by (simp add: liveManaged_def)
      next
        case True
        then have m: "reconcileManaged r key s w1 = (x, w')" using e g1 Inr None by (simp add: reconcileService_def)
        show ?thesis using managed_steps [OF m s gd] G(1) Inr None by simp
      qed
    qed
  qed
  then show "steps key w w'" by blast
  have found: "y = Inr s" if "objs (kube w) key = Some s" "x = Inr n" for s n
  proof (cases y)
    case (Inl er)
    then have "er = NotFound" using e g1 that(2) by (cases er) (simp_all add: reconcileService_def)
    then show ?thesis using get_missing onKube_result [OF g1] Inl that(1) by fastforce
  next
    case (Inr t)
    then show ?thesis using G(3) same that(1) by simp
  qed
  show "objs (kube w) key = Some s \<Longrightarrow> liveManaged (rec_Config r) s \<Longrightarrow> x = Inr 0 \<Longrightarrow>
      RequeueAfter (rec_Config r) \<noteq> 0 \<Longrightarrow> served key w'"
    using main found by blast
  show "objs (kube w) key = Some s \<Longrightarrow> DeletionTimestamp s \<noteq> None \<Longrightarrow> serviceFinalizer \<in> set (Finalizers s) \<Longrightarrow>
      x = Inr n \<Longrightarrow> snd (abs w') (refOf key) = None \<and>
      (\<forall>t. objs (kube w') key = Some t \<longrightarrow> serviceFinalizer \<notin> set (Finalizers t))"
    using main found by blast
qed

lemma Reconcile_steps:
  assumes e: "Reconcile r key w = (x, w')" and g: "good w"
  shows "steps key w w'"
    "objs (kube w) key = Some s \<Longrightarrow> liveManaged (rec_Config r) s \<Longrightarrow> x = Inr 0 \<Longrightarrow>
      RequeueAfter (rec_Config r) \<noteq> 0 \<Longrightarrow> served key w'"
    "objs (kube w) key = Some s \<Longrightarrow> DeletionTimestamp s \<noteq> None \<Longrightarrow> serviceFinalizer \<in> set (Finalizers s) \<Longrightarrow>
      x = Inr n \<Longrightarrow> snd (abs w') (refOf key) = None \<and>
      (\<forall>t. objs (kube w') key = Some t \<longrightarrow> serviceFinalizer \<notin> set (Finalizers t))"
proof -
  let ?w = "w\<lparr>met := IncServiceReconcile (met w)\<rparr>"
  obtain w1 where 1: "reconcileService r key ?w = (x, w1)" "w' = w1\<lparr>met := ObserveServiceReconcile (isl x) (met w1)\<rparr>"
    using e by (auto simp: Reconcile_def split: prod.splits)
  have w: "abs ?w = abs w" "good ?w = good w"
    by (rule counters_abs; simp add: IncServiceReconcile_def Let_def)+
  have w1: "abs w' = abs w1" "good w' = good w1" "kube w' = kube w1" "prov w' = prov w1"
    unfolding 1(2) by (rule counters_abs; simp add: ObserveServiceReconcile_def Let_def)+ simp_all
  note S = service_steps [OF 1(1), unfolded w, OF g]
  show "steps key w w'" using S(1) w1 by simp
  show "objs (kube w) key = Some s \<Longrightarrow> liveManaged (rec_Config r) s \<Longrightarrow> x = Inr 0 \<Longrightarrow>
      RequeueAfter (rec_Config r) \<noteq> 0 \<Longrightarrow> served key w'"
    using S(2) w1 by simp
  show "objs (kube w) key = Some s \<Longrightarrow> DeletionTimestamp s \<noteq> None \<Longrightarrow> serviceFinalizer \<in> set (Finalizers s) \<Longrightarrow>
      x = Inr n \<Longrightarrow> snd (abs w') (refOf key) = None \<and>
      (\<forall>t. objs (kube w') key = Some t \<longrightarrow> serviceFinalizer \<notin> set (Finalizers t))"
    using S(3) w1 by simp
qed

end

end
