(* ===== verification/Cluster.thy ===== *)
theory Cluster
  imports Controller
begin

text \<open>
  The controller inside a cluster: the invariants that hold in every state the system can
  reach, when reconciles of any Services interleave with creations, edits and deletions of
  Services by others, and the theorems about whole reconciles.  The contracts of the
  controller are met by an in-memory API server with the instrumented mock provider.
\<close>

section \<open>Invariants\<close>

text \<open>The Service stored under a name is live, managed and publishes the address.\<close>

definition publishesAt :: "controller_config \<Rightarrow> (namespaced_name \<rightharpoonup> kube_service) \<Rightarrow> namespaced_name \<Rightarrow> addr \<Rightarrow> bool" where
  "publishesAt cfg st key a \<longleftrightarrow> (\<exists>s. st key = Some s \<and> liveManaged cfg s \<and> publishes s a)"

text \<open>The clashes of a store: two live managed Services that publish the same pool address.\<close>

definition clashes ::
  "controller_config \<Rightarrow> (namespaced_name \<rightharpoonup> kube_service) \<Rightarrow> (namespaced_name \<times> namespaced_name \<times> addr) set" where
  "clashes cfg st = {(key1, key2, a). key1 \<noteq> key2 \<and> a \<in> set (IPPool cfg) \<and>
     publishesAt cfg st key1 a \<and> publishesAt cfg st key2 a}"

definition uniqueIPs :: "controller_config \<Rightarrow> (namespaced_name \<rightharpoonup> kube_service) \<Rightarrow> bool" where
  "uniqueIPs cfg st \<longleftrightarrow> clashes cfg st = {}"

text \<open>
  The orphans of a state: names for which the provider holds something although no Service
  with the finalizer is stored under them, so that nobody will ask the controller to clean up.
\<close>

definition orphans :: "abs_state \<Rightarrow> namespaced_name set" where
  "orphans = (\<lambda>(st, d). {key. d (refOf key) \<noteq> None \<and>
     \<not> (\<exists>s. st key = Some s \<and> serviceFinalizer \<in> set (Finalizers s))})"

definition noOrphans :: "abs_state \<Rightarrow> bool" where
  "noOrphans A \<longleftrightarrow> orphans A = {}"

definition pool4 :: "controller_config \<Rightarrow> bool" where
  "pool4 cfg = list_all Is4 (IPPool cfg)"

lemma refOf_inj [simp]: "refOf k = refOf k' \<longleftrightarrow> k = k'"
  by (cases k; cases k') (simp add: refOf_def)

lemma publishes_desired: "Is4 a \<Longrightarrow> status_Ingress s = DesiredLoadBalancerIngress (AddrString a) \<Longrightarrow> publishes s b \<longleftrightarrow> b = a"
  by (auto simp: publishes_def DesiredLoadBalancerIngress_def parse4_AddrString)

lemma publishes_Nil: "status_Ingress s = [] \<Longrightarrow> \<not> publishes s b"
  by (simp add: publishes_def)

lemma upd_fields [simp]:
  "publishes (s\<lparr>Finalizers := fs\<rparr>) a = publishes s a" "liveManaged cfg (s\<lparr>Finalizers := fs\<rparr>) = liveManaged cfg s"
  "liveManaged cfg (s\<lparr>status_Ingress := is\<rparr>) = liveManaged cfg s"
  by (simp_all add: publishes_def liveManaged_def isManagedLoadBalancerService_def)

lemma clashesI:
  "key1 \<noteq> key2 \<Longrightarrow> a \<in> set (IPPool cfg) \<Longrightarrow> publishesAt cfg st key1 a \<Longrightarrow> publishesAt cfg st key2 a \<Longrightarrow>
   (key1, key2, a) \<in> clashes cfg st"
  by (simp add: clashes_def)

lemma clashesD:
  "(key1, key2, a) \<in> clashes cfg st \<Longrightarrow>
   key1 \<noteq> key2 \<and> a \<in> set (IPPool cfg) \<and> publishesAt cfg st key1 a \<and> publishesAt cfg st key2 a"
  by (simp add: clashes_def)

lemma freeFor_publishesAt: "freeFor cfg key st a \<longleftrightarrow> (\<forall>key'. key' \<noteq> key \<longrightarrow> \<not> publishesAt cfg st key' a)"
  unfolding freeFor_def publishesAt_def by blast

lemma publishesAt_upd:
  "publishesAt cfg (st(key := m)) key' a \<longleftrightarrow>
   (if key' = key then \<exists>n. m = Some n \<and> liveManaged cfg n \<and> publishes n a else publishesAt cfg st key' a)"
  by (simp add: publishesAt_def)

text \<open>
  Replacing one stored Service adds no clash when every pool address the new one publishes,
  as a live managed Service, is free or was published by the old one as such.
\<close>

lemma clashes_update:
  assumes "\<And>n a. m = Some n \<Longrightarrow> liveManaged cfg n \<Longrightarrow> a \<in> set (IPPool cfg) \<Longrightarrow> publishes n a \<Longrightarrow>
    freeFor cfg key st a \<or> publishesAt cfg st key a"
  shows "clashes cfg (st(key := m)) \<subseteq> clashes cfg st"
proof (rule subsetI)
  fix x assume x: "x \<in> clashes cfg (st(key := m))"
  obtain k1 k2 a where xs: "x = (k1, k2, a)" by (metis surj_pair)
  note h = clashesD [OF x [unfolded xs]]
  have key: "freeFor cfg key st a \<or> publishesAt cfg st key a" if "publishesAt cfg (st(key := m)) key a"
    using that h assms by (auto simp: publishesAt_upd)
  have other: "publishesAt cfg st k a" if "k \<noteq> key" "publishesAt cfg (st(key := m)) k a" for k
    using that by (simp add: publishesAt_upd)
  have "publishesAt cfg st k1 a \<and> publishesAt cfg st k2 a"
    using h key other unfolding freeFor_publishesAt by metis
  then show "x \<in> clashes cfg st" unfolding xs using h by (intro clashesI) auto
qed

lemma clashes_same:
  assumes "st key = Some s"
    and "\<And>n a. m = Some n \<Longrightarrow> liveManaged cfg n \<Longrightarrow> publishes n a \<Longrightarrow> liveManaged cfg s \<and> publishes s a"
  shows "clashes cfg (st(key := m)) \<subseteq> clashes cfg st"
  using assms by (intro clashes_update) (auto simp: publishesAt_def)

text \<open>No step of a reconcile adds a clash or an orphan.\<close>

lemma ctl_step_clashes:
  assumes "ctl_step cfg key A B" "pool4 cfg"
  shows "clashes cfg (fst B) \<subseteq> clashes cfg (fst A)"
  using assms(1)
proof cases
  case (addFinalizer st s fs d)
  have "clashes cfg (st(key \<mapsto> s\<lparr>Finalizers := fs\<rparr>)) \<subseteq> clashes cfg st"
    by (rule clashes_same [of st key s]) (use addFinalizer in auto)
  then show ?thesis using addFinalizer by simp
next
  case (publish st s a d)
  have "Is4 a" using publish(4) assms(2) by (auto simp: pool4_def list_all_iff)
  then have "publishes (s\<lparr>status_Ingress := DesiredLoadBalancerIngress (AddrString a)\<rparr>) b \<longleftrightarrow> b = a" for b
    by (rule publishes_desired) simp
  then have "clashes cfg (st(key \<mapsto> s\<lparr>status_Ingress := DesiredLoadBalancerIngress (AddrString a)\<rparr>)) \<subseteq> clashes cfg st"
    using publish(5) by (intro clashes_update) auto
  then show ?thesis using publish by simp
next
  case (clearStatus st s d)
  have "clashes cfg (st(key \<mapsto> s\<lparr>status_Ingress := []\<rparr>)) \<subseteq> clashes cfg st"
    by (intro clashes_update) (auto simp: publishes_Nil)
  then show ?thesis using clearStatus by simp
next
  case (dropFinalizer st s d fs n)
  have n: "n = None \<or> n = Some (s\<lparr>Finalizers := fs\<rparr>)" using dropFinalizer(6) by simp
  have "clashes cfg (st(key := n)) \<subseteq> clashes cfg st"
    by (rule clashes_same [of st key s]) (use n dropFinalizer(3) in auto)
  then show ?thesis using dropFinalizer(2) dropFinalizer(1) by simp
qed auto

lemma orphansI: "d (refOf key) \<noteq> None \<Longrightarrow> (\<And>s. st key = Some s \<Longrightarrow> serviceFinalizer \<notin> set (Finalizers s)) \<Longrightarrow>
    key \<in> orphans (st, d)"
  by (simp add: orphans_def)

lemma orphansD: "key \<in> orphans (st, d) \<Longrightarrow>
    d (refOf key) \<noteq> None \<and> (\<forall>s. st key = Some s \<longrightarrow> serviceFinalizer \<notin> set (Finalizers s))"
  by (simp add: orphans_def)

lemma orphans_update:
  assumes "d' (refOf key) \<noteq> None \<Longrightarrow> (\<And>n. m = Some n \<Longrightarrow> serviceFinalizer \<notin> set (Finalizers n)) \<Longrightarrow> key \<in> orphans (st, d)"
    and "\<And>key'. key' \<noteq> key \<Longrightarrow> d' (refOf key') = d (refOf key')"
  shows "orphans (st(key := m), d') \<subseteq> orphans (st, d)"
proof (rule subsetI)
  fix k assume k: "k \<in> orphans (st(key := m), d')"
  show "k \<in> orphans (st, d)"
  proof (cases "k = key")
    case True
    then show ?thesis using orphansD [OF k] assms(1) by simp
  next
    case False
    then show ?thesis using orphansD [OF k] assms(2) by (intro orphansI) auto
  qed
qed

lemma orphans_kept:
  assumes "st key = Some s" "\<And>n. m = Some n \<Longrightarrow> serviceFinalizer \<in> set (Finalizers s) \<Longrightarrow> serviceFinalizer \<in> set (Finalizers n)"
    and "m = None \<Longrightarrow> serviceFinalizer \<notin> set (Finalizers s)"
  shows "orphans (st(key := m), d) \<subseteq> orphans (st, d)"
  using assms by (intro orphans_update orphansI) (cases m; auto)+

lemma ctl_step_orphans:
  assumes "ctl_step cfg key A B"
  shows "orphans B \<subseteq> orphans A"
  using assms
proof cases
  case (providerEnsure st s a v d)
  then show ?thesis using orphans_update [of "d(refOf key \<mapsto> v)" key "st key" st d] by (auto simp: fun_upd_idem)
next
  case (providerDelete st d)
  then show ?thesis using orphans_update [of "d(refOf key := None)" key "st key" st d] by auto
next
  case (addFinalizer st s fs d)
  then show ?thesis using orphans_kept [of st key s "Some (s\<lparr>Finalizers := fs\<rparr>)" d] by auto
next
  case (publish st s a d)
  then show ?thesis
    using orphans_kept [of st key s "Some (s\<lparr>status_Ingress := DesiredLoadBalancerIngress (AddrString a)\<rparr>)" d] by auto
next
  case (clearStatus st s d)
  then show ?thesis using orphans_kept [of st key s "Some (s\<lparr>status_Ingress := []\<rparr>)" d] by auto
next
  case (dropFinalizer st s d fs n)
  then show ?thesis using orphans_update [of d key n st d] by auto
qed

lemma ctl_steps_blameless:
  assumes "(ctl_step cfg key)\<^sup>*\<^sup>* A B" "pool4 cfg"
  shows "clashes cfg (fst B) \<subseteq> clashes cfg (fst A)" "orphans B \<subseteq> orphans A"
  using assms(1)
  by (induction rule: rtranclp_induct) (use ctl_step_clashes [OF _ assms(2)] ctl_step_orphans in blast)+

lemma ctl_step_noOrphans: "ctl_step cfg key A B \<Longrightarrow> noOrphans A \<Longrightarrow> noOrphans B"
  using ctl_step_orphans unfolding noOrphans_def by blast

lemma noOrphans_stored:
  assumes "noOrphans (st, d)" "d (refOf key) \<noteq> None"
  shows "\<exists>s. st key = Some s \<and> serviceFinalizer \<in> set (Finalizers s)"
  using assms orphansI [of d key st] unfolding noOrphans_def by blast

text \<open>A reconcile leaves other Services alone.\<close>

lemma ctl_step_other: "ctl_step cfg key A B \<Longrightarrow> key' \<noteq> key \<Longrightarrow> fst B key' = fst A key'"
  by (erule ctl_step.cases) auto

lemma ctl_steps_other: "(ctl_step cfg key)\<^sup>*\<^sup>* A B \<Longrightarrow> key' \<noteq> key \<Longrightarrow> fst B key' = fst A key'"
  by (induction rule: rtranclp_induct) (simp_all add: ctl_step_other)

lemma publishes_equal:
  assumes "Is4 a" "LoadBalancerIngressEqual (status_Ingress t) (DesiredLoadBalancerIngress (AddrString a))"
    and "publishes t b"
  shows "b = a"
proof -
  obtain i where i: "status_Ingress t = [i]" "TrimSpace (IP i) = AddrString a" using assms Equal_desired_iff by blast
  have "Is4 b" "IP i = AddrString b" using assms(3) i(1) by (auto simp: publishes_def parse4_Some)
  then have "AddrString b = AddrString a" using i(2) AddrString_TrimSpace by metis
  then show ?thesis using parse4_AddrString \<open>Is4 b\<close> assms(1) by (metis option.inject)
qed

section \<open>The system\<close>

text \<open>
  Ordinary edits by others: a new Service has no status, an edit keeps finalizers, deletion
  mark and status, deleting marks a Service that has finalizers and removes one that has none.
\<close>

inductive env_step ::
  "(namespaced_name \<rightharpoonup> kube_service) \<Rightarrow> (namespaced_name \<rightharpoonup> kube_service) \<Rightarrow> bool" where
  create: "st key = None \<Longrightarrow> status_Ingress s = [] \<Longrightarrow> env_step st (st(key \<mapsto> s))"
| edit: "st key = Some s \<Longrightarrow> Finalizers t = Finalizers s \<Longrightarrow> status_Ingress t = status_Ingress s \<Longrightarrow>
    DeletionTimestamp t = DeletionTimestamp s \<Longrightarrow> env_step st (st(key \<mapsto> t))"
| mark: "st key = Some s \<Longrightarrow> Finalizers s \<noteq> [] \<Longrightarrow> env_step st (st(key \<mapsto> s\<lparr>DeletionTimestamp := Some ts\<rparr>))"
| remove: "st key = Some s \<Longrightarrow> Finalizers s = [] \<Longrightarrow> env_step st (st(key := None))"

text \<open>They add no orphans, and a clash only by giving a published Service the controller's class.\<close>

lemma env_step_orphans:
  assumes "env_step st st'"
  shows "orphans (st', d) \<subseteq> orphans (st, d)"
  using assms
proof cases
  case (create key s)
  then show ?thesis using orphans_update [of d key "Some s" st d] orphansI [of d key st] by auto
next
  case (edit key s t)
  then show ?thesis using orphans_kept [of st key s "Some t" d] by auto
next
  case (mark key s ts)
  then show ?thesis using orphans_kept [of st key s "Some (s\<lparr>DeletionTimestamp := Some ts\<rparr>)" d] by auto
next
  case (remove key s)
  then show ?thesis using orphans_kept [of st key s None d] by auto
qed

lemma env_step_clashes:
  assumes "env_step st st'"
    and "\<And>key s t. st key = Some s \<Longrightarrow> st' key = Some t \<Longrightarrow> status_Ingress s \<noteq> [] \<Longrightarrow> liveManaged cfg t \<Longrightarrow> liveManaged cfg s"
  shows "clashes cfg st' \<subseteq> clashes cfg st"
  using assms(1)
proof cases
  case (edit key s t)
  have p: "publishes t a = publishes s a" for a using edit(4) by (simp add: publishes_def)
  have "liveManaged cfg s" if "liveManaged cfg t" "publishes t a" for a
    using assms(2) [OF edit(2), of t] edit(1) that p publishes_Nil by auto
  then show ?thesis unfolding edit(1) using p by (intro clashes_same [of st key s] edit(2)) auto
next
  case (create key s)
  show ?thesis unfolding create(1) using create(3) by (intro clashes_update) (auto simp: publishes_Nil)
next
  case (mark key s ts)
  show ?thesis unfolding mark(1) by (intro clashes_update) (auto simp: liveManaged_def)
next
  case (remove key s)
  show ?thesis unfolding remove(1) by (intro clashes_update) simp_all
qed

text \<open>
  The worlds a system of one reconciler and others can reach from any world, with what others
  are to blame for: the clashes and orphans that were there at the start, and those that a
  change of the stored Services by somebody else brought.  Others may change the stored
  Services in any way, but between reconciles.  The provider or the controller may restart
  at any time: what they kept in memory is then lost or partly lost, but nothing is held that
  was not held before.
\<close>

inductive system ::
  "('k, 'p, 'e) reconciler \<Rightarrow> ('k \<Rightarrow> namespaced_name \<rightharpoonup> kube_service) \<Rightarrow>
   ('p \<times> metrics \<Rightarrow> service_ref \<rightharpoonup> p_service) \<Rightarrow> ('p \<times> metrics \<Rightarrow> bool) \<Rightarrow>
   (namespaced_name \<times> namespaced_name \<times> addr) set \<Rightarrow> namespaced_name set \<Rightarrow> ('k, 'p) cworld \<Rightarrow> bool"
  for r objs desired ok where
  start: "ok (prov w, met w) \<Longrightarrow>
    system r objs desired ok (clashes (rec_Config r) (objs (kube w))) (orphans (absState objs desired w)) w"
| reconcile: "system r objs desired ok Cs Os w \<Longrightarrow> Reconcile r key w = (x, w') \<Longrightarrow> system r objs desired ok Cs Os w'"
| others: "system r objs desired ok Cs Os w \<Longrightarrow> w' = w\<lparr>kube := k'\<rparr> \<Longrightarrow>
    system r objs desired ok
      (Cs \<union> (clashes (rec_Config r) (objs k') - clashes (rec_Config r) (objs (kube w))))
      (Os \<union> (orphans (absState objs desired w') - orphans (absState objs desired w))) w'"
| restart: "system r objs desired ok Cs Os w \<Longrightarrow> desired (p', m') \<subseteq>\<^sub>m desired (prov w, met w) \<Longrightarrow> ok (p', m') \<Longrightarrow>
    system r objs desired ok Cs Os (w\<lparr>prov := p', met := m'\<rparr>)"

lemma orphans_mono:
  assumes "d' \<subseteq>\<^sub>m d"
  shows "orphans (st, d') \<subseteq> orphans (st, d)"
  using assms unfolding orphans_def map_le_def by (auto simp: dom_def)

lemma controller_env_pool4: "controller_env r objs desired canon ok legal \<Longrightarrow> pool4 (rec_Config r)"
  using controller_env.pool_ipv4 by (fastforce simp: pool4_def list_all_iff)

lemma system_keeps:
  assumes env: "controller_env r objs desired canon ok legal" and "system r objs desired ok Cs Os w"
  shows "ok (prov w, met w) \<and> clashes (rec_Config r) (objs (kube w)) \<subseteq> Cs \<and> orphans (absState objs desired w) \<subseteq> Os"
  using assms(2)
proof (induction rule: system.induct)
  case (start w)
  then show ?case by simp
next
  case (reconcile Cs Os w key x w')
  have g: "ok (prov w, met w)" using reconcile by simp
  note S = controller_env.Reconcile_steps(1) [OF env reconcile(2) g]
  note B = ctl_steps_blameless [OF conjunct1 [OF S] controller_env_pool4 [OF env]]
  have "clashes (rec_Config r) (objs (kube w')) \<subseteq> clashes (rec_Config r) (objs (kube w))"
    using B(1) by (simp add: absState_def)
  then show ?case using S B(2) reconcile(3) by blast
next
  case (others Cs Os w w' k')
  then show ?case by auto
next
  case (restart Cs Os w p' m')
  have "orphans (absState objs desired (w\<lparr>prov := p', met := m'\<rparr>)) \<subseteq> orphans (absState objs desired w)"
    using orphans_mono [OF restart(2)] by (simp add: absState_def)
  then show ?case using restart by auto
qed

section \<open>An API server\<close>

text \<open>
  An API server in memory.  It only holds objects whose names are DNS labels.  While it
  answers, calls succeed whenever the object exists; otherwise every call fails.
\<close>

record cluster =
  cl_services :: "kube_service list"
  cl_slices :: "endpoint_slice list"
  cl_answers :: bool

definition dnsLabel :: "string \<Rightarrow> bool" where
  "dnsLabel s = (s \<noteq> [] \<and> list_all (\<lambda>c. isDigit c \<or> CHR ''a'' \<le> c \<and> c \<le> CHR ''z'' \<or> c = CHR ''-'') s)"

definition clusterObjs :: "cluster \<Rightarrow> namespaced_name \<rightharpoonup> kube_service" where
  "clusterObjs k key =
     (if dnsLabel (fst key) \<and> dnsLabel (snd key) then find (\<lambda>s. objectKey s = key) (cl_services k) else None)"

definition putService :: "kube_service \<Rightarrow> cluster \<Rightarrow> cluster" where
  "putService s k = k\<lparr>cl_services := s # filter (\<lambda>t. objectKey t \<noteq> objectKey s) (cl_services k)\<rparr>"

definition dropService :: "namespaced_name \<Rightarrow> cluster \<Rightarrow> cluster" where
  "dropService key k = k\<lparr>cl_services := filter (\<lambda>t. objectKey t \<noteq> key) (cl_services k)\<rparr>"

definition clusterClient :: "cluster kube_client" where
  "clusterClient = \<lparr>
     client_Get = (\<lambda>key k. (k, if \<not> cl_answers k then Inl (APIError ''timeout'')
       else case clusterObjs k key of None \<Rightarrow> Inl NotFound | Some s \<Rightarrow> Inr s)),
     client_ListServices = (\<lambda>k. (k, if \<not> cl_answers k then Inl (APIError ''timeout'')
       else Inr (filter (\<lambda>s. clusterObjs k (objectKey s) = Some s) (cl_services k)))),
     client_ListEndpointSlices = (\<lambda>ns name k. (k, if \<not> cl_answers k then Inl (APIError ''timeout'')
       else Inr (filter (\<lambda>sl. es_Namespace sl = ns \<and> label (es_Labels sl) LabelServiceName = name) (cl_slices k)))),
     client_StatusUpdate = (\<lambda>s k. if \<not> cl_answers k then (k, Inl (APIError ''timeout''))
       else case clusterObjs k (objectKey s) of
           None \<Rightarrow> (k, Inl NotFound)
         | Some old \<Rightarrow> let t = old\<lparr>status_Ingress := status_Ingress s\<rparr> in (putService t k, Inr t)),
     client_Patch = (\<lambda>s t k. if \<not> cl_answers k then (k, Inl (APIError ''timeout''))
       else case clusterObjs k (objectKey s) of
           None \<Rightarrow> (k, Inl NotFound)
         | Some old \<Rightarrow> let t = old\<lparr>Finalizers := Finalizers t\<rparr> in
             (if DeletionTimestamp old \<noteq> None \<and> Finalizers t = [] then dropService (objectKey s) k
              else putService t k, Inr t))\<rparr>"

lemma find_filter_other: "(\<And>x. P x \<Longrightarrow> Q x) \<Longrightarrow> find P (filter Q xs) = find P xs"
  by (induction xs) auto

lemma clusterObjs_put:
  "clusterObjs k (objectKey s) \<noteq> None \<Longrightarrow> clusterObjs (putService s k) = (clusterObjs k)(objectKey s \<mapsto> s)"
proof
  fix key assume "clusterObjs k (objectKey s) \<noteq> None"
  then show "clusterObjs (putService s k) key = ((clusterObjs k)(objectKey s \<mapsto> s)) key"
    by (cases "key = objectKey s") (auto simp: clusterObjs_def putService_def find_filter_other split: if_splits)
qed

lemma find_filter_none: "(\<And>x. P x \<Longrightarrow> \<not> Q x) \<Longrightarrow> find P (filter Q xs) = None"
  by (auto simp: find_None_iff)

lemma clusterObjs_drop: "clusterObjs (dropService key k) = (clusterObjs k)(key := None)"
proof
  fix key'
  show "clusterObjs (dropService key k) key' = ((clusterObjs k)(key := None)) key'"
    by (cases "key' = key") (simp_all add: clusterObjs_def dropService_def find_filter_other find_filter_none)
qed

lemma clusterObjs_key: "clusterObjs k key = Some s \<Longrightarrow> objectKey s = key \<and> s \<in> set (cl_services k)"
  by (auto simp: clusterObjs_def find_Some_iff split: if_splits)

lemma clusterObjs_dns: "clusterObjs k key = Some s \<Longrightarrow> dnsLabel (fst key) \<and> dnsLabel (snd key)"
  by (simp add: clusterObjs_def split: if_splits)

lemma objectKey_upd [simp]:
  "objectKey (s\<lparr>Finalizers := fs\<rparr>) = objectKey s" "objectKey (s\<lparr>status_Ingress := is\<rparr>) = objectKey s"
  by (simp_all add: objectKey_def)

interpretation apiserver: kube_api clusterClient clusterObjs
proof (unfold_locales, goal_cases)
  case (1 k key s) then show ?case using clusterObjs_key by blast
next
  case (6 k k' ss)
  then have "set ss = {s \<in> set (cl_services k). clusterObjs k (objectKey s) = Some s}"
    by (auto simp: clusterClient_def split: if_splits)
  also have "\<dots> = ran (clusterObjs k)" 
    using clusterObjs_key by (auto simp: ran_def simp del: split_paired_Ex split_paired_All)
  finally show ?case .
next
  case (8 s k k' t)
  then show ?case using clusterObjs_key [of k "objectKey s"]
    by (auto simp: clusterClient_def clusterObjs_put Let_def split: if_splits option.splits)
next
  case (10 s fs k k' t)
  then show ?case using clusterObjs_key [of k "objectKey s"]
    by (auto simp: clusterClient_def clusterObjs_put clusterObjs_drop withFinalizers_def Let_def
        split: if_splits option.splits)
qed (auto simp: clusterClient_def Let_def split: if_splits option.splits)

definition listFinalizers :: finalizer_util where
  "listFinalizers = \<lparr>ContainsFinalizer = (\<lambda>fs f. f \<in> set fs), AddFinalizer = (\<lambda>fs f. if f \<in> set fs then fs else fs @ [f]),
     RemoveFinalizer = (\<lambda>fs f. filter (\<lambda>x. x \<noteq> f) fs)\<rparr>"

interpretation listfin: finalizer_laws listFinalizers
  by unfold_locales (auto simp: listFinalizers_def)

definition sampleConfig :: controller_config where
  "sampleConfig = \<lparr>cc_LoadBalancerClass = ''lb'', IPPool = [V4 203 0 113 10, V4 203 0 113 11], RequeueAfter = 30\<rparr>"

definition sampleReconciler :: "(cluster, mock_provider \<times> service_ref list, unit) reconciler" where
  "sampleReconciler = \<lparr>Client = clusterClient, rec_Config = sampleConfig,
     Provider = WrapProvider mockOps, Util = listFinalizers\<rparr>"

abbreviation sampleDesired :: "(mock_provider \<times> service_ref list) \<times> metrics \<Rightarrow> service_ref \<rightharpoonup> p_service" where
  "sampleDesired w \<equiv> Mock_Get (fst (fst w))"

abbreviation sampleOk :: "(mock_provider \<times> service_ref list) \<times> metrics \<Rightarrow> bool" where
  "sampleOk w \<equiv> mock_ok (fst (fst w)) \<and> tracks Mock_Get w"

interpretation sample: controller_env sampleReconciler clusterObjs sampleDesired "\<lambda>s. s" sampleOk "\<lambda>_. True"
proof -
  have r: "Client sampleReconciler = clusterClient" "Util sampleReconciler = listFinalizers"
    "Provider sampleReconciler = WrapProvider mockOps" by (simp_all add: sampleReconciler_def)
  show "controller_env sampleReconciler clusterObjs sampleDesired (\<lambda>s. s) sampleOk (\<lambda>_. True)"
    unfolding controller_env_def r
    using apiserver.kube_api_axioms listfin.finalizer_laws_axioms wrapmock.effects.provider_effects_axioms
    by (auto simp: controller_env_axioms_def tracks_def sampleReconciler_def sampleConfig_def)
qed

section \<open>Samples\<close>

definition sampleKubeService :: "string \<Rightarrow> kube_service" where
  "sampleKubeService name = \<lparr>ks_Namespace = ''web'', ks_Name = name, DeletionTimestamp = None, Finalizers = [],
     Generation = 1, spec_Type = ServiceTypeLoadBalancer, spec_LoadBalancerClass = Some ''lb'',
     spec_Ports = [], status_Ingress = []\<rparr>"

definition sampleWorld :: "kube_service list \<Rightarrow> (cluster, mock_provider \<times> service_ref list) cworld" where
  "sampleWorld ss = \<lparr>kube = \<lparr>cl_services = ss, cl_slices = [], cl_answers = True\<rparr>,
     prov = (NewMockProvider, []), met = noMetrics\<rparr>"

lemma sampleWorld_ok: "sampleOk (prov (sampleWorld ss), met (sampleWorld ss))"
  "sampleDesired (prov (sampleWorld ss), met (sampleWorld ss)) = Map.empty"
  using mock.invar_empty mock.get_empty
  by (simp_all add: sampleWorld_def tracks_def noMetrics_def NewMockProvider_def)

lemma sample_reconcile:
  "fst (Reconcile sampleReconciler (''web'', ''shop'') (sampleWorld [sampleKubeService ''shop''])) = Inr 0"
  by code_simp

lemma sample_objs: "dnsLabel (ks_Namespace s) \<Longrightarrow> dnsLabel (ks_Name s) \<Longrightarrow>
    clusterObjs (kube (sampleWorld [s])) (objectKey s) = Some s"
  by (simp add: clusterObjs_def sampleWorld_def objectKey_def)

lemma sample_dns [simp]: "dnsLabel ''web''" "dnsLabel ''shop''"
  by code_simp+

definition dyingService :: kube_service where
  "dyingService = sampleKubeService ''shop''\<lparr>DeletionTimestamp := Some 7, Finalizers := [serviceFinalizer]\<rparr>"

lemma sample_deletion:
  "fst (Reconcile sampleReconciler (''web'', ''shop'') (sampleWorld [dyingService])) = Inr 0"
  by code_simp

text \<open>Two Services that others gave the same address.\<close>

definition clashing :: "string \<Rightarrow> kube_service" where
  "clashing name = sampleKubeService name\<lparr>Finalizers := [serviceFinalizer],
     status_Ingress := DesiredLoadBalancerIngress (AddrString (V4 203 0 113 10))\<rparr>"

definition clashingWorld :: "(cluster, mock_provider \<times> service_ref list) cworld" where
  "clashingWorld = sampleWorld [clashing ''shop'', clashing ''cart'']"

lemma clashing_reconcile: "fst (Reconcile sampleReconciler (''web'', ''shop'') clashingWorld) = Inr 0"
  by code_simp

lemma clashing_objs:
  "clusterObjs (kube clashingWorld) (''web'', ''shop'') = Some (clashing ''shop'')"
  "clusterObjs (kube clashingWorld) (''web'', ''cart'') = Some (clashing ''cart'')"
  by code_simp+

lemma clashing_clash:
  "((''web'', ''shop''), (''web'', ''cart''), V4 203 0 113 10) \<in> clashes sampleConfig (clusterObjs (kube clashingWorld))"
proof (rule clashesI)
  have "liveManaged sampleConfig (clashing n)" for n
    by (simp add: clashing_def sampleKubeService_def liveManaged_def isManagedLoadBalancerService_def sampleConfig_def)
  moreover have "publishes (clashing n) (V4 203 0 113 10)" for n
    by (subst publishes_desired [where a = "V4 203 0 113 10"]) (simp_all add: clashing_def)
  ultimately show "publishesAt sampleConfig (clusterObjs (kube clashingWorld)) (''web'', ''shop'') (V4 203 0 113 10)"
    "publishesAt sampleConfig (clusterObjs (kube clashingWorld)) (''web'', ''cart'') (V4 203 0 113 10)"
    using clashing_objs by (simp_all add: publishesAt_def)
qed (simp_all add: sampleConfig_def)

section \<open>Properties\<close>

text \<open>
  C5: A reconcile of a Service is a sequence of atomic steps on that Service alone, whatever
  calls fail: the provider is only given state while the stored object carries the
  finalizer, an address is only handed out or published while no other live managed Service
  publishes it, and the finalizer is only dropped while the provider holds nothing.
\<close>

theorem reconcile_refines_steps:
  assumes "controller_env r objs desired canon ok legal" "ok (prov w, met w)" "Reconcile r key w = (x, w')"
  shows "(ctl_step (rec_Config r) key)\<^sup>*\<^sup>* (absState objs desired w) (absState objs desired w') \<and>
    ok (prov w', met w')"
  using controller_env.Reconcile_steps(1) [OF assms(1,3,2)] .

theorem reconcile_refines_steps_witness:
  "\<exists>x w. Reconcile sampleReconciler (''web'', ''shop'') (sampleWorld [sampleKubeService ''shop'']) = (x, w) \<and>
    (ctl_step sampleConfig (''web'', ''shop''))\<^sup>*\<^sup>*
      (absState clusterObjs sampleDesired (sampleWorld [sampleKubeService ''shop'']))
      (absState clusterObjs sampleDesired w)"
proof -
  obtain x w where e: "Reconcile sampleReconciler (''web'', ''shop'') (sampleWorld [sampleKubeService ''shop'']) = (x, w)"
    by (rule prod.exhaust)
  have "rec_Config sampleReconciler = sampleConfig" by (simp add: sampleReconciler_def)
  with reconcile_refines_steps [OF sample.controller_env_axioms sampleWorld_ok(1) e]
  have "(ctl_step sampleConfig (''web'', ''shop''))\<^sup>*\<^sup>*
      (absState clusterObjs sampleDesired (sampleWorld [sampleKubeService ''shop'']))
      (absState clusterObjs sampleDesired w)" by simp
  with e show ?thesis by blast
qed

text \<open>
  C6: The controller never gives two Services the same address and never leaves anything
  behind.  In every state the system reaches, from any start, however whole reconciles of any
  Services, failing calls, restarts and arbitrary changes of the stored Services by others
  between reconciles follow each other: two live managed Services publish the same pool
  address only if they did so at the start or a change by somebody else made them, and the
  provider holds something for a name without a stored Service that carries the finalizer
  only if it did so at the start or somebody else removed the Service or its finalizer.
\<close>

theorem system_invariants:
  assumes "controller_env r objs desired canon ok legal" "system r objs desired ok Cs Os w"
  shows "clashes (rec_Config r) (objs (kube w)) \<subseteq> Cs \<and> orphans (absState objs desired w) \<subseteq> Os"
  using system_keeps [OF assms] by blast

theorem system_invariants_witness:
  "\<exists>x w. Reconcile sampleReconciler (''web'', ''shop'') (sampleWorld [sampleKubeService ''shop'']) = (x, w) \<and>
    uniqueIPs sampleConfig (clusterObjs (kube w)) \<and> noOrphans (absState clusterObjs sampleDesired w)"
proof -
  let ?s = "sampleKubeService ''shop''" and ?sys = "system sampleReconciler clusterObjs sampleDesired sampleOk"
  let ?w0 = "sampleWorld []" and ?w1 = "sampleWorld [?s]"
  obtain x w where e: "Reconcile sampleReconciler (''web'', ''shop'') ?w1 = (x, w)" by (rule prod.exhaust)
  have o: "clusterObjs (kube ?w0) = Map.empty" "clusterObjs (kube ?w1) = [objectKey ?s \<mapsto> ?s]"
    by (auto simp: clusterObjs_def sampleWorld_def sampleKubeService_def objectKey_def fun_eq_iff)
  have none: "clashes cfg (clusterObjs (kube ?w0)) = {}" "clashes cfg (clusterObjs (kube ?w1)) = {}"
    "orphans (absState clusterObjs sampleDesired ?w0) = {}" "orphans (absState clusterObjs sampleDesired ?w1) = {}" for cfg
    unfolding o absState_def sampleWorld_ok(2)
    by (auto simp: clashes_def publishesAt_def orphans_def sampleKubeService_def publishes_Nil split: if_splits)
  have "?sys {} {} ?w0"
    using system.start [of sampleOk ?w0 sampleReconciler clusterObjs sampleDesired] sampleWorld_ok(1) none by simp
  from system.others [OF this, of ?w1 "kube ?w1"] have "?sys {} {} ?w1" using none by (simp add: sampleWorld_def)
  then have "?sys {} {} w" by (rule system.reconcile) (rule e)
  from system_invariants [OF sample.controller_env_axioms this]
  have "uniqueIPs sampleConfig (clusterObjs (kube w)) \<and> noOrphans (absState clusterObjs sampleDesired w)"
    by (simp add: sampleReconciler_def uniqueIPs_def noOrphans_def)
  with e show ?thesis by blast
qed

text \<open>
  C7: When a reconcile of a live managed Service succeeds without asking for a requeue, the
  stored Service carries the finalizer and publishes exactly one address, an address of the
  pool, and the provider holds the Service with that same external address.
\<close>

theorem reconcile_publishes_what_it_serves:
  assumes "controller_env r objs desired canon ok legal" "ok (prov w, met w)" "Reconcile r key w = (Inr 0, w')"
    and "RequeueAfter (rec_Config r) \<noteq> 0" "objs (kube w) key = Some s" "liveManaged (rec_Config r) s"
  shows "\<exists>t v a i. objs (kube w') key = Some t \<and> a \<in> set (IPPool (rec_Config r)) \<and>
    status_Ingress t = [i] \<and> TrimSpace (IP i) = AddrString a \<and> serviceFinalizer \<in> set (Finalizers t) \<and>
    desired (prov w', met w') (refOf key) = Some v \<and> ExternalIP v = AddrString a"
proof -
  obtain t v a where h: "objs (kube w') key = Some t" "a \<in> set (IPPool (rec_Config r))"
    "LoadBalancerIngressEqual (status_Ingress t) (DesiredLoadBalancerIngress (AddrString a))"
    "serviceFinalizer \<in> set (Finalizers t)" "desired (prov w', met w') (refOf key) = Some v"
    "ExternalIP v = AddrString a"
    using controller_env.Reconcile_steps(2) [OF assms(1,3,2,5,6) refl assms(4)] by (auto simp: absState_def)
  moreover have "Is4 a" using controller_env.pool_ipv4 [OF assms(1) h(2)] .
  ultimately show ?thesis using Equal_desired_iff by blast
qed

theorem reconcile_publishes_what_it_serves_witness:
  "\<exists>w t v a i. Reconcile sampleReconciler (''web'', ''shop'') (sampleWorld [sampleKubeService ''shop'']) = (Inr 0, w) \<and>
    clusterObjs (kube w) (''web'', ''shop'') = Some t \<and> status_Ingress t = [i] \<and> TrimSpace (IP i) = AddrString a \<and>
    sampleDesired (prov w, met w) (refOf (''web'', ''shop'')) = Some v \<and> ExternalIP v = AddrString a"
proof -
  let ?s = "sampleKubeService ''shop''"
  obtain w where e: "Reconcile sampleReconciler (''web'', ''shop'') (sampleWorld [?s]) = (Inr 0, w)"
    using sample_reconcile by (metis prod.collapse)
  have k: "objectKey ?s = (''web'', ''shop'')" by (simp add: objectKey_def sampleKubeService_def)
  have d: "dnsLabel (ks_Namespace ?s)" "dnsLabel (ks_Name ?s)" by (simp_all add: sampleKubeService_def)
  have "RequeueAfter (rec_Config sampleReconciler) \<noteq> 0" "liveManaged (rec_Config sampleReconciler) ?s"
    by (simp_all add: sampleReconciler_def sampleConfig_def sampleKubeService_def liveManaged_def
        isManagedLoadBalancerService_def)
  from reconcile_publishes_what_it_serves [OF sample.controller_env_axioms sampleWorld_ok(1) e this(1)
      sample_objs [of ?s, unfolded k, OF d] this(2)] e
  show ?thesis by blast
qed

text \<open>
  C22: Reconciling repairs.  Whatever others did to the stored Services before, when a
  reconcile of a live managed Service succeeds without asking for a requeue, its status is one
  address of the pool that no other live managed Service publishes, so it clashes with
  nobody; and it is the only stored Service that was changed.
\<close>

theorem reconcile_repairs_clash:
  assumes "controller_env r objs desired canon ok legal" "ok (prov w, met w)" "Reconcile r key w = (Inr 0, w')"
    and "RequeueAfter (rec_Config r) \<noteq> 0" "objs (kube w) key = Some s" "liveManaged (rec_Config r) s"
  shows "(\<exists>t i a. objs (kube w') = (objs (kube w))(key \<mapsto> t) \<and> status_Ingress t = [i] \<and>
      TrimSpace (IP i) = AddrString a \<and> a \<in> set (IPPool (rec_Config r)) \<and>
      freeFor (rec_Config r) key (objs (kube w')) a) \<and>
    (\<forall>other a. (key, other, a) \<notin> clashes (rec_Config r) (objs (kube w')))"
proof -
  note R = controller_env.Reconcile_steps [OF assms(1,3,2)]
  obtain t a where h: "objs (kube w') key = Some t" "a \<in> set (IPPool (rec_Config r))"
    "LoadBalancerIngressEqual (status_Ingress t) (DesiredLoadBalancerIngress (AddrString a))"
    "freeFor (rec_Config r) key (objs (kube w')) a"
    using R(2) [OF assms(5,6) refl assms(4)] by blast
  have "objs (kube w') other = ((objs (kube w))(key \<mapsto> t)) other" for other
    using ctl_steps_other [OF conjunct1 [OF R(1)], of other] h(1) by (cases "other = key") (simp_all add: absState_def)
  then have o: "objs (kube w') = (objs (kube w))(key \<mapsto> t)" by (rule ext)
  have a4: "Is4 a" using controller_env.pool_ipv4 [OF assms(1) h(2)] .
  have "publishesAt (rec_Config r) (objs (kube w')) key b \<Longrightarrow> b = a" for b
    using h(1) publishes_equal [OF a4 h(3)] by (simp add: publishesAt_def)
  then have "(key, other, b) \<notin> clashes (rec_Config r) (objs (kube w'))" for other b
    using h(4) clashesD unfolding freeFor_publishesAt by metis
  then show ?thesis using o h(2-4) Equal_desired_iff [OF a4] by blast
qed

theorem reconcile_repairs_clash_witness:
  "\<exists>w. Reconcile sampleReconciler (''web'', ''shop'') clashingWorld = (Inr 0, w) \<and>
    ((''web'', ''shop''), (''web'', ''cart''), V4 203 0 113 10) \<in> clashes sampleConfig (clusterObjs (kube clashingWorld)) \<and>
    (\<forall>other a. ((''web'', ''shop''), other, a) \<notin> clashes sampleConfig (clusterObjs (kube w)))"
proof -
  obtain w where e: "Reconcile sampleReconciler (''web'', ''shop'') clashingWorld = (Inr 0, w)"
    using clashing_reconcile by (metis prod.collapse)
  have "RequeueAfter (rec_Config sampleReconciler) \<noteq> 0"
    "liveManaged (rec_Config sampleReconciler) (clashing ''shop'')" by code_simp+
  note r = reconcile_repairs_clash [OF sample.controller_env_axioms _ e this(1) clashing_objs(1) this(2)]
  have "rec_Config sampleReconciler = sampleConfig" by (simp add: sampleReconciler_def)
  moreover have "sampleOk (prov clashingWorld, met clashingWorld)" unfolding clashingWorld_def by (rule sampleWorld_ok)
  ultimately have "\<forall>other a. ((''web'', ''shop''), other, a) \<notin> clashes sampleConfig (clusterObjs (kube w))"
    using conjunct2 [OF r] by simp
  then show ?thesis using clashing_clash e by blast
qed

text \<open>
  C8: When the reconcile of a Service under deletion that carries the finalizer succeeds, the
  provider no longer holds the Service and the stored object, if it still exists because of
  other finalizers, no longer carries this one.
\<close>

theorem reconcile_deletion_cleans_up:
  assumes "controller_env r objs desired canon ok legal" "ok (prov w, met w)" "Reconcile r key w = (Inr n, w')"
    and "objs (kube w) key = Some s" "DeletionTimestamp s \<noteq> None" "serviceFinalizer \<in> set (Finalizers s)"
  shows "desired (prov w', met w') (refOf key) = None \<and>
    (\<forall>t. objs (kube w') key = Some t \<longrightarrow> serviceFinalizer \<notin> set (Finalizers t))"
  using controller_env.Reconcile_steps(3) [OF assms(1,3,2,4-6) refl] by (simp add: absState_def)

theorem reconcile_deletion_cleans_up_witness:
  "\<exists>w. Reconcile sampleReconciler (''web'', ''shop'') (sampleWorld [dyingService]) = (Inr 0, w) \<and>
    sampleDesired (prov w, met w) (refOf (''web'', ''shop'')) = None \<and>
    (\<forall>t. clusterObjs (kube w) (''web'', ''shop'') = Some t \<longrightarrow> serviceFinalizer \<notin> set (Finalizers t))"
proof -
  obtain w where e: "Reconcile sampleReconciler (''web'', ''shop'') (sampleWorld [dyingService]) = (Inr 0, w)"
    using sample_deletion by (metis prod.collapse)
  have k: "objectKey dyingService = (''web'', ''shop'')" "DeletionTimestamp dyingService \<noteq> None"
    "serviceFinalizer \<in> set (Finalizers dyingService)"
    by (simp_all add: objectKey_def dyingService_def sampleKubeService_def)
  have d: "dnsLabel (ks_Namespace dyingService)" "dnsLabel (ks_Name dyingService)"
    by (simp_all add: dyingService_def sampleKubeService_def)
  from reconcile_deletion_cleans_up [OF sample.controller_env_axioms sampleWorld_ok(1) e
      sample_objs [of dyingService, unfolded k(1), OF d] k(2,3)] e
  show ?thesis by blast
qed

end
