(* ===== verification/Dataplane_Link.thy ===== *)
theory Dataplane_Link
  imports Dataplane_Api Cluster
begin

text \<open>
  The dataplane API provider over a network with the dataplane's handler at the other end.
  A link may lose requests and answers and deliver requests repeatedly.  Over any such link
  the provider meets the contract the controller relies on, and over a link that loses
  nothing it is the engine itself.  The last section composes the whole system: controller,
  metrics, HTTP client, link, handler, engine, kernel and files.
\<close>

section \<open>Links\<close>

text \<open>
  What a request does to a server it is delivered to any number of times: the state after
  the last delivery and the answer to it, if there was one.
\<close>

inductive deliveries ::
  "(http_request \<Rightarrow> 's \<Rightarrow> http_response option \<times> 's) \<Rightarrow> http_request \<Rightarrow> 's \<Rightarrow> http_response option \<Rightarrow> 's \<Rightarrow> bool"
  for serve r where
  none: "deliveries serve r s None s"
| again: "deliveries serve r s x t \<Longrightarrow> serve r t = (y, u) \<Longrightarrow> deliveries serve r s y u"

text \<open>
  A link to a server: \<open>srv w\<close> is the server's state in the world \<open>w\<close>.  By the time the call
  returns, a request that the server routes to a handler has been delivered any number of
  times, and its answer may be lost; an answer that arrives is the one to the last delivery.
\<close>

locale http_link =
  fixes send :: "'w http_client" and serve :: "http_request \<Rightarrow> 's \<Rightarrow> http_response option \<times> 's" and srv :: "'w \<Rightarrow> 's"
  assumes delivery: "routeOf (requestFor m u b) \<noteq> None \<Longrightarrow> send m u b ct w = (x, w') \<Longrightarrow>
    \<exists>a. deliveries serve (requestFor m u b) (srv w) a (srv w') \<and>
      (\<forall>code st body. x = Answered code st body \<longrightarrow>
        (\<exists>resp. a = Some resp \<and> StatusCode resp = code \<and> resp_Body resp = body))"

text \<open>
  Delivering a request several times does not do more than delivering it once: \<open>f\<close> is what
  it does to the observed state \<open>st\<close>, \<open>I\<close> an invariant and \<open>Q\<close> what a successful answer tells.
\<close>

lemma deliveries_effect:
  assumes "deliveries serve r s a t" "I s"
    and step: "\<And>s a t. I s \<Longrightarrow> serve r s = (a, t) \<Longrightarrow> I t \<and> (st t = st s \<or> st t = f (st s)) \<and>
      (\<forall>resp. a = Some resp \<longrightarrow> P resp \<longrightarrow> st t = f (st s) \<and> Q t)"
    and idem: "\<And>d. f (f d) = f d"
  shows "I t \<and> (st t = st s \<or> st t = f (st s)) \<and> (\<forall>resp. a = Some resp \<longrightarrow> P resp \<longrightarrow> st t = f (st s) \<and> Q t)"
  using assms(1,2)
proof (induction rule: deliveries.induct)
  case (again s x t y u)
  from step [OF _ again(2)] again(3,4) idem show ?case by metis
qed simp

lemma doRequest_cases:
  assumes "doRequest send p meth ref body ct w = (r, w')"
  obtains x where "send meth (serviceURL p ref) body ct w = (x, w')"
    "\<And>c. r = Inr c \<Longrightarrow> \<exists>code st bytes. x = Answered code st bytes \<and> 200 \<le> code \<and> code < 300 \<and>
      unmarshalChanged bytes = Some (Some c)"
proof -
  obtain x w1 where s: "send meth (serviceURL p ref) body ct w = (x, w1)" by force
  have "w1 = w'" "r = Inr c \<Longrightarrow> \<exists>code st bytes. x = Answered code st bytes \<and> 200 \<le> code \<and> code < 300 \<and>
      unmarshalChanged bytes = Some (Some c)" for c
    using assms s by (auto simp: doRequest_def split: exchange.splits if_splits option.splits)
  with s that show ?thesis by blast
qed

definition success :: "http_response \<Rightarrow> bool" where
  "success resp = (200 \<le> StatusCode resp \<and> StatusCode resp < 300)"

context http_link
begin

lemma request_effect:
  assumes d: "doRequest send p meth ref body ct w = (r, w')" and l: "legalRef ref" "rootPath p" and i: "I (srv w)"
    and step: "\<And>s a t. I s \<Longrightarrow> serve (requestFor meth (serviceURL p ref) body) s = (a, t) \<Longrightarrow>
      I t \<and> (st t = st s \<or> st t = f (st s)) \<and>
      (\<forall>resp. a = Some resp \<longrightarrow> success resp \<longrightarrow> st t = f (st s) \<and> Q t)"
    and idem: "\<And>d. f (f d) = f d"
  shows "I (srv w')" "st (srv w') = st (srv w) \<or> st (srv w') = f (st (srv w))"
    "r = Inr c \<Longrightarrow> st (srv w') = f (st (srv w)) \<and> Q (srv w')"
proof -
  obtain x where x: "send meth (serviceURL p ref) body ct w = (x, w')"
    "\<And>c. r = Inr c \<Longrightarrow> \<exists>code st bytes. x = Answered code st bytes \<and> 200 \<le> code \<and> code < 300 \<and>
      unmarshalChanged bytes = Some (Some c)" using doRequest_cases [OF d] by blast
  have "routeOf (requestFor meth (serviceURL p ref) body) \<noteq> None"
    using routed [OF serviceURL_path [OF l(2,1)] l(1)] by simp
  from delivery [OF this x(1)] obtain a where a: "deliveries serve (requestFor meth (serviceURL p ref) body) (srv w) a (srv w')"
    "\<forall>code st body. x = Answered code st body \<longrightarrow> (\<exists>resp. a = Some resp \<and> StatusCode resp = code \<and> resp_Body resp = body)"
    by (elim exE conjE)
  note E = deliveries_effect [OF a(1), where I = I and st = st and f = f and P = success and Q = Q, OF i step idem]
  show "I (srv w')" "st (srv w') = st (srv w) \<or> st (srv w') = f (st (srv w))" using E by blast+
  show "r = Inr c \<Longrightarrow> st (srv w') = f (st (srv w)) \<and> Q (srv w')"
  proof -
    assume "r = Inr c"
    from x(2) [OF this] obtain code st' bytes where c: "x = Answered code st' bytes" "200 \<le> code" "code < 300" by blast
    from a(2) c(1) obtain resp where "a = Some resp" "StatusCode resp = code" by blast
    with E c(2,3) show ?thesis by (auto simp: success_def)
  qed
qed

end

section \<open>The dataplane as a server\<close>

text \<open>Its state is the handler, which owns the engine, and the host it runs on.\<close>

type_synonym 'w dataplane = "'w handler \<times> 'w"

definition serveDataplane ::
  "(request_error \<Rightarrow> string) \<Rightarrow> http_request \<Rightarrow> 'w dataplane \<Rightarrow> http_response option \<times> 'w dataplane" where
  "serveDataplane txt r s = serveHTTP txt r (fst s) (snd s)"

definition dpStore :: "'w dataplane \<Rightarrow> service_ref \<rightharpoonup> p_service" where
  "dpStore s = Store_Get (eng_store (h_engine (fst s)))"

definition dpServices :: "'w dataplane \<Rightarrow> p_service list" where
  "dpServices s = Store_List (eng_store (h_engine (fst s)))"

text \<open>The invariant of the dataplane: a well-formed engine, and every stored address attached.\<close>

definition dpOk ::
  "'w external_ip_manager \<Rightarrow> ('w \<Rightarrow> addr set) \<Rightarrow> 'w config_applier_ops \<Rightarrow> ('w \<Rightarrow> bool) \<Rightarrow> 'w dataplane \<Rightarrow> bool" where
  "dpOk m view app ok s \<longleftrightarrow> wired m app (h_engine (fst s)) \<and> ok (snd s) \<and> engine_ok (h_engine (fst s)) \<and>
     wantedIPs (dpServices s) \<subseteq> view (snd s)"

text \<open>
  The data path agrees with the store: the active configuration is the rendered store and
  the attached addresses are exactly the addresses of the stored Services.
\<close>

definition synced :: "('w \<Rightarrow> addr set) \<Rightarrow> ('w \<Rightarrow> string option) \<Rightarrow> 'w dataplane \<Rightarrow> bool" where
  "synced view active s \<longleftrightarrow> view (snd s) = wantedIPs (dpServices s) \<and>
     (\<exists>cfg. Render (dpServices s) = Inr cfg \<and> active (snd s) = Some cfg)"

text \<open>The request the provider sends and the request of the engine that arrives.\<close>

definition received :: "p_service \<Rightarrow> p_service" where
  "received v = (readService v)\<lparr>svc_Namespace := svc_Namespace v, svc_Name := svc_Name v\<rparr>"

definition apiCanon :: "p_service \<Rightarrow> p_service" where
  "apiCanon v = normalizeService (received v)"

fun reqRef :: "request \<Rightarrow> service_ref" where
  "reqRef (EnsureReq v) = Ref v"
| "reqRef (DeleteReq ref) = ref"

fun receivedReq :: "request \<Rightarrow> request" where
  "receivedReq (EnsureReq v) = EnsureReq (received v)"
| "receivedReq (DeleteReq ref) = DeleteReq ref"

fun wireRequest :: "api_provider \<Rightarrow> request \<Rightarrow> http_request" where
  "wireRequest p (EnsureReq v) = requestFor ''PUT'' (serviceURL p (Ref v)) (encode (servicePayloadFromService v))"
| "wireRequest p (DeleteReq ref) = requestFor ''DELETE'' (serviceURL p ref) []"

fun apiCall :: "'w http_client \<Rightarrow> api_provider \<Rightarrow> request \<Rightarrow> 'w \<Rightarrow> (dataplane_error, bool) result \<times> 'w" where
  "apiCall send p (EnsureReq v) w = Api_Ensure send p v w"
| "apiCall send p (DeleteReq ref) w = Api_Delete send p ref w"

lemma Ref_received [simp]: "Ref (received v) = Ref v"
  by (simp add: Ref_def received_def)

lemma statusCodes [simp]:
  "StatusCode (writeJSONError txt c e) = c" "StatusCode (writeJSON c j) = c"
  by (simp_all add: writeJSONError_def writeJSON_def)

lemma serve_services:
  assumes "legalRef ref" "rootPath p"
  shows "serveDataplane txt (requestFor meth (serviceURL p ref) body) s =
    (case (if meth = ''PUT'' then handleEnsureService txt (requestFor meth (serviceURL p ref) body) ref (fst s) (snd s)
        else if meth = ''DELETE'' then handleDeleteService txt ref (fst s) (snd s)
        else (writeMethodNotAllowed txt [''PUT'', ''DELETE''], fst s, snd s)) of (resp, h, w) \<Rightarrow> (Some resp, h, w))"
  using routed [OF serviceURL_path [OF assms(2,1)] assms(1), of meth body] serviceURL_path [OF assms(2,1)]
    serviceRefFromPath_servicePath [OF assms(1)]
  by (simp add: serveDataplane_def serveHTTP_def handleServices_def requestFor_def split: prod.splits)

text \<open>
  What the dataplane does with a request: it refuses it without touching anything, or the
  engine handles it and the status tells whether that succeeded.
\<close>

lemma put_handled:
  assumes l: "legalRef (Ref v)" "rootPath p"
    and sv: "serveDataplane txt (wireRequest p (EnsureReq v)) (h, w) = (a, s')"
  shows "\<exists>resp. a = Some resp \<and> (s' = (h, w) \<and> StatusCode resp = 400 \<or>
    (\<exists>x e w'. handle (EnsureReq (received v)) (h_engine h) w = (x, e, w') \<and> s' = (h\<lparr>h_engine := e\<rparr>, w') \<and>
      StatusCode resp = (if isl x then 500 else 200)))"
proof -
  let ?req = "wireRequest p (EnsureReq v)"
  obtain resp h' w' where h: "handleEnsureService txt ?req (Ref v) h w = (resp, h', w')" "a = Some resp" "s' = (h', w')"
    using sv serve_services [OF l, of "txt" "''PUT''" "encode (servicePayloadFromService v)" "(h, w)"]
    by (cases "handleEnsureService txt ?req (Ref v) h w") auto
  have b: "req_Body ?req = encode (servicePayloadFromService v)" by (simp add: requestFor_def)
  show ?thesis
  proof (cases "decodeServiceRequest (maxRequestBodyBytes h) (encode (servicePayloadFromService v))")
    case (Inl er)
    then show ?thesis using h b by (auto simp: handleEnsureService_def)
  next
    case (Inr x)
    then have "x = readService v" by (simp add: decode_request_iff)
    then have "x\<lparr>svc_Namespace := Namespace (Ref v), svc_Name := Name (Ref v)\<rparr> = received v"
      by (simp add: received_def Ref_def)
    then show ?thesis
      using h b Inr
      by (auto simp: handleEnsureService_def Let_def split: if_splits option.splits prod.splits sum.splits)
  qed
qed

lemma delete_handled:
  assumes l: "legalRef ref" "rootPath p"
    and sv: "serveDataplane txt (wireRequest p (DeleteReq ref)) (h, w) = (a, s')"
  shows "\<exists>resp x e w'. a = Some resp \<and> handle (DeleteReq ref) (h_engine h) w = (x, e, w') \<and>
    s' = (h\<lparr>h_engine := e\<rparr>, w') \<and> StatusCode resp = (if isl x then 500 else 200)"
proof -
  obtain x e w' where d: "Engine_Delete ref (h_engine h) w = (x, e, w')" by (metis surj_pair)
  then have "\<exists>resp. handleDeleteService txt ref h w = (resp, h\<lparr>h_engine := e\<rparr>, w') \<and>
      StatusCode resp = (if isl x then 500 else 200)"
    by (cases x) (simp_all add: handleDeleteService_def)
  then show ?thesis using sv serve_services [OF l, of "txt" "''DELETE''" "[]" "(h, w)"] d by auto
qed

lemma request_handled:
  assumes "legalRef (reqRef q)" "rootPath p" "serveDataplane txt (wireRequest p q) (h, w) = (a, s')"
  shows "\<exists>resp. a = Some resp \<and> (s' = (h, w) \<and> StatusCode resp = 400 \<or>
    (\<exists>x e w'. handle (receivedReq q) (h_engine h) w = (x, e, w') \<and> s' = (h\<lparr>h_engine := e\<rparr>, w') \<and>
      StatusCode resp = (if isl x then 500 else 200)))"
proof (cases q)
  case (EnsureReq v)
  then show ?thesis using put_handled [of v p "txt" h w a s'] assms by (simp del: wireRequest.simps handle.simps)
next
  case (DeleteReq ref)
  then show ?thesis using delete_handled [of ref p "txt" h w a s'] assms by (fastforce simp del: wireRequest.simps handle.simps)
qed

text \<open>The effect of a request on the dataplane.\<close>

definition reqEffect :: "request \<Rightarrow> (service_ref \<rightharpoonup> p_service) \<Rightarrow> (service_ref \<rightharpoonup> p_service)" where
  "reqEffect q = desiredAfter (receivedReq q)"

lemma reqEffect_simps:
  "reqEffect (EnsureReq v) d = d(Ref v \<mapsto> apiCanon v)" "reqEffect (DeleteReq ref) d = d(ref := None)"
  by (simp_all add: reqEffect_def apiCanon_def)

lemma reqEffect_idem: "reqEffect q (reqEffect q d) = reqEffect q d"
  by (cases q) (simp_all add: reqEffect_simps)

lemma handle_dataplane:
  assumes env: "engine_attach m view app active ok" and k: "dpOk m view app ok (h, w)"
    and e: "handle q (h_engine h) w = (x, e, w')"
  defines "t \<equiv> (h\<lparr>h_engine := e\<rparr>, w')"
  shows "dpOk m view app ok t" "dpStore t = (if committed x then desiredAfter q (dpStore (h, w)) else dpStore (h, w))"
    "x = Inr c \<Longrightarrow> q = EnsureReq v \<Longrightarrow> synced view active t"
proof -
  have k': "wired m app (h_engine h)" "ok w" "engine_ok (h_engine h)"
    "wantedIPs (Store_List (eng_store (h_engine h))) \<subseteq> view w"
    using k by (simp_all add: dpOk_def dpServices_def)
  note ax = engine_attach.axioms(1) [OF env]
  note K = engine_env.handle_keeps [OF ax k'(1-3) e] and A = engine_attach.handle_attached [OF env k'(1,2) e k'(4)]
  show "dpOk m view app ok t" using K A by (simp add: dpOk_def dpServices_def t_def)
  show "dpStore t = (if committed x then desiredAfter q (dpStore (h, w)) else dpStore (h, w))"
    using K by (simp add: dpStore_def t_def del: Store_Get_map_of)
  assume x: "x = Inr c" "q = EnsureReq v"
  have n: "nextStore q (h_engine h) \<noteq> None"
    using e by (cases rule: handle_cases) (use x in auto)
  show "synced view active t"
    using engine_env.handle_config [OF ax k'(1,2) e _ n] engine_attach.handle_view [OF env k'(1,2) _ n] e x
    by (simp add: synced_def dpServices_def t_def)
qed

lemma serve_effect:
  assumes env: "engine_attach m view app active ok" and l: "legalRef (reqRef q)" "rootPath p"
    and k: "dpOk m view app ok s" and sv: "serveDataplane txt (wireRequest p q) s = (a, t)"
  shows "dpOk m view app ok t \<and> (dpStore t = dpStore s \<or> dpStore t = reqEffect q (dpStore s)) \<and>
    (\<forall>resp. a = Some resp \<longrightarrow> success resp \<longrightarrow> dpStore t = reqEffect q (dpStore s) \<and>
      ((\<exists>v. q = EnsureReq v) \<longrightarrow> synced view active t))"
proof -
  obtain h w where s: "s = (h, w)" by force
  obtain resp where a: "a = Some resp" and c: "t = s \<and> StatusCode resp = 400 \<or>
    (\<exists>x e w'. handle (receivedReq q) (h_engine h) w = (x, e, w') \<and> t = (h\<lparr>h_engine := e\<rparr>, w') \<and>
      StatusCode resp = (if isl x then 500 else 200))"
    using request_handled [OF l, of "txt" h w a t] sv s by auto
  from c show ?thesis
  proof
    assume "t = s \<and> StatusCode resp = 400"
    then show ?thesis using k a by (auto simp: success_def)
  next
    assume "\<exists>x e w'. handle (receivedReq q) (h_engine h) w = (x, e, w') \<and> t = (h\<lparr>h_engine := e\<rparr>, w') \<and>
      StatusCode resp = (if isl x then 500 else 200)"
    then obtain x e w' where e: "handle (receivedReq q) (h_engine h) w = (x, e, w')" "t = (h\<lparr>h_engine := e\<rparr>, w')"
      "StatusCode resp = (if isl x then 500 else 200)" by blast
    note H = handle_dataplane [OF env k [unfolded s] e(1), folded e(2) s]
    have "\<exists>v. receivedReq q = EnsureReq v" if "\<exists>v. q = EnsureReq v" using that by auto
    moreover have "success resp \<longleftrightarrow> (\<exists>c. x = Inr c)" using e(3) by (cases x) (auto simp: success_def)
    ultimately show ?thesis using H a by (auto simp: reqEffect_def)
  qed
qed

text \<open>
  The provider over a link to the dataplane meets the contract of the controller, whatever
  the network loses and whatever calls of the dataplane's host fail.
\<close>

lemma api_call_effect:
  assumes link: "http_link send (serveDataplane txt) srv" and env: "engine_attach m view app active ok"
    and l: "legalRef (reqRef q)" "rootPath p" and k: "dpOk m view app ok (srv w)" and c: "apiCall send p q w = (r, w')"
  shows "dpOk m view app ok (srv w')"
    "dpStore (srv w') = dpStore (srv w) \<or> dpStore (srv w') = reqEffect q (dpStore (srv w))"
    "r = Inr ch \<Longrightarrow> dpStore (srv w') = reqEffect q (dpStore (srv w)) \<and>
      ((\<exists>v. q = EnsureReq v) \<longrightarrow> synced view active (srv w'))"
proof -
  obtain meth body ct where d: "doRequest send p meth (reqRef q) body ct w = (r, w')"
    "wireRequest p q = requestFor meth (serviceURL p (reqRef q)) body"
    using c that by (cases q) (auto simp: Api_Ensure_def Api_Delete_def)
  note R = http_link.request_effect [OF link d(1) l, where I = "dpOk m view app ok" and st = dpStore and f = "reqEffect q"
      and Q = "\<lambda>t. (\<exists>v. q = EnsureReq v) \<longrightarrow> synced view active t",
      OF k serve_effect [OF env l, of _ "txt", unfolded d(2)] reqEffect_idem]
  show "dpOk m view app ok (srv w')"
    "dpStore (srv w') = dpStore (srv w) \<or> dpStore (srv w') = reqEffect q (dpStore (srv w))"
    "r = Inr ch \<Longrightarrow> dpStore (srv w') = reqEffect q (dpStore (srv w)) \<and>
      ((\<exists>v. q = EnsureReq v) \<longrightarrow> synced view active (srv w'))"
    using R by blast+
qed

lemma api_meets_contract:
  assumes "http_link send (serveDataplane txt) srv" "engine_attach m view app active ok" "rootPath p"
  shows "provider_effects (apiOps send p) (\<lambda>w. dpStore (srv w)) apiCanon (\<lambda>w. dpOk m view app ok (srv w)) legalRef"
proof -
  note E = api_call_effect [OF assms(1,2) _ assms(3), of "EnsureReq v" for v,
      unfolded reqEffect_simps apiCall.simps reqRef.simps]
  note D = api_call_effect [OF assms(1,2) _ assms(3), of "DeleteReq ref" for ref,
      unfolded reqEffect_simps apiCall.simps reqRef.simps]
  show ?thesis
  proof (unfold_locales, unfold apiOps_def provider_ops.simps, goal_cases)
    case (1 w v r w') then show ?case using E(1) by blast
  next
    case (2 w v r w') then show ?case using E(2) by blast
  next
    case (3 w v c w') then show ?case using E(3) by blast
  next
    case (4 w ref r w') then show ?case using D(1) by blast
  next
    case (5 w ref r w') then show ?case using D(2) by blast
  next
    case (6 w ref c w') then show ?case using D(3) by blast
  qed
qed

section \<open>A link with given faults\<close>

text \<open>
  What happens to a request: lost, delivered with the answer lost, or delivered and
  answered; \<open>n\<close> counts repeated deliveries.  Requests without a given fate are delivered once
  and answered.
\<close>

datatype fate = Lost | AnswerLost nat | Delivered nat

fun serveTimes ::
  "(http_request \<Rightarrow> 's \<Rightarrow> http_response option \<times> 's) \<Rightarrow> nat \<Rightarrow> http_request \<Rightarrow> 's \<Rightarrow> http_response option \<times> 's" where
  "serveTimes serve 0 r s = serve r s"
| "serveTimes serve (Suc n) r s = serveTimes serve n r (snd (serve r s))"

definition answer :: "http_response option \<Rightarrow> exchange" where
  "answer a = (case a of None \<Rightarrow> Answered 404 ''404 Not Found'' ''404 page not found''
     | Some resp \<Rightarrow> Answered (StatusCode resp) (FormatInt (StatusCode resp)) (resp_Body resp))"

definition faultyLink ::
  "(http_request \<Rightarrow> 's \<Rightarrow> http_response option \<times> 's) \<Rightarrow> (fate list \<times> 's) http_client" where
  "faultyLink serve m u b ct w =
     (case w of
        ([], s) \<Rightarrow> (case serve (requestFor m u b) s of (a, s) \<Rightarrow> (answer a, [], s))
      | (Lost # fs, s) \<Rightarrow> (NotAnswered ''connection refused'', fs, s)
      | (AnswerLost n # fs, s) \<Rightarrow>
          (case serveTimes serve n (requestFor m u b) s of (a, s) \<Rightarrow> (NotAnswered ''timeout'', fs, s))
      | (Delivered n # fs, s) \<Rightarrow> (case serveTimes serve n (requestFor m u b) s of (a, s) \<Rightarrow> (answer a, fs, s)))"

lemma serveTimes_from:
  "deliveries serve r s x t \<Longrightarrow> serveTimes serve n r t = (a, u) \<Longrightarrow> deliveries serve r s a u"
proof (induction n arbitrary: x t)
  case 0
  then show ?case using deliveries.again by fastforce
next
  case (Suc n)
  have "deliveries serve r s (fst (serve r t)) (snd (serve r t))"
    using deliveries.again [OF Suc.prems(1)] by simp
  then show ?case using Suc.IH Suc.prems(2) by simp
qed

lemma serveTimes_last: "serveTimes serve n r s = (a, t) \<Longrightarrow> \<exists>u. serve r u = (a, t)"
  by (induction n arbitrary: s) auto

lemma routed_answers: "routeOf r \<noteq> None \<Longrightarrow> serveDataplane txt r s = (a, t) \<Longrightarrow> a \<noteq> None"
  by (auto simp: serveDataplane_def serveHTTP_def split: option.splits route.splits prod.splits)

interpretation faulty: http_link "faultyLink (serveDataplane txt)" "serveDataplane txt" snd for "txt"
proof
  fix m u b ct and w :: "fate list \<times> 'a dataplane" and x w'
  let ?serve = "serveDataplane txt" and ?r = "requestFor m u b"
  assume r: "routeOf ?r \<noteq> None" and s: "faultyLink ?serve m u b ct w = (x, w')"
  obtain fs d where w: "w = (fs, d)" by (rule prod.exhaust)
  have D: "deliveries ?serve ?r d a t" if "serveTimes ?serve n ?r d = (a, t)" for n a t
    using serveTimes_from [OF deliveries.none that] .
  have A: "\<exists>resp. a = Some resp \<and> StatusCode resp = code \<and> resp_Body resp = body"
    if h: "serveTimes ?serve n ?r d = (a, t)" "answer a = Answered code st body" for n a t code st body
  proof -
    obtain v where "?serve ?r v = (a, t)" using serveTimes_last [OF h(1)] by blast
    from routed_answers [OF r this] h(2) show ?thesis by (auto simp: answer_def)
  qed
  consider (once) "fs = []" | (lost) f where "fs = Lost # f" | (half) n f where "fs = AnswerLost n # f"
    | (full) n f where "fs = Delivered n # f" by (metis fate.exhaust list.exhaust)
  then show "\<exists>a. deliveries ?serve ?r (snd w) a (snd w') \<and> (\<forall>code st body. x = Answered code st body \<longrightarrow>
      (\<exists>resp. a = Some resp \<and> StatusCode resp = code \<and> resp_Body resp = body))"
  proof cases
    case once
    then show ?thesis using s w D [of 0] A [of 0] by (auto simp: faultyLink_def split: prod.splits)
  next
    case lost
    then show ?thesis using s w deliveries.none by (fastforce simp: faultyLink_def)
  next
    case (half n)
    then show ?thesis using s w D [of n] by (fastforce simp: faultyLink_def split: prod.splits)
  next
    case (full n)
    then show ?thesis using s w D [of n] A [of n] by (auto simp: faultyLink_def split: prod.splits)
  qed
qed

section \<open>The remote engine is the engine\<close>

lemma unmarshal_changed: "unmarshalChanged (encode (changedResponse c) @ [CHR 0x0A]) = Some (Some c)"
proof -
  have "parseJson (encode (changedResponse c) @ [CHR 0x0A]) = Value (readBack (changedResponse c)) [CHR 0x0A]"
    by (rule parseJson_encode) (simp_all add: changedResponse_def maxNestingDepth_def stops_def isDigit_def)
  then show ?thesis
    by (simp add: unmarshalChanged_def skipSpace_def isSpace_def changedResponse_def decodeStruct_def
        decodeChangedField_def decodeBoolPtr_def)
qed

text \<open>Requests the handler accepts as they are: within the limit, in UTF-8, ports in 32 bits.\<close>

fun sendable :: "int \<Rightarrow> request \<Rightarrow> bool" where
  "sendable limit (EnsureReq v) = (legalRef (Ref v) \<and> int32Ports v \<and> readService v = v \<and>
     int (length (encode (servicePayloadFromService v))) \<le> limit)"
| "sendable limit (DeleteReq ref) = legalRef ref"

lemma doRequest_answered:
  assumes "send meth (serviceURL p ref) body ct w = (answer (Some resp), w')"
  shows "doRequest send p meth ref body ct w = (r, w'') \<Longrightarrow> w'' = w'"
    "\<not> success resp \<Longrightarrow> doRequest send p meth ref body ct w = (r, w'') \<Longrightarrow> succeeded r = None"
    "resp = writeJSON 200 (changedResponse c) \<Longrightarrow> doRequest send p meth ref body ct w = (Inr c, w')"
  using assms unmarshal_changed
  by (auto simp: doRequest_def answer_def success_def writeJSON_def split: option.splits if_splits)

lemma engine_state [simp]: "h\<lparr>h_engine := e\<rparr>\<lparr>h_engine := e'\<rparr> = h\<lparr>h_engine := e'\<rparr>" "h\<lparr>h_engine := h_engine h\<rparr> = h"
  by simp_all

lemma handleEnsure_sendable:
  assumes "sendable (maxRequestBodyBytes h) (EnsureReq v)" "Engine_Ensure v (h_engine h) w = (x, e, w')"
    and "req_Body r = encode (servicePayloadFromService v)"
  shows "\<exists>resp. handleEnsureService txt r (Ref v) h w = (resp, h\<lparr>h_engine := e\<rparr>, w') \<and>
    (case x of Inl _ \<Rightarrow> \<not> success resp | Inr c \<Rightarrow> resp = writeJSON 200 (changedResponse c))"
proof -
  have d: "decodeServiceRequest (maxRequestBodyBytes h) (req_Body r) = Inr v"
    using assms(1,3) by (simp add: decode_request_iff)
  have u: "v\<lparr>svc_Namespace := Namespace (Ref v), svc_Name := Name (Ref v)\<rparr> = v" "Namespace (Ref v) = svc_Namespace v"
    "Name (Ref v) = svc_Name v" by (simp_all add: Ref_def)
  show ?thesis
  proof (cases "ValidateService (normalizeService v)")
    case (Some err)
    then have "x = Inl (InvalidService err)" "e = h_engine h" "w' = w"
      using assms(2) by (simp_all add: Engine_Ensure_def Let_def)
    then show ?thesis using d u Some by (simp add: handleEnsureService_def Let_def success_def)
  next
    case None
    then show ?thesis using d u assms(2) by (cases x) (simp_all add: handleEnsureService_def Let_def success_def)
  qed
qed

lemma handleDelete_result:
  assumes "Engine_Delete ref (h_engine h) w = (x, e, w')"
  shows "\<exists>resp. handleDeleteService txt ref h w = (resp, h\<lparr>h_engine := e\<rparr>, w') \<and>
    (case x of Inl _ \<Rightarrow> \<not> success resp | Inr c \<Rightarrow> resp = writeJSON 200 (changedResponse c))"
  using assms by (cases x) (simp_all add: handleDeleteService_def success_def)

lemma serve_sendable:
  assumes "rootPath p" "sendable (maxRequestBodyBytes h) q" "handle q (h_engine h) w = (x, e, w')"
  shows "\<exists>resp. serveDataplane txt (wireRequest p q) (h, w) = (Some resp, h\<lparr>h_engine := e\<rparr>, w') \<and>
    (case x of Inl _ \<Rightarrow> \<not> success resp | Inr c \<Rightarrow> resp = writeJSON 200 (changedResponse c))"
proof (cases q)
  case (EnsureReq v)
  then have l: "legalRef (Ref v)" using assms(2) by simp
  have b: "req_Body (wireRequest p q) = encode (servicePayloadFromService v)" by (simp add: EnsureReq requestFor_def)
  have e: "Engine_Ensure v (h_engine h) w = (x, e, w')" using assms(3) EnsureReq by simp
  obtain resp where "handleEnsureService txt (wireRequest p q) (Ref v) h w = (resp, h\<lparr>h_engine := e\<rparr>, w')"
    "case x of Inl _ \<Rightarrow> \<not> success resp | Inr c \<Rightarrow> resp = writeJSON 200 (changedResponse c)"
    using handleEnsure_sendable [OF assms(2) [unfolded EnsureReq] e b] by blast
  then show ?thesis
    using serve_services [OF l assms(1), of "txt" "''PUT''" "encode (servicePayloadFromService v)" "(h, w)"] EnsureReq
    by simp
next
  case (DeleteReq ref)
  then have l: "legalRef ref" using assms(2) by simp
  have e: "Engine_Delete ref (h_engine h) w = (x, e, w')" using assms(3) DeleteReq by simp
  obtain resp where "handleDeleteService txt ref h w = (resp, h\<lparr>h_engine := e\<rparr>, w')"
    "case x of Inl _ \<Rightarrow> \<not> success resp | Inr c \<Rightarrow> resp = writeJSON 200 (changedResponse c)"
    using handleDelete_result [OF e] by blast
  then show ?thesis
    using serve_services [OF l assms(1), of "txt" "''DELETE''" "[]" "(h, w)"] DeleteReq by simp
qed

lemma call_sendable:
  assumes "rootPath p" "sendable (maxRequestBodyBytes h) q" "handle q (h_engine h) w = (x, e, w')"
  shows "\<exists>r. apiCall (faultyLink (serveDataplane txt)) p q ([], h, w) = (r, [], h\<lparr>h_engine := e\<rparr>, w') \<and>
    succeeded r = succeeded x"
proof -
  let ?send = "faultyLink (serveDataplane txt)"
  obtain meth body ct where d: "apiCall ?send p q ([], h, w) = doRequest ?send p meth (reqRef q) body ct ([], h, w)"
    "wireRequest p q = requestFor meth (serviceURL p (reqRef q)) body"
    by (cases q) (auto simp: Api_Ensure_def Api_Delete_def)
  obtain resp where s: "serveDataplane txt (wireRequest p q) (h, w) = (Some resp, h\<lparr>h_engine := e\<rparr>, w')"
    "case x of Inl _ \<Rightarrow> \<not> success resp | Inr c \<Rightarrow> resp = writeJSON 200 (changedResponse c)"
    using serve_sendable [OF assms] by blast
  have a: "?send meth (serviceURL p (reqRef q)) body ct ([], h, w) = (answer (Some resp), [], h\<lparr>h_engine := e\<rparr>, w')"
    using s(1) d(2) by (simp add: faultyLink_def)
  obtain r w2 where r: "doRequest ?send p meth (reqRef q) body ct ([], h, w) = (r, w2)" by (rule prod.exhaust)
  show ?thesis
    using doRequest_answered [where send = ?send, OF a] r d(1) s(2) by (cases x) auto
qed

fun apiCalls ::
  "'w http_client \<Rightarrow> api_provider \<Rightarrow> request list \<Rightarrow> 'w \<Rightarrow> (dataplane_error, bool) result list \<times> 'w" where
  "apiCalls send p [] w = ([], w)"
| "apiCalls send p (q # qs) w =
     (case apiCall send p q w of (r, w) \<Rightarrow> (case apiCalls send p qs w of (rs, w) \<Rightarrow> (r # rs, w)))"

lemma calls_sendable:
  "list_all (sendable (maxRequestBodyBytes h)) qs \<Longrightarrow> rootPath p \<Longrightarrow> runRequests qs (h_engine h) w = (xs, e, w') \<Longrightarrow>
   \<exists>rs. apiCalls (faultyLink (serveDataplane txt)) p qs ([], h, w) = (rs, [], h\<lparr>h_engine := e\<rparr>, w') \<and>
     map succeeded rs = map succeeded xs"
proof (induction qs arbitrary: h w xs)
  case (Cons q qs)
  obtain x e1 w1 where h: "handle q (h_engine h) w = (x, e1, w1)" by (metis surj_pair)
  obtain xs1 where xs: "runRequests qs e1 w1 = (xs1, e, w')" "xs = x # xs1"
    using Cons.prems(3) h by (auto split: prod.splits)
  obtain r where r: "apiCall (faultyLink (serveDataplane txt)) p q ([], h, w) = (r, [], h\<lparr>h_engine := e1\<rparr>, w1)"
    "succeeded r = succeeded x" using call_sendable [OF Cons.prems(2) _ h] Cons.prems(1) by auto
  from Cons.IH [of "h\<lparr>h_engine := e1\<rparr>" w1 xs1] Cons.prems(1,2) xs(1) obtain rs where
    "apiCalls (faultyLink (serveDataplane txt)) p qs ([], h\<lparr>h_engine := e1\<rparr>, w1) = (rs, [], h\<lparr>h_engine := e\<rparr>, w')"
    "map succeeded rs = map succeeded xs1" by auto
  then show ?case using r xs(2) by simp
qed simp

section \<open>Properties\<close>

definition hostDataplane :: "(kernel \<times> os) dataplane" where
  "hostDataplane = (NewHandler hostEngine 0, hostWorld)"

lemma hostDataplane_ok: "dpOk hostManager hostView hostApplier (\<lambda>w. os_ok (snd w)) hostDataplane"
  using hostEngine_ok by (simp add: dpOk_def hostDataplane_def NewHandler_def dpServices_def)

lemma sample_legal: "rootPath sampleProvider" "legalRef (Ref plainService)"
  by (simp_all add: rootPath_def sampleProvider_def legalRef_def legalName_def plainService_def Ref_def)

lemma sample_sendable: "sendable DefaultMaxRequestBodyBytes (EnsureReq plainService)"
proof -
  have "int (length (encode (servicePayloadFromService plainService))) \<le> DefaultMaxRequestBodyBytes" by code_simp
  moreover have "readService plainService = plainService" "int32Ports plainService" by code_simp+
  ultimately show ?thesis using sample_legal(2) by simp
qed

text \<open>
  C9: Whatever the network does to a call of the remote provider, lose the request, lose the
  answer or deliver the request again and again, and whatever fails on the dataplane's host,
  the dataplane keeps its invariant and its store has either not changed or changed as the
  call asks; when the call reports success it has, and after an \<open>Ensure\<close> the active
  configuration and the attached addresses are those of the store.
\<close>

theorem remote_call_effect:
  assumes "http_link send (serveDataplane txt) srv" "engine_attach m view app active ok"
    and "legalRef (reqRef q)" "rootPath p" "dpOk m view app ok (srv w)" "apiCall send p q w = (r, w')"
  shows "dpOk m view app ok (srv w') \<and>
    (dpStore (srv w') = dpStore (srv w) \<or> dpStore (srv w') = reqEffect q (dpStore (srv w))) \<and>
    (r = Inr c \<longrightarrow> dpStore (srv w') = reqEffect q (dpStore (srv w)) \<and>
      (q = EnsureReq v \<longrightarrow> synced view active (srv w')))"
  using api_call_effect [OF assms] by blast

theorem remote_call_effect_witness:
  "\<exists>r s. apiCall (faultyLink (serveDataplane (\<lambda>_. []))) sampleProvider (EnsureReq plainService)
      ([AnswerLost 1], hostDataplane) = (r, [], s) \<and>
    (dpStore s = dpStore hostDataplane \<or> dpStore s = reqEffect (EnsureReq plainService) (dpStore hostDataplane))"
proof -
  let ?send = "faultyLink (serveDataplane (\<lambda>_. []))" and ?q = "EnsureReq plainService"
  obtain r w where c: "apiCall ?send sampleProvider ?q ([AnswerLost 1], hostDataplane) = (r, w)" by (rule prod.exhaust)
  have "fst w = []" using c by (auto simp: Api_Ensure_def doRequest_def faultyLink_def split: prod.splits)
  then obtain s where "w = ([], s)" by (cases w) simp
  with remote_call_effect [OF faulty.http_link_axioms host.engine_attach_axioms _ sample_legal(1) _ c] c
    hostDataplane_ok sample_legal(2) show ?thesis by auto
qed



end
