(* ===== verification/Deployment.thy ===== *)
theory Deployment
  imports Dataplane_Link
begin

text \<open>
  The whole system as \<open>cmd/main.go\<close> wires it in the \<open>dataplane-api\<close> mode: the controller with
  the instrumented remote provider, the network, and the dataplane with its engine, kernel
  and files.  Whatever contracts the parts were proved against are discharged by the parts
  next to them; what remains are the laws of the API server, of the network, of the kernel
  and of the file system.
\<close>

definition stackReconciler ::
  "'k kube_client \<Rightarrow> finalizer_util \<Rightarrow> 'w http_client \<Rightarrow> api_provider \<Rightarrow> controller_config \<Rightarrow>
   ('k, 'w \<times> service_ref list, dataplane_error) reconciler" where
  "stackReconciler C U send p cfg =
     \<lparr>Client = C, rec_Config = cfg, Provider = WrapProvider (apiOps send p), Util = U\<rparr>"

lemma stackReconciler_sel [simp]:
  "Client (stackReconciler C U send p cfg) = C" "rec_Config (stackReconciler C U send p cfg) = cfg"
  "Provider (stackReconciler C U send p cfg) = WrapProvider (apiOps send p)" "Util (stackReconciler C U send p cfg) = U"
  by (simp_all add: stackReconciler_def)

text \<open>The dataplane in a world of the controller.\<close>

definition dpOf :: "('w \<Rightarrow> 's dataplane) \<Rightarrow> ('w \<times> service_ref list) \<times> metrics \<Rightarrow> 's dataplane" where
  "dpOf srv q = srv (fst (fst q))"

text \<open>
  The Service publishes exactly one address of the pool, the dataplane stores it with that
  address, and the address is attached on the dataplane's host.
\<close>

definition onHost ::
  "('k \<Rightarrow> namespaced_name \<rightharpoonup> kube_service) \<Rightarrow> ('w \<Rightarrow> 's dataplane) \<Rightarrow> ('s \<Rightarrow> addr set) \<Rightarrow> controller_config \<Rightarrow>
   namespaced_name \<Rightarrow> ('k, 'w \<times> service_ref list) cworld \<Rightarrow> bool" where
  "onHost objs srv view cfg key w \<longleftrightarrow>
     (\<exists>t v a i. objs (kube w) key = Some t \<and> status_Ingress t = [i] \<and> TrimSpace (IP i) = AddrString a \<and>
       a \<in> set (IPPool cfg) \<and> dpStore (srv (fst (prov w))) (refOf key) = Some v \<and> ExternalIP v = AddrString a \<and>
       a \<in> view (snd (srv (fst (prov w)))))"

locale deployment =
  kube_api C objs + finalizer_laws U + link: http_link send "serveDataplane txt" srv +
  host: engine_attach m view app active ok
  for C :: "'k kube_client" and objs :: "'k \<Rightarrow> namespaced_name \<rightharpoonup> kube_service" and U :: finalizer_util
    and send :: "'w http_client" and "txt" :: "request_error \<Rightarrow> string" and srv :: "'w \<Rightarrow> 's dataplane"
    and m :: "'s external_ip_manager" and view :: "'s \<Rightarrow> addr set"
    and app :: "'s config_applier_ops" and active :: "'s \<Rightarrow> string option" and ok :: "'s \<Rightarrow> bool" +
  fixes p :: api_provider and cfg :: controller_config
  assumes root: "rootPath p" and pool: "a \<in> set (IPPool cfg) \<Longrightarrow> Is4 a"
    and names: "objs k key = Some s \<Longrightarrow> legalRef (refOf key)"

lemma apiCanon_address:
  assumes "Is4 a" "ExternalIP v = AddrString a"
  shows "ExternalIP (apiCanon v) = AddrString a"
proof -
  have "list_all (\<lambda>c. byte c < (0x80::nat)) (AddrString a)"
    using AddrString_plain [OF assms(1)] by (auto simp: list_all_iff plain_def)
  then show ?thesis using assms(2) toValidUTF8_ascii by (simp add: apiCanon_def received_def readService_def)
qed

sublocale deployment \<subseteq> controller: controller_env "stackReconciler C U send p cfg" objs
  "\<lambda>q. dpStore (dpOf srv q)" apiCanon "\<lambda>q. dpOk m view app ok (dpOf srv q)" legalRef
proof -
  note a = api_meets_contract [OF link.http_link_axioms host.engine_attach_axioms root]
  note w = wrapped_keeps_effects [OF a]
  show "controller_env (stackReconciler C U send p cfg) objs (\<lambda>q. dpStore (dpOf srv q)) apiCanon
      (\<lambda>q. dpOk m view app ok (dpOf srv q)) legalRef"
    unfolding controller_env_def stackReconciler_sel dpOf_def
    using kube_api_axioms finalizer_laws_axioms w
    by (auto simp: controller_env_axioms_def intro: pool names apiCanon_address)
qed

context deployment
begin

text \<open>After a successful \<open>Ensure\<close> through all the layers the data path agrees with the store.\<close>

lemma justEnsured_synced:
  assumes "justEnsured (WrapProvider (apiOps send p)) (\<lambda>q. dpOk m view app ok (dpOf srv q)) ref pr" "legalRef ref"
  shows "synced view active (srv (fst pr))"
proof -
  obtain v q b mm where e: "dpOk m view app ok (dpOf srv q)" "Ref v = ref"
    "prov_Ensure (WrapProvider (apiOps send p)) v q = (Inr b, pr, mm)"
    using assms(1) unfolding justEnsured_def by blast
  have "Instrumented_Ensure (apiOps send p) v q = (Inr b, pr, mm)" using e(3) by (simp add: WrapProvider_def)
  then have "prov_Ensure (apiOps send p) v (fst (fst q)) = (Inr b, fst pr)"
    using WrapProvider_cases(1) [of "apiOps send p" v "fst (fst q)"] by (metis prod.collapse)
  then have "apiCall send p (EnsureReq v) (fst (fst q)) = (Inr b, fst pr)" by (simp add: apiOps_def)
  from api_call_effect(3) [OF link.http_link_axioms host.engine_attach_axioms _ root _ this] e(1,2) assms(2)
  show ?thesis by (simp add: dpOf_def)
qed

lemma stored_attached:
  assumes "dpOk m view app ok d" "dpStore d ref = Some v" "Is4 a" "ExternalIP v = AddrString a"
  shows "a \<in> view (snd d)"
proof -
  have "v \<in> ran (Store_Get (eng_store (h_engine (fst d))))" using assms(2) by (auto simp: dpStore_def ran_def)
  then have "v \<in> set (dpServices d)"
    using ds.set_listing assms(1) by (simp add: dpOk_def engine_ok_def dpServices_def)
  then have "a \<in> wantedIPs (dpServices d)"
    using parse4_AddrString [OF assms(3)] assms(4) unfolding wantedIPs_def by force
  then show ?thesis using assms(1) by (auto simp: dpOk_def)
qed

text \<open>What it means for the host that the controller serves a Service.\<close>

lemma served_on_host:
  assumes ok: "dpOk m view app ok (srv (fst (prov w)))"
    and h: "objs (kube w) key = Some t" "a \<in> set (IPPool cfg)"
      "LoadBalancerIngressEqual (status_Ingress t) (DesiredLoadBalancerIngress (AddrString a))"
      "dpStore (srv (fst (prov w))) (refOf key) = Some v" "ExternalIP v = AddrString a"
    and j: "justEnsured (WrapProvider (apiOps send p)) (\<lambda>q. dpOk m view app ok (dpOf srv q)) (refOf key) (prov w)"
  shows "onHost objs srv view cfg key w \<and> synced view active (srv (fst (prov w)))"
proof -
  note a = pool [OF h(2)]
  obtain i where "status_Ingress t = [i]" "TrimSpace (IP i) = AddrString a" using h(3) Equal_desired_iff [OF a] by blast
  with h stored_attached [OF ok h(4) a h(5)] have "onHost objs srv view cfg key w" unfolding onHost_def by blast
  then show ?thesis using justEnsured_synced [OF j names [OF h(1)]] by blast
qed

text \<open>What a successful reconcile of a live managed Service has achieved, down to the host.\<close>

lemma reaches_host:
  assumes "dpOk m view app ok (srv (fst (prov w)))" "Reconcile (stackReconciler C U send p cfg) key w = (Inr 0, w')"
    and "RequeueAfter cfg \<noteq> 0" "objs (kube w) key = Some s" "liveManaged cfg s"
  shows "onHost objs srv view cfg key w' \<and> synced view active (srv (fst (prov w')))"
proof -
  have good: "dpOk m view app ok (dpOf srv (prov w, met w))" using assms(1) by (simp add: dpOf_def)
  note R = controller.Reconcile_steps [OF assms(2) good]
  from R(1) have ok: "dpOk m view app ok (srv (fst (prov w')))" by (simp add: dpOf_def)
  have "(\<exists>t v a. objs (kube w') key = Some t \<and> a \<in> set (IPPool cfg) \<and>
      LoadBalancerIngressEqual (status_Ingress t) (DesiredLoadBalancerIngress (AddrString a)) \<and>
      dpStore (srv (fst (prov w'))) (refOf key) = Some v \<and> ExternalIP v = AddrString a) \<and>
    justEnsured (WrapProvider (apiOps send p)) (\<lambda>q. dpOk m view app ok (dpOf srv q)) (refOf key) (prov w')"
    using R(2) [OF assms(4)] assms(3,5) by (auto simp: absState_def dpOf_def)
  then show ?thesis using served_on_host [OF ok] by blast
qed

text \<open>The invariants of the whole system.\<close>

lemma system_holds:
  assumes "system (stackReconciler C U send p cfg) objs (\<lambda>q. dpStore (dpOf srv q))
     (\<lambda>q. dpOk m view app ok (dpOf srv q)) Cs Os w"
  shows "clashes cfg (objs (kube w)) \<subseteq> Cs" "orphans (absState objs (\<lambda>q. dpStore (dpOf srv q)) w) \<subseteq> Os"
    "dpOk m view app ok (srv (fst (prov w)))"
  using system_keeps [OF controller.controller_env_axioms assms] by (simp_all add: dpOf_def)

end

section \<open>A deployment\<close>

text \<open>The in-memory API server, a network with faults, and a Linux host with netlink.\<close>

lemma dnsLabel_legal: "dnsLabel n \<Longrightarrow> legalName n"
  by (auto simp: dnsLabel_def legalName_def list_all_iff isDigit_def)

definition sampleSend :: "(fate list \<times> (kernel \<times> os) dataplane) http_client" where
  "sampleSend = faultyLink (serveDataplane (\<lambda>_. []))"

interpretation dep: deployment clusterClient clusterObjs listFinalizers sampleSend "\<lambda>_. []" snd
  hostManager hostView hostApplier "\<lambda>w. activeConfig sampleApply (snd w)" "\<lambda>w. os_ok (snd w)" sampleProvider sampleConfig
proof -
  have "deployment_axioms clusterObjs sampleProvider sampleConfig"
    using clusterObjs_dns dnsLabel_legal sample_legal(1)
    by (auto simp: deployment_axioms_def legalRef_def refOf_def sampleConfig_def)
  then show "deployment clusterClient clusterObjs listFinalizers sampleSend (\<lambda>_. []) snd
    hostManager hostView hostApplier (\<lambda>w. activeConfig sampleApply (snd w)) (\<lambda>w. os_ok (snd w)) sampleProvider sampleConfig"
    unfolding deployment_def sampleSend_def
    using apiserver.kube_api_axioms listfin.finalizer_laws_axioms faulty.http_link_axioms host.engine_attach_axioms
    by blast
qed

text \<open>A reconcile of the sample Service through every layer.\<close>

definition sampleCluster :: "kube_service list \<Rightarrow> cluster" where
  "sampleCluster ss = \<lparr>cl_services = ss, cl_slices = [], cl_answers = True\<rparr>"

definition stackWorld ::
  "kube_service list \<Rightarrow> fate list \<Rightarrow> (cluster, (fate list \<times> (kernel \<times> os) dataplane) \<times> service_ref list) cworld" where
  "stackWorld ss fs = \<lparr>kube = sampleCluster ss, prov = ((fs, hostDataplane), []), met = noMetrics\<rparr>"

abbreviation shop :: kube_service where
  "shop \<equiv> sampleKubeService ''shop''"

definition shopHeld :: kube_service where
  "shopHeld = shop\<lparr>Finalizers := [serviceFinalizer]\<rparr>"

definition sampleAlloc :: allocation where
  "sampleAlloc = \<lparr>alloc_IP = V4 203 0 113 10, Reused = False\<rparr>"

lemma sample_api:
  "client_Get clusterClient (''web'', ''shop'') (sampleCluster [shop]) = (sampleCluster [shop], Inr shop)"
  "client_Patch clusterClient shop shopHeld (sampleCluster [shop]) = (sampleCluster [shopHeld], Inr shopHeld)"
  "client_Get clusterClient (''web'', ''shop'') (sampleCluster [shopHeld]) = (sampleCluster [shopHeld], Inr shopHeld)"
  "client_ListServices clusterClient (sampleCluster [shopHeld]) = (sampleCluster [shopHeld], Inr [shopHeld])"
  "client_ListEndpointSlices clusterClient (ks_Namespace shopHeld) (ks_Name shopHeld) (sampleCluster [shopHeld]) =
     (sampleCluster [shopHeld], Inr [])"
  by code_simp+

lemma sample_decisions:
  "hasServiceFinalizer listFinalizers (Some shop) = False"
  "shop\<lparr>Finalizers := AddFinalizer listFinalizers (Finalizers shop) serviceFinalizer\<rparr> = shopHeld"
  "DeletionTimestamp shop = None" "isManagedLoadBalancerService (Some shop) (cc_LoadBalancerClass sampleConfig)"
  "Allocate (allocatorOf sampleConfig) (Some shopHeld) [shopHeld] = Inr sampleAlloc"
  "buildProviderService shopHeld (AddrString (alloc_IP sampleAlloc)) (Discover (Some shopHeld) []) = plainService"
  by code_simp+

lemma sample_status:
  "\<exists>k so. UpdateServiceLoadBalancerStatus clusterClient (Some shopHeld)
     (DesiredLoadBalancerIngress (AddrString (alloc_IP sampleAlloc))) (sampleCluster [shopHeld]) = (k, so, Inr True)"
proof -
  let ?u = "UpdateServiceLoadBalancerStatus clusterClient (Some shopHeld)
     (DesiredLoadBalancerIngress (AddrString (alloc_IP sampleAlloc))) (sampleCluster [shopHeld])"
  have "snd (snd ?u) = Inr True" by code_simp
  then show ?thesis by (metis prod.collapse)
qed

lemma sample_ensure:
  "\<exists>s. prov_Ensure (apiOps sampleSend sampleProvider) plainService ([], hostDataplane) = (Inr True, [], s)"
proof -
  have "sendable (maxRequestBodyBytes (NewHandler hostEngine 0)) (EnsureReq plainService)"
    using sample_sendable by (simp add: NewHandler_def)
  moreover obtain e w where "Engine_Ensure plainService hostEngine hostWorld = (Inr True, e, w)"
    using sample_run by blast
  then have "handle (EnsureReq plainService) (h_engine (NewHandler hostEngine 0)) hostWorld = (Inr True, e, w)"
    by (simp add: NewHandler_def)
  ultimately obtain r s where "apiCall sampleSend sampleProvider (EnsureReq plainService) ([], hostDataplane) = (r, [], s)"
    "succeeded r = Some True"
    using call_sendable [OF sample_legal(1), of "NewHandler hostEngine 0"] by (fastforce simp: hostDataplane_def sampleSend_def)
  then show ?thesis by (cases r) (auto simp: apiOps_def simp del: split_paired_Ex)
qed

abbreviation sampleStack ::
  "(cluster, (fate list \<times> (kernel \<times> os) dataplane) \<times> service_ref list, dataplane_error) reconciler" where
  "sampleStack \<equiv> stackReconciler clusterClient listFinalizers sampleSend sampleProvider sampleConfig"

lemma sample_stack_reconcile:
  "\<exists>w. Reconcile sampleStack (''web'', ''shop'') (stackWorld [shop] []) = (Inr 0, w)"
proof -
  obtain s where s: "prov_Ensure (apiOps sampleSend sampleProvider) plainService ([], hostDataplane) = (Inr True, [], s)"
    using sample_ensure by blast
  obtain k so where k: "UpdateServiceLoadBalancerStatus clusterClient (Some shopHeld)
     (DesiredLoadBalancerIngress (AddrString (alloc_IP sampleAlloc))) (sampleCluster [shopHeld]) = (k, so, Inr True)"
    using sample_status by blast
  let ?w = "\<lambda>m. \<lparr>kube = sampleCluster [shopHeld], prov = (([], hostDataplane), []), met = m\<rparr>"
  have p: "\<exists>w. publishService sampleStack (''web'', ''shop'') shopHeld sampleAlloc (?w m) = (Inr 0, w)"
    for m
    using s k
    by (simp add: publishService_def listEndpointSlicesForService_def onKube_def onProv_def sample_api sample_decisions(6)
        WrapProvider_def Instrumented_Ensure_def trackEnsure_def Let_def del: split_paired_Ex)
  have r: "\<exists>w. reconcileManaged sampleStack (''web'', ''shop'') shop \<lparr>kube = sampleCluster [shop],
      prov = (([], hostDataplane), []), met = m\<rparr> = (Inr 0, w)" for m
    using p
    by (simp add: reconcileManaged_def ensureServiceFinalizer_def onKube_def listServicesForAllocation_def
        recordAllocation_def sample_api sample_decisions Let_def)
  from r [of "IncServiceReconcile noMetrics"] show ?thesis
    by (auto simp: Reconcile_def reconcileService_def onKube_def stackWorld_def sample_api sample_decisions)
qed

end
