(* ===== verification/Progress.thy ===== *)
theory Progress
  imports Deployment
begin

text \<open>
  Progress: when only finitely many calls fail, retrying a Service succeeds.  Every part of
  the system keeps a count of the failures that are still to come; a call that fails uses
  one up.  A failed reconcile therefore uses one up too, and the work queue, which repeats
  failed reconciles, comes to one that succeeds.
\<close>

section \<open>What a reconcile keeps of a Service\<close>

text \<open>A reconcile of a Service changes only its finalizers and its status.\<close>

definition sameSpec :: "kube_service \<Rightarrow> kube_service \<Rightarrow> bool" where
  "sameSpec s t \<longleftrightarrow> (\<exists>fs is. t = s\<lparr>Finalizers := fs, status_Ingress := is\<rparr>)"

lemma sameSpecI: "t = s\<lparr>Finalizers := fs, status_Ingress := is\<rparr> \<Longrightarrow> sameSpec s t"
  unfolding sameSpec_def by blast

lemma sameSpec_refl [simp]: "sameSpec s s"
  by (rule sameSpecI [where fs = "Finalizers s" and ?is = "status_Ingress s"]) simp

lemma sameSpec_trans: "sameSpec s t \<Longrightarrow> sameSpec t u \<Longrightarrow> sameSpec s u"
  unfolding sameSpec_def by force

lemma sameSpec_upd [simp]: "sameSpec s (s\<lparr>Finalizers := fs\<rparr>)" "sameSpec s (s\<lparr>status_Ingress := is\<rparr>)"
  by (rule sameSpecI [where fs = fs and ?is = "status_Ingress s"], simp)
    (rule sameSpecI [where fs = "Finalizers s" and ?is = "is"], simp)

lemma sameSpec_kept:
  assumes "sameSpec s t"
  shows "DeletionTimestamp t = DeletionTimestamp s" "liveManaged cfg t = liveManaged cfg s"
  using assms by (auto simp: sameSpec_def liveManaged_def isManagedLoadBalancerService_def)

lemma sameSpec_build:
  assumes "sameSpec s t"
  shows "buildProviderService t ip (Discover (Some t) sls) = buildProviderService s ip (Discover (Some s) sls)"
proof -
  obtain fs "is" where t: "t = s\<lparr>Finalizers := fs, status_Ingress := is\<rparr>" using assms unfolding sameSpec_def by blast
  have "scanSlice t sp = scanSlice s sp" for sp
    by (rule ext)+ (simp add: scanSlice_def endpointSliceBelongsToService_def t)
  then show ?thesis by (simp add: Discover_def t buildProviderService_def serviceLoadBalancerClass_def)
qed

lemma ctl_step_spec:
  assumes "ctl_step cfg key A B"
  shows "fst B key = Some t \<Longrightarrow> \<exists>s. fst A key = Some s \<and> sameSpec s t"
    "fst A key = Some s \<Longrightarrow> DeletionTimestamp s = None \<Longrightarrow> fst B key \<noteq> None"
proof -
  have "(\<forall>t. fst B key = Some t \<longrightarrow> (\<exists>s. fst A key = Some s \<and> sameSpec s t)) \<and>
    (\<forall>s. fst A key = Some s \<longrightarrow> DeletionTimestamp s = None \<longrightarrow> fst B key \<noteq> None)"
    using assms by cases auto
  then show "fst B key = Some t \<Longrightarrow> \<exists>s. fst A key = Some s \<and> sameSpec s t"
    "fst A key = Some s \<Longrightarrow> DeletionTimestamp s = None \<Longrightarrow> fst B key \<noteq> None" by blast+
qed

lemma ctl_steps_spec:
  assumes "(ctl_step cfg key)\<^sup>*\<^sup>* A B"
  shows "fst B key = Some t \<Longrightarrow> \<exists>s. fst A key = Some s \<and> sameSpec s t"
    "fst A key = Some s \<Longrightarrow> DeletionTimestamp s = None \<Longrightarrow> fst B key \<noteq> None"
proof -
  have "(\<forall>t. fst B key = Some t \<longrightarrow> (\<exists>s. fst A key = Some s \<and> sameSpec s t)) \<and>
    (\<forall>s. fst A key = Some s \<longrightarrow> DeletionTimestamp s = None \<longrightarrow> fst B key \<noteq> None)"
    using assms
  proof (induction rule: rtranclp_induct)
    case (step B C)
    have "\<exists>s. fst A key = Some s \<and> sameSpec s t" if "fst C key = Some t" for t
      using ctl_step_spec(1) [OF step(2) that] step(3) sameSpec_trans by blast
    moreover have "fst C key \<noteq> None" if s: "fst A key = Some s" "DeletionTimestamp s = None" for s
    proof -
      obtain t where t: "fst B key = Some t" using step(3) s by auto
      then have "sameSpec s t" using step(3) s(1) by auto
      then show ?thesis using ctl_step_spec(2) [OF step(2) t] sameSpec_kept(1) s(2) by simp
    qed
    ultimately show ?case by blast
  qed simp
  then show "fst B key = Some t \<Longrightarrow> \<exists>s. fst A key = Some s \<and> sameSpec s t"
    "fst A key = Some s \<Longrightarrow> DeletionTimestamp s = None \<Longrightarrow> fst B key \<noteq> None" by blast+
qed

lemma ctl_steps_noOrphans: "(ctl_step cfg key)\<^sup>*\<^sup>* A B \<Longrightarrow> noOrphans A \<Longrightarrow> noOrphans B"
  by (induction rule: rtranclp_induct) (use ctl_step_noOrphans in blast)+

section \<open>Reconciles that fail use up a failure\<close>

text \<open>A call to the API from \<open>k\<close> to \<open>k'\<close>: it uses up a failure if it failed and leaves the EndpointSlices alone.\<close>

definition tried ::
  "('k \<Rightarrow> nat) \<Rightarrow> ('k \<Rightarrow> namespaced_name \<Rightarrow> endpoint_slice list) \<Rightarrow> 'k \<Rightarrow> 'k \<Rightarrow> bool \<Rightarrow> bool" where
  "tried kf ends k k' failed \<longleftrightarrow> kf k' \<le> kf k \<and> ends k' = ends k \<and> (failed \<longrightarrow> kf k' < kf k)"

locale responsive_api = kube_api c objs
  for c :: "'k kube_client" and objs :: "'k \<Rightarrow> namespaced_name \<rightharpoonup> kube_service" +
  fixes kf :: "'k \<Rightarrow> nat" and ends :: "'k \<Rightarrow> namespaced_name \<Rightarrow> endpoint_slice list"
  assumes get_tries: "client_Get c key k = (k', x) \<Longrightarrow> tried kf ends k k' (isl x \<and> x \<noteq> Inl NotFound)"
    and list_tries: "client_ListServices c k = (k', l) \<Longrightarrow> tried kf ends k k' (isl l)"
    and slices_tries: "client_ListEndpointSlices c ns name k = (k', sl) \<Longrightarrow>
      tried kf ends k k' (isl sl) \<and> (\<forall>y. sl = Inr y \<longrightarrow> y = ends k (ns, name))"
    and status_tries: "client_StatusUpdate c s k = (k', x) \<Longrightarrow> objs k (objectKey s) \<noteq> None \<Longrightarrow>
      tried kf ends k k' (isl x)"
    and patch_tries: "client_Patch c s t k = (k', x) \<Longrightarrow> objs k (objectKey s) \<noteq> None \<Longrightarrow>
      tried kf ends k k' (isl x)"

text \<open>
  The environment of a reconciler with a count of failures for the API and one for the
  provider.  While the provider is \<open>steady\<close> it only fails for those, if it is given Services it
  \<open>takes\<close>.
\<close>

locale responsive_env =
  controller_env r objs desired canon ok legal + responsive_api "Client r" objs kf ends
  for r :: "('k, 'p, 'e) reconciler" and objs :: "'k \<Rightarrow> namespaced_name \<rightharpoonup> kube_service"
    and desired :: "'p \<times> metrics \<Rightarrow> service_ref \<rightharpoonup> p_service" and canon :: "p_service \<Rightarrow> p_service"
    and ok :: "'p \<times> metrics \<Rightarrow> bool" and legal :: "service_ref \<Rightarrow> bool"
    and kf :: "'k \<Rightarrow> nat" and ends :: "'k \<Rightarrow> namespaced_name \<Rightarrow> endpoint_slice list" +
  fixes pf :: "'p \<Rightarrow> nat" and steady :: "'p \<Rightarrow> bool" and takes :: "p_service \<Rightarrow> bool"
  assumes ensure_tries: "ok (p, m) \<Longrightarrow> steady p \<Longrightarrow> legal (Ref v) \<Longrightarrow> takes v \<Longrightarrow>
      prov_Ensure (Provider r) v (p, m) = (y, p', m') \<Longrightarrow> steady p' \<and> pf p' \<le> pf p \<and> (isl y \<longrightarrow> pf p' < pf p)"
    and delete_tries: "ok (p, m) \<Longrightarrow> steady p \<Longrightarrow> legal ref \<Longrightarrow>
      prov_Delete (Provider r) ref (p, m) = (y, p', m') \<Longrightarrow> steady p' \<and> pf p' \<le> pf p \<and> (isl y \<longrightarrow> pf p' < pf p)"
    and pool_ne: "IPPool (rec_Config r) \<noteq> []"
begin

definition rank :: "('k, 'p) cworld \<Rightarrow> nat" where
  "rank w = kf (kube w) + pf (prov w)"

definition advances :: "('k, 'p) cworld \<Rightarrow> ('k, 'p) cworld \<Rightarrow> bool \<Rightarrow> bool" where
  "advances w w' failed \<longleftrightarrow> steady (prov w') \<and> ends (kube w') = ends (kube w) \<and> rank w' \<le> rank w \<and>
     (failed \<longrightarrow> rank w' < rank w)"

lemma advances_trans: "advances w w1 False \<Longrightarrow> advances w1 w2 b \<Longrightarrow> advances w w2 b"
  by (auto simp: advances_def)

lemma advances_weaken: "advances w w' b \<Longrightarrow> (c \<Longrightarrow> b) \<Longrightarrow> advances w w' c"
  by (auto simp: advances_def)

lemma advances_met [simp]:
  "advances (w\<lparr>met := m\<rparr>) w' b = advances w w' b" "advances w (w'\<lparr>met := m\<rparr>) b = advances w w' b"
  by (simp_all add: advances_def rank_def)

lemma advances_refl: "steady (prov w) \<Longrightarrow> advances w w False"
  by (simp add: advances_def)

lemma onKube_advances:
  assumes "onKube f w = (x, w')" "steady (prov w)"
    and "\<And>k' x. f (kube w) = (k', x) \<Longrightarrow> tried kf ends (kube w) k' (b x)"
  shows "advances w w' (b x)"
  using assms(1,2) assms(3) [of "fst (f (kube w))" "snd (f (kube w))"]
  by (auto simp: onKube_def advances_def rank_def tried_def split: prod.splits)

lemma get_advances:
  assumes "onKube (client_Get (Client r) key) w = (x, w')" "steady (prov w)" "objs (kube w) key \<noteq> None"
  shows "advances w w' (isl x)"
proof -
  have "advances w w' (isl x \<and> x \<noteq> Inl NotFound)" by (rule onKube_advances [OF assms(1,2) get_tries])
  moreover have "x \<noteq> Inl NotFound" using get_missing [of key "kube w"] onKube_result [OF assms(1)] assms(3) by auto
  ultimately show ?thesis by simp
qed

lemma patch_advances:
  assumes "onKube (client_Patch (Client r) s t) w = (x, w')" "steady (prov w)" "objs (kube w) (objectKey s) \<noteq> None"
  shows "advances w w' (isl x)"
  by (rule onKube_advances [OF assms(1,2) patch_tries]) (use assms(3) in auto)

lemma status_advances:
  assumes "onKube (UpdateServiceLoadBalancerStatus (Client r) (Some s) is) w = ((so, x), w')" "steady (prov w)"
    and "objs (kube w) (objectKey s) \<noteq> None"
  shows "advances w w' (isl x)"
proof -
  have k: "objectKey (s\<lparr>status_Ingress := is\<rparr>) = objectKey s" by (simp add: objectKey_def)
  have "tried kf ends (kube w) k' (isl (snd y))"
    if "UpdateServiceLoadBalancerStatus (Client r) (Some s) is (kube w) = (k', y)" for k' y
    using that status_tries [of "s\<lparr>status_Ingress := is\<rparr>" "kube w"] assms(3) k
    by (auto simp: UpdateStatus_eq tried_def split: if_splits prod.splits sum.splits)
  from onKube_advances [where b = "\<lambda>y. isl (snd y)", OF assms(1,2) this] show ?thesis by simp
qed

lemma onProv_advances:
  assumes "onProv f w = (x, w')"
    and "\<And>y p' m'. f (prov w, met w) = (y, p', m') \<Longrightarrow> steady p' \<and> pf p' \<le> pf (prov w) \<and> (isl y \<longrightarrow> pf p' < pf (prov w))"
  shows "advances w w' (isl x)"
  using assms by (auto simp: onProv_def advances_def rank_def split: prod.splits)

lemma delete_advances:
  assumes "onProv (prov_Delete (Provider r) ref) w = (x, w')" "good w" "steady (prov w)" "legal ref"
  shows "advances w w' (isl x)"
  by (rule onProv_advances [OF assms(1) delete_tries]) (use assms in auto)

lemma ensure_advances:
  assumes "onProv (prov_Ensure (Provider r) v) w = (x, w')" "good w" "steady (prov w)" "legal (Ref v)" "takes v"
  shows "advances w w' (isl x)"
  by (rule onProv_advances [OF assms(1) ensure_tries]) (use assms in auto)

lemma advances_steady: "advances w w' b \<Longrightarrow> steady (prov w')"
  by (simp add: advances_def)

lemma ensureFinalizer_advances:
  assumes e: "ensureServiceFinalizer r s w = (x, w')" and s: "objs (kube w) key = Some s" and st: "steady (prov w)"
  shows "advances w w' (isl x)"
proof (cases "serviceFinalizer \<in> set (Finalizers s)")
  case True
  then show ?thesis using e st by (auto simp: ensureServiceFinalizer_def hasFinalizer_iff advances_refl)
next
  case False
  let ?fs = "AddFinalizer (Util r) (Finalizers s) serviceFinalizer"
  obtain y w1 where p: "onKube (client_Patch (Client r) s (s\<lparr>Finalizers := ?fs\<rparr>)) w = (y, w1)" by force
  have "advances w w1 (isl y)" using patch_advances [OF p st] s stored_key [OF s] by simp
  moreover have "w' = w1" "isl x = isl y"
    using e p False by (cases y; auto simp: ensureServiceFinalizer_def hasFinalizer_iff)+
  ultimately show ?thesis by simp
qed

lemma removeFinalizer_advances:
  assumes e: "removeServiceFinalizer r s w = (x, w')" and s: "objs (kube w) (objectKey s) \<noteq> None" and st: "steady (prov w)"
  shows "advances w w' (x \<noteq> None)"
proof (cases "serviceFinalizer \<in> set (Finalizers s)")
  case False
  then show ?thesis using e st by (auto simp: removeServiceFinalizer_def hasFinalizer_iff advances_refl)
next
  case True
  let ?fs = "RemoveFinalizer (Util r) (Finalizers s) serviceFinalizer"
  obtain y w1 where p: "onKube (client_Patch (Client r) s (s\<lparr>Finalizers := ?fs\<rparr>)) w = (y, w1)" by force
  have "advances w w1 (isl y)" using patch_advances [OF p st s] .
  moreover have "w' = w1" "x \<noteq> None \<longleftrightarrow> isl y"
    using e p True by (cases y; auto simp: removeServiceFinalizer_def hasFinalizer_iff)+
  ultimately show ?thesis by simp
qed

lemma deleting_advances:
  assumes e: "reconcileDeletingService r s w = (x, w')" and s: "objs (kube w) key = Some s" and g: "good w"
    and st: "steady (prov w)"
  shows "advances w w' (x \<noteq> None)"
proof (cases "serviceFinalizer \<in> set (Finalizers s)")
  case False
  then show ?thesis using e st by (auto simp: reconcileDeletingService_def hasFinalizer_iff advances_refl)
next
  case True
  have key: "objectKey s = key" using stored_key [OF s] .
  obtain y w1 where d: "onProv (prov_Delete (Provider r) (refOf key)) w = (y, w1)" by force
  note A = delete_advances [OF d g st legal_names [OF s]] and D = prov_delete_step [OF d g legal_names [OF s]]
  show ?thesis
  proof (cases y)
    case (Inl er)
    then have "w' = w1" using e d True serviceRefOf_key [OF key]
      by (auto simp: reconcileDeletingService_def hasFinalizer_iff Let_def)
    then show ?thesis using A Inl advances_weaken by auto
  next
    case (Inr b)
    obtain z w2 where m: "removeServiceFinalizer r s w1 = (z, w2)" by force
    have "w' = w2" "x \<noteq> None \<longleftrightarrow> z \<noteq> None"
      using e d True Inr m serviceRefOf_key [OF key]
      by (auto simp: reconcileDeletingService_def hasFinalizer_iff Let_def split: option.splits)
    moreover have "advances w1 w2 (z \<noteq> None)"
      using removeFinalizer_advances [OF m _ advances_steady [OF A]] D(3) s key by simp
    ultimately show ?thesis using advances_trans [of w w1 w2] A Inr by simp
  qed
qed

lemma cleanup_advances:
  assumes e: "cleanupUnmanaged r s w = (x, w')" and s: "objs (kube w) key = Some s" and g: "good w"
    and st: "steady (prov w)"
  shows "advances w w' (x \<noteq> None)"
proof -
  have key: "objectKey s = key" using stored_key [OF s] .
  let ?s = "s\<lparr>status_Ingress := []\<rparr>"
  obtain y w1 where d: "onProv (prov_Delete (Provider r) (refOf key)) w = (y, w1)" by force
  note A = delete_advances [OF d g st legal_names [OF s]] and D = prov_delete_step [OF d g legal_names [OF s]]
  note ev = cleanupUnmanaged_def hasFinalizer_iff Let_def serviceRefOf_key [OF key]
  have s1: "objs (kube w1) key = Some s" using D(3) s by simp
  obtain so q w2 where u: "onKube (UpdateServiceLoadBalancerStatus (Client r) (Some s) []) w1 = ((so, q), w2)"
    by (metis surj_pair)
  note U = clear_status_steps [OF u s1 conjunct2 [OF D(1)]]
  have B: "advances w1 w2 (isl q)" using status_advances [OF u advances_steady [OF A]] s1 key by simp
  show ?thesis
  proof (cases y)
    case (Inl er)
    then have "w' = w1" using e d by (auto simp: ev)
    then show ?thesis using A Inl advances_weaken by auto
  next
    case y: (Inr c)
    then have A': "advances w w1 False" using A by simp
    show ?thesis
    proof (cases q)
      case (Inl er)
      then have "w' = w2" using e d u y by (cases so) (auto simp: ev)
      then show ?thesis using advances_trans [OF A' B] Inl advances_weaken by auto
    next
      case q: (Inr b)
      have so: "so = Some ?s" "objs (kube w2) key = Some ?s" using U(3) [OF q] by auto
      have A2: "advances w w2 False" using advances_trans [OF A' B] q by simp
      have k2: "objectKey ?s = key" using key by (simp add: objectKey_def)
      obtain f w3 where f: "(if b then onKube (client_Get (Client r) key) w2 else (Inr ?s, w2)) = (f, w3)" by force
      have C: "advances w2 w3 (isl f)" "\<And>t. f = Inr t \<Longrightarrow> objs (kube w3) (objectKey t) \<noteq> None"
        using f so(2) k2 get_advances [of key w2 f w3] get_read(3) [of key w2 f w3] advances_steady [OF A2]
        by (auto simp: advances_refl split: if_splits)
      show ?thesis
      proof (cases "serviceFinalizer \<in> set (Finalizers s)")
        case False
        then have "w' = w2" "x = None" using e d u y q so by (auto simp: ev)
        then show ?thesis using A2 by simp
      next
        case fin: True
        show ?thesis
        proof (cases f)
          case (Inl er)
          then have "w' = w3" using e d u y q so f k2 fin by (cases b) (simp_all add: ev)
          then show ?thesis using advances_trans [OF A2 C(1)] Inl advances_weaken by auto
        next
          case (Inr t)
          obtain z w4 where m: "removeServiceFinalizer r t w3 = (z, w4)" by force
          have "cleanupUnmanaged r s w = (map_option (RemoveFinalizerUnmanaged (refOf key)) z, w4)"
            using d u y q so f Inr m fin k2 by (cases b; cases z) (auto simp: ev)
          then have "w' = w4" "x \<noteq> None \<longleftrightarrow> z \<noteq> None" using e by auto
          moreover have "advances w3 w4 (z \<noteq> None)"
            using removeFinalizer_advances [OF m C(2) [OF Inr] advances_steady [OF C(1)]] .
          moreover have "advances w w3 False" using advances_trans [OF A2 C(1)] Inr by simp
          ultimately show ?thesis using advances_trans by simp
        qed
      qed
    qed
  qed
qed

lemma unmanaged_advances:
  assumes e: "reconcileUnmanagedService r s w = (x, w')" and s: "objs (kube w) key = Some s" and g: "good w"
    and st: "steady (prov w)"
  shows "advances w w' (x \<noteq> None)"
proof (cases "cleanupUnmanaged r s w = (x, w')")
  case True
  then show ?thesis using cleanup_advances s g st by blast
next
  case False
  then have "w' = w" "x = None" using e by (auto simp: reconcileUnmanagedService_def Let_def split: if_splits)
  then show ?thesis using st by (simp add: advances_refl)
qed

text \<open>The provider takes what the controller builds for the Service, whatever address is allocated.\<close>

definition fits :: "('k, 'p) cworld \<Rightarrow> namespaced_name \<Rightarrow> kube_service \<Rightarrow> bool" where
  "fits w key s \<longleftrightarrow> (\<forall>a \<in> set (IPPool (rec_Config r)).
     takes (buildProviderService s (AddrString a) (Discover (Some s) (ends (kube w) key))))"

lemma fits_sameSpec: "sameSpec s t \<Longrightarrow> fits w key t = fits w key s"
  using sameSpec_build by (simp add: fits_def)

lemma publish_advances:
  assumes e: "publishService r key s a w = (x, w')" and s: "objs (kube w) key = Some s" and g: "good w"
    and st: "steady (prov w)" and f: "fits w key s" and a: "alloc_IP a \<in> set (IPPool (rec_Config r))"
  shows "advances w w' (isl x)"
proof -
  let ?ip = "AddrString (alloc_IP a)"
  have key: "objectKey s = key" using stored_key [OF s] .
  obtain y w1 where l: "listEndpointSlicesForService r (Some s) w = (y, w1)" by force
  have l': "onKube (client_ListEndpointSlices (Client r) (ks_Namespace s) (ks_Name s)) w = (y, w1)"
    using l by (simp add: listEndpointSlicesForService_def)
  have L: "good w1" "objs (kube w1) = objs (kube w)" using onKube_read [OF l' slices_state] g by auto
  have A: "advances w w1 (isl y)" by (rule onKube_advances [OF l' st conjunct1 [OF slices_tries]])
  show ?thesis
  proof (cases y)
    case (Inl er)
    then have "w' = w1" using e l by (simp add: publishService_def)
    then show ?thesis using A Inl advances_weaken by auto
  next
    case y: (Inr sl)
    have "sl = ends (kube w) (ks_Namespace s, ks_Name s)"
      using onKube_result [OF l'] slices_tries y by fastforce
    then have sl: "sl = ends (kube w) key" using key by (simp add: objectKey_def)
    let ?v = "buildProviderService s ?ip (Discover (Some s) sl)"
    obtain z w2 where p: "onProv (prov_Ensure (Provider r) ?v) w1 = (z, w2)" by force
    have v: "legal (Ref ?v)" "takes ?v"
      using legal_names [OF s] Ref_build [OF key] f a sl by (simp_all add: fits_def)
    note B = ensure_advances [OF p L(1) advances_steady [OF A] v] and P = prov_ensure_cases [OF p L(1) v(1)]
    have A': "advances w w1 False" using A y by simp
    show ?thesis
    proof (cases z)
      case (Inl er)
      then have "w' = w2" using e l p y by (simp add: publishService_def Let_def)
      then show ?thesis using advances_trans [OF A' B] Inl advances_weaken by auto
    next
      case z: (Inr b)
      obtain so q w3 where u: "onKube (UpdateServiceLoadBalancerStatus (Client r) (Some s)
          (DesiredLoadBalancerIngress ?ip)) w2 = ((so, q), w3)" by (metis surj_pair)
      have "w' = w3" "isl x = isl q"
        using e l p u y z by (cases q; auto simp: publishService_def Let_def)+
      moreover have "advances w2 w3 (isl q)"
        using status_advances [OF u advances_steady [OF B]] P(1) L(2) s key by simp
      moreover have "advances w w2 False" using advances_trans [OF A' B] z by simp
      ultimately show ?thesis using advances_trans by simp
    qed
  qed
qed

lemma exhausted_taken:
  assumes "Allocate (allocatorOf cfg) (Some s) ss = Inl ErrNoFreeIP" "set ss = ran (objs k)" "objectKey s = key"
    and "a \<in> set (IPPool cfg)"
  shows "\<not> freeFor cfg key (objs k) a"
proof -
  have p: "pool (allocatorOf cfg) = IPPool cfg" by (simp add: allocatorOf_def NewAllocator_def)
  have "taken (allocatorOf cfg) s ss a"
    using assms(1,4) by (simp add: Allocate_policy p alloc_policy_exhausted)
  then obtain s' where s': "s' \<in> set ss" "competes (allocatorOf cfg) (objectKey s) s'" "publishes s' a"
    by (auto simp: taken_def list_ex_iff)
  then obtain key' where k: "objs k key' = Some s'" using assms(2) by (auto simp: ran_def)
  have "key' \<noteq> key" "liveManaged cfg s'"
    using s'(2) stored_key [OF k] assms(3)
    by (auto simp: competes_def allocatorOf_def NewAllocator_def liveManaged_def)
  then show ?thesis using k s'(3) unfolding freeFor_def by blast
qed

text \<open>What a reconcile that reports no error has done with a live managed Service.\<close>

definition settled :: "namespaced_name \<Rightarrow> ('k, 'p) cworld \<Rightarrow> int \<Rightarrow> bool" where
  "settled key w n \<longleftrightarrow> n = 0 \<and> served key w \<or>
     n = RequeueAfter (rec_Config r) \<and> (\<forall>a \<in> set (IPPool (rec_Config r)). \<not> freeFor (rec_Config r) key (objs (kube w)) a)"

lemma managed_advances:
  assumes e: "reconcileManaged r key s w = (x, w')" and s: "objs (kube w) key = Some s" and g: "good w"
    and st: "steady (prov w)" and fs: "fits w key s"
  shows "advances w w' (isl x)" "x = Inr n \<Longrightarrow> settled key w' n"
proof -
  let ?cfg = "rec_Config r"
  obtain y w1 where en: "ensureServiceFinalizer r s w = (y, w1)" by force
  note E = ensureFinalizer_steps [OF en s g] and A = ensureFinalizer_advances [OF en s st]
  have "advances w w' (isl x) \<and> (\<forall>n. x = Inr n \<longrightarrow> settled key w' n)"
  proof (cases y)
    case (Inl er)
    then have "w' = w1" "isl x" using e en by (auto simp: reconcileManaged_def)
    then show ?thesis using A Inl by auto
  next
    case (Inr bt)
    obtain b t where y: "y = Inr (b, t)" using Inr by (cases bt) simp
    have t: "objs (kube w1) key = Some t" "serviceFinalizer \<in> set (Finalizers t)" and ts: "sameSpec s t"
      using E(2) [OF y] sameSpec_upd(1) [of s "Finalizers t"] by auto
    have A': "advances w w1 False" using A y by simp
    obtain f w2 where f: "(if b then onKube (client_Get (Client r) key) w1 else (Inr t, w1)) = (f, w2)" by force
    have F: "abs w2 = abs w1" "good w2" "\<And>u. f = Inr u \<Longrightarrow> u = t"
      using f t(1) E(1) get_read [of key w1 f w2] by (auto simp: absState_def split: if_splits)
    have B: "advances w1 w2 (isl f)"
      using f t(1) get_advances [of key w1 f w2] advances_steady [OF A'] by (auto simp: advances_refl split: if_splits)
    show ?thesis
    proof (cases f)
      case (Inl er)
      then have "w' = w2" "isl x" using e en y f by (auto simp: reconcileManaged_def)
      then show ?thesis using advances_trans [OF A' B] Inl by auto
    next
      case (Inr u)
      then have u: "f = Inr t" using F(3) by simp
      have A2: "advances w w2 False" using advances_trans [OF A' B] Inr by simp
      obtain l w3 where l: "listServicesForAllocation r w2 = (l, w3)" by force
      note l' = l [unfolded listServicesForAllocation_def]
      have C: "advances w2 w3 (isl l)" by (rule onKube_advances [OF l' advances_steady [OF A2] list_tries])
      obtain k3 where k3: "client_ListServices (Client r) (kube w2) = (k3, l)" "w3 = w2\<lparr>kube := k3\<rparr>"
        using onKube_result [OF l'] by blast
      have o3: "objs (kube w3) = objs (kube w2)" using list_state [OF k3(1)] k3(2) by simp
      have t3: "objs (kube w3) key = Some t" using o3 F(1) t(1) by (simp add: absState_def)
      have g3: "good w3" using k3(2) F(2) by simp
      show ?thesis
      proof (cases l)
        case (Inl er)
        then have "w' = w3" "isl x" using e en y f u l by (auto simp: reconcileManaged_def)
        then show ?thesis using advances_trans [OF A2 C] Inl by auto
      next
        case ss: (Inr ss)
        have A3: "advances w w3 False" using advances_trans [OF A2 C] ss by simp
        have fresh: "set ss = ran (objs (kube w3))" using list_fresh k3(1) ss o3 by simp
        have pool: "pool (allocatorOf ?cfg) = IPPool ?cfg" by (simp add: allocatorOf_def NewAllocator_def)
        show ?thesis
        proof (cases "Allocate (allocatorOf ?cfg) (Some t) ss")
          case (Inl er)
          then have er: "er = ErrNoFreeIP" using pool_ne
            by (auto simp: Allocate_policy pool alloc_policy_def split: option.splits if_splits)
          then have "w' = w3\<lparr>met := RecordIPAllocationExhausted (met w3)\<rparr>" "x = Inr (RequeueAfter ?cfg)"
            using e en y f u l ss Inl by (simp_all add: reconcileManaged_def)
          then show ?thesis
            using A3 exhausted_taken [OF Inl [unfolded er] fresh stored_key [OF t3]] by (simp add: settled_def)
        next
          case al: (Inr a)
          let ?w4 = "recordAllocation a w3"
          have pub: "publishService r key t a ?w4 = (x, w')"
            using e en y f u l ss al by (simp add: reconcileManaged_def)
          have k4: "kube ?w4 = kube w3" "prov ?w4 = prov w3" "advances w3 ?w4 False"
            using advances_refl [OF advances_steady [OF A3]] by (simp_all add: recordAllocation_def)
          have "good ?w4 = good w3"
            unfolding recordAllocation_def
            by (rule counters_abs; simp add: RecordIPAllocationReused_def RecordIPAllocationAllocated_def
                recordIPAllocation_def Let_def)
          then have g4: "good ?w4" using g3 by simp
          note P = allocated_free [OF al fresh stored_key [OF t3]]
          have "fits ?w4 key t"
            using fs fits_sameSpec [OF ts] A3 k4(1) by (simp add: fits_def advances_def)
          note Q = publish_advances [OF pub _ g4 _ this P(1), unfolded k4(1,2), OF t3 advances_steady [OF A3]]
          show ?thesis
            using advances_trans [OF advances_trans [OF A3 k4(3)] Q] 
              publish_steps(2) [OF pub _ g4 t(2), unfolded k4(1), OF t3 P] P(1)
            unfolding settled_def by blast
        qed
      qed
    qed
  qed
  then show "advances w w' (isl x)" "x = Inr n \<Longrightarrow> settled key w' n" by blast+
qed

lemma service_advances:
  assumes e: "reconcileService r key w = (x, w')" and g: "good w" and st: "steady (prov w)"
    and fs: "\<And>s. objs (kube w) key = Some s \<Longrightarrow> liveManaged (rec_Config r) s \<Longrightarrow> fits w key s"
  shows "advances w w' (isl x)"
    "objs (kube w) key = Some s \<Longrightarrow> liveManaged (rec_Config r) s \<Longrightarrow> x = Inr n \<Longrightarrow> settled key w' n"
proof -
  obtain y w1 where g1: "onKube (client_Get (Client r) key) w = (y, w1)" by force
  note G = get_read [OF g1]
  have gd: "good w1" using G(2) g by simp
  have same: "objs (kube w1) = objs (kube w)" using G(1) by (simp add: absState_def)
  have A: "advances w w1 (isl y \<and> y \<noteq> Inl NotFound)" by (rule onKube_advances [OF g1 st get_tries])
  have miss: "y = Inl NotFound \<Longrightarrow> objs (kube w) key = None" using get_missing [of key "kube w"] onKube_result [OF g1] by auto
  have "advances w w' (isl x) \<and> (\<forall>s n. objs (kube w) key = Some s \<longrightarrow> liveManaged (rec_Config r) s \<longrightarrow> x = Inr n \<longrightarrow> settled key w' n)"
  proof (cases y)
    case (Inl er)
    then have "w' = w1" "isl x \<longleftrightarrow> y \<noteq> Inl NotFound" using e g1 by (cases er; auto simp: reconcileService_def)+
    then show ?thesis using Inl A miss by (cases x) auto
  next
    case (Inr s)
    have s: "objs (kube w1) key = Some s" using G(3) [OF Inr] by simp
    have A': "advances w w1 False" using A Inr by simp
    note st1 = advances_steady [OF A']
    have live: "\<not> liveManaged (rec_Config r) s \<Longrightarrow> objs (kube w) key = Some s' \<Longrightarrow> \<not> liveManaged (rec_Config r) s'" for s'
      using s same by simp
    show ?thesis
    proof (cases "DeletionTimestamp s")
      case (Some ts)
      obtain z w2 where d: "reconcileDeletingService r s w1 = (z, w2)" by force
      have "w' = w2" "isl x \<longleftrightarrow> z \<noteq> None"
        using e g1 Inr Some d by (auto simp: reconcileService_def split: option.splits)
      moreover have "\<not> liveManaged (rec_Config r) s" using Some by (simp add: liveManaged_def)
      ultimately show ?thesis using advances_trans [OF A' deleting_advances [OF d s gd st1]] live by auto
    next
      case None
      show ?thesis
      proof (cases "isManagedLoadBalancerService (Some s) (cc_LoadBalancerClass (rec_Config r))")
        case False
        obtain z w2 where d: "reconcileUnmanagedService r s w1 = (z, w2)" by force
        have "w' = w2" "isl x \<longleftrightarrow> z \<noteq> None"
          using e g1 Inr None False d by (auto simp: reconcileService_def split: option.splits)
        moreover have "\<not> liveManaged (rec_Config r) s" using False by (simp add: liveManaged_def)
        ultimately show ?thesis using advances_trans [OF A' unmanaged_advances [OF d s gd st1]] live by auto
      next
        case True
        then have m: "reconcileManaged r key s w1 = (x, w')" using e g1 Inr None by (simp add: reconcileService_def)
        have "liveManaged (rec_Config r) s" using None True by (simp add: liveManaged_def)
        then have "fits w1 key s" using fs [of s] s same A' by (simp add: fits_def advances_def)
        note M = managed_advances [OF m s gd st1 this]
        then show ?thesis using advances_trans [OF A' M(1)] by blast
      qed
    qed
  qed
  then show "advances w w' (isl x)"
    "objs (kube w) key = Some s \<Longrightarrow> liveManaged (rec_Config r) s \<Longrightarrow> x = Inr n \<Longrightarrow> settled key w' n" by blast+
qed

lemma settled_met:
  assumes "providerManagedServices m = providerManagedServices (met w)"
  shows "settled key (w\<lparr>met := m\<rparr>) n = settled key w n"
  using counters_abs [OF assms] by (simp add: settled_def)

lemma Reconcile_advances:
  assumes e: "Reconcile r key w = (x, w')" and g: "good w" and st: "steady (prov w)"
    and fs: "\<And>s. objs (kube w) key = Some s \<Longrightarrow> liveManaged (rec_Config r) s \<Longrightarrow> fits w key s"
  shows "advances w w' (isl x)"
    "objs (kube w) key = Some s \<Longrightarrow> liveManaged (rec_Config r) s \<Longrightarrow> x = Inr n \<Longrightarrow> settled key w' n"
proof -
  let ?w = "w\<lparr>met := IncServiceReconcile (met w)\<rparr>"
  obtain w1 where 1: "reconcileService r key ?w = (x, w1)" "w' = w1\<lparr>met := ObserveServiceReconcile (isl x) (met w1)\<rparr>"
    using e by (auto simp: Reconcile_def split: prod.splits)
  have "good ?w = good w" by (rule counters_abs; simp add: IncServiceReconcile_def Let_def)
  then have g1: "good ?w" using g by simp
  note S = service_advances [OF 1(1) g1]
  have f: "fits ?w key s = fits w key s" for s by (simp add: fits_def)
  show "advances w w' (isl x)" using S(1) st fs 1(2) f by simp
  assume h: "objs (kube w) key = Some s" "liveManaged (rec_Config r) s" "x = Inr n"
  then have "settled key w1 n" using S(2) st fs f by simp
  then show "settled key w' n" unfolding 1(2)
    by (subst settled_met) (simp_all add: ObserveServiceReconcile_def Let_def)
qed

end

section \<open>The work queue\<close>

text \<open>
  The work queue of controller-runtime repeats a reconcile that returned an error; here at
  most \<open>n\<close> times more.
\<close>

fun retry ::
  "nat \<Rightarrow> ('k, 'p, 'e) reconciler \<Rightarrow> namespaced_name \<Rightarrow> ('k, 'p) cworld \<Rightarrow>
   ('e reconcile_error, ctrl_result) result \<times> ('k, 'p) cworld" where
  "retry 0 r key w = Reconcile r key w"
| "retry (Suc n) r key w =
     (case Reconcile r key w of (Inl _, w) \<Rightarrow> retry n r key w | (Inr d, w) \<Rightarrow> (Inr d, w))"

text \<open>Nothing of the Service is left at the provider, and the controller does not hold it back.\<close>

definition released ::
  "('k \<Rightarrow> namespaced_name \<rightharpoonup> kube_service) \<Rightarrow> ('p \<times> metrics \<Rightarrow> service_ref \<rightharpoonup> p_service) \<Rightarrow> namespaced_name \<Rightarrow>
   ('k, 'p) cworld \<Rightarrow> bool" where
  "released objs desired key w \<longleftrightarrow> snd (absState objs desired w) (refOf key) = None \<and>
     (\<forall>t. objs (kube w) key = Some t \<longrightarrow> serviceFinalizer \<notin> set (Finalizers t))"

lemma released_noOrphans:
  assumes "noOrphans (absState objs desired w)"
    and "\<And>t. objs (kube w) key = Some t \<Longrightarrow> serviceFinalizer \<notin> set (Finalizers t)"
  shows "released objs desired key w"
  using noOrphans_stored [of "objs (kube w)" "desired (prov w, met w)" key] assms
  by (fastforce simp: released_def absState_def)

context responsive_env
begin

lemma deleting_quiet:
  assumes e: "Reconcile r key w = (Inr n, w')" and s: "objs (kube w) key = Some s"
    and d: "DeletionTimestamp s \<noteq> None" "serviceFinalizer \<notin> set (Finalizers s)"
  shows "objs (kube w') key = Some s"
proof -
  let ?w = "w\<lparr>met := IncServiceReconcile (met w)\<rparr>"
  obtain y w1 where g1: "onKube (client_Get (Client r) key) ?w = (y, w1)" by force
  note G = get_read [OF g1]
  have same: "objs (kube w1) = objs (kube w)" using G(1) by (simp add: absState_def)
  have "y \<noteq> Inl NotFound" using get_missing [of key "kube w"] onKube_result [OF g1] s by auto
  then have y: "y = Inr s" using e g1 G(3) same s by (cases y; cases "projl y") (auto simp: Reconcile_def reconcileService_def)
  then have "w' = w1\<lparr>met := ObserveServiceReconcile False (met w1)\<rparr>"
    using e g1 d by (auto simp: Reconcile_def reconcileService_def reconcileDeletingService_def hasFinalizer_iff)
  then show ?thesis using same s by simp
qed

text \<open>What a reconcile without an error has done, whatever was stored under the name before.\<close>

definition completed :: "namespaced_name \<Rightarrow> ('k, 'p) cworld \<Rightarrow> ('k, 'p) cworld \<Rightarrow> int \<Rightarrow> bool" where
  "completed key w w' n \<longleftrightarrow> (case objs (kube w) key of
     None \<Rightarrow> released objs desired key w'
   | Some s \<Rightarrow> (liveManaged (rec_Config r) s \<longrightarrow> settled key w' n) \<and>
       (DeletionTimestamp s \<noteq> None \<longrightarrow> released objs desired key w'))"

definition prepared :: "namespaced_name \<Rightarrow> ('k, 'p) cworld \<Rightarrow> bool" where
  "prepared key w \<longleftrightarrow> good w \<and> steady (prov w) \<and> noOrphans (abs w) \<and>
     (\<forall>s. objs (kube w) key = Some s \<longrightarrow> liveManaged (rec_Config r) s \<longrightarrow> fits w key s)"

lemma Reconcile_spec:
  assumes "Reconcile r key w = (x, w')" "good w"
  shows "objs (kube w') key = Some t \<Longrightarrow> \<exists>s. objs (kube w) key = Some s \<and> sameSpec s t"
    "objs (kube w) key = Some s \<Longrightarrow> DeletionTimestamp s = None \<Longrightarrow> objs (kube w') key \<noteq> None"
  using ctl_steps_spec [OF conjunct1 [OF Reconcile_steps(1) [OF assms]]] by (simp_all add: absState_def)

lemma Reconcile_prepared:
  assumes e: "Reconcile r key w = (x, w')" and p: "prepared key w"
  shows "prepared key w'" "advances w w' (isl x)" "x = Inr n \<Longrightarrow> completed key w w' n"
proof -
  have g: "good w" "steady (prov w)" "noOrphans (abs w)"
    "\<And>s. objs (kube w) key = Some s \<Longrightarrow> liveManaged (rec_Config r) s \<Longrightarrow> fits w key s"
    using p by (auto simp: prepared_def)
  note A = Reconcile_advances [OF e g(1,2,4)] and S = Reconcile_steps [OF e g(1)] and P = Reconcile_spec [OF e g(1)]
  have no: "noOrphans (abs w')" using ctl_steps_noOrphans S(1) g(3) by blast
  show "advances w w' (isl x)" using A(1) by blast
  then have "fits w' key s = fits w key s" "steady (prov w')" for s by (simp_all add: fits_def advances_def)
  then show "prepared key w'"
    using S(1) no P(1) g(4) fits_sameSpec sameSpec_kept(2) unfolding prepared_def by metis
  show "completed key w w' n" if x: "x = Inr n"
  proof (cases "objs (kube w) key")
    case None
    then have "objs (kube w') key = None" using P(1) by (cases "objs (kube w') key") auto
    then show ?thesis using None released_noOrphans [OF no, of key] by (simp add: completed_def)
  next
    case (Some s)
    have "released objs desired key w'" if d: "DeletionTimestamp s \<noteq> None"
    proof (cases "serviceFinalizer \<in> set (Finalizers s)")
      case True
      then show ?thesis using S(3) [OF Some d True x] by (simp add: released_def)
    next
      case False
      then have "objs (kube w') key = Some s" using deleting_quiet [of key w n w' s] e x Some d by simp
      then show ?thesis using False released_noOrphans [OF no, of key] by simp
    qed
    then show ?thesis using A(2) Some x by (simp add: completed_def)
  qed
qed

lemma completed_later:
  assumes "Reconcile r key w = (x, w1)" "good w" "completed key w1 w' n"
  shows "completed key w w' n"
proof (cases "objs (kube w) key")
  case None
  then have "objs (kube w1) key = None" using Reconcile_spec(1) [OF assms(1,2)] by (cases "objs (kube w1) key") auto
  then show ?thesis using assms(3) None by (simp add: completed_def)
next
  case s: (Some s)
  show ?thesis
  proof (cases "objs (kube w1) key")
    case None
    then have "DeletionTimestamp s \<noteq> None" using Reconcile_spec(2) [OF assms(1,2) s] by blast
    then show ?thesis using assms(3) None s by (auto simp: completed_def liveManaged_def)
  next
    case (Some t)
    then have "sameSpec s t" using Reconcile_spec(1) [OF assms(1,2) Some] s by auto
    then show ?thesis using assms(3) Some s sameSpec_kept by (simp add: completed_def)
  qed
qed

text \<open>Retried as often as failures are to come, a reconcile succeeds.\<close>

lemma retry_completes:
  "prepared key w \<Longrightarrow> rank w \<le> n \<Longrightarrow> \<exists>d w'. retry n r key w = (Inr d, w') \<and> prepared key w' \<and> completed key w w' d"
proof (induction n arbitrary: w)
  case 0
  obtain x w' where e: "Reconcile r key w = (x, w')" by (rule prod.exhaust)
  note R = Reconcile_prepared [OF e 0(1)]
  have "\<not> isl x" using R(2) 0(2) by (auto simp: advances_def)
  then obtain d where "x = Inr d" by (cases x) auto
  then show ?case using R e by auto
next
  case (Suc n)
  obtain x w1 where e: "Reconcile r key w = (x, w1)" by (rule prod.exhaust)
  note R = Reconcile_prepared [OF e Suc.prems(1)]
  show ?case
  proof (cases x)
    case (Inr d)
    then show ?thesis using R e by auto
  next
    case (Inl er)
    then have "rank w1 \<le> n" using R(2) Suc.prems(2) by (auto simp: advances_def)
    from Suc.IH [OF R(1) this] obtain d w' where
      "retry n r key w1 = (Inr d, w')" "prepared key w'" "completed key w1 w' d" by blast
    moreover have "good w" using Suc.prems(1) by (simp add: prepared_def)
    ultimately show ?thesis using e Inl completed_later [OF e] by auto
  qed
qed

end

end
