(* ===== verification/Calm.thy ===== *)
theory Calm
  imports Progress
begin

text \<open>
  Hosts on which nothing fails: the kernel answers, no system call fails and the configured
  commands succeed.  On such a host the engine carries out every valid request, and so does
  the dataplane behind it.
\<close>

section \<open>The engine on a calm host\<close>

lemma render_valid:
  assumes "distinct (map serviceKey ss)" "list_all validService ss"
  shows "\<exists>cfg. Render ss = Inr cfg"
  using assms Render_Inr [of ss] by (cases "ss = []") (auto simp: Render_def distinct_serviceKey)

locale calm_host = engine_attach m view app active ok
  for m :: "'w external_ip_manager" and view :: "'w \<Rightarrow> addr set"
    and app :: "'w config_applier_ops" and active :: "'w \<Rightarrow> string option" and ok :: "'w \<Rightarrow> bool" +
  fixes calm :: "'w \<Rightarrow> bool"
  assumes list_calm: "calm w \<Longrightarrow> ipm_List m w = (l, w') \<Longrightarrow> \<not> isl l \<and> calm w'"
    and view_ipv4: "a \<in> view w \<Longrightarrow> Is4 a"
    and present_calm: "calm w \<Longrightarrow> Is4 a \<Longrightarrow> ipm_EnsurePresent m a w = (p, w') \<Longrightarrow> \<not> isl p \<and> calm w'"
    and absent_calm: "calm w \<Longrightarrow> Is4 a \<Longrightarrow> ipm_EnsureAbsent m a w = (p, w') \<Longrightarrow> \<not> isl p \<and> calm w'"
    and apply_calm: "calm w \<Longrightarrow> Render ss = Inr cfg \<Longrightarrow> app_Apply app ss w = (r, w') \<Longrightarrow> \<not> isl r \<and> calm w'"
begin

lemma attachLoop_calm:
  "calm w \<Longrightarrow> list_all Is4 addrs \<Longrightarrow> attachLoop m acc addrs w = ((s, att), w') \<Longrightarrow> s = None \<and> calm w'"
proof (induction addrs arbitrary: acc w)
  case (Cons a addrs)
  obtain p w1 where p: "ipm_EnsurePresent m a w = (p, w1)" by force
  have "\<not> isl p" "calm w1" using present_calm [OF Cons.prems(1) _ p] Cons.prems(2) by auto
  then show ?case using Cons p by (cases p) auto
qed simp

lemma detachLoop_calm:
  "calm w \<Longrightarrow> list_all Is4 addrs \<Longrightarrow> detachLoop m c addrs w = (r, w') \<Longrightarrow> \<not> isl r \<and> calm w'"
proof (induction addrs arbitrary: c w)
  case (Cons a addrs)
  obtain p w1 where p: "ipm_EnsureAbsent m a w = (p, w1)" by force
  have "\<not> isl p" "calm w1" using absent_calm [OF Cons.prems(1) _ p] Cons.prems(2) by auto
  then show ?case using Cons p by (cases p) auto
qed auto

lemma reconcile_calm:
  assumes e: "wired m app e" and c: "calm w"
    and s: "store_ok nxt" "list_all validService (Store_List nxt)" and r: "reconcileLocked nxt e w = (r, e', w')"
  shows "\<not> isl r \<and> calm w'"
proof -
  let ?ss = "Store_List nxt"
  have e': "eng_ipm e = m" "eng_applier e = app" using e by (simp_all add: wired_def)
  obtain l w1 where 1: "ipm_List m w = (l, w1)" by force
  then obtain cur where l: "l = Inr cur" and c1: "calm w1" using list_calm [OF c 1] by (cases l) auto
  have cur: "list_all Is4 cur" using list_ok 1 l view_ipv4 by (fastforce simp: list_all_iff)
  obtain des where d: "desiredExternalIPs ?ss = Inr des" using desired_valid [OF s(2)] by blast
  have "list_all Is4 des" using desired_set [OF d] by (auto simp: list_all_iff wantedIPs_def parse4_Some)
  then have new: "list_all Is4 (diffExternalIPs des cur)" "list_all Is4 (diffExternalIPs cur des)"
    using cur by (simp_all add: list_all_iff)
  obtain st att w2 where 2: "attachLoop m [] (diffExternalIPs des cur) w1 = ((st, att), w2)" by (metis surj_pair)
  have A: "st = None" "calm w2" using attachLoop_calm [OF c1 new(1) 2] by auto
  obtain cfg where cfg: "Render ?ss = Inr cfg" using render_valid [OF ds.distinct_listing [OF s(1)] s(2)] by blast
  obtain p w3 where 3: "app_Apply app ?ss w2 = (p, w3)" by force
  obtain cc where p: "p = Inr cc" and c3: "calm w3" using apply_calm [OF A(2) cfg 3] by (cases p) auto
  obtain q w4 where 4: "detachLoop m (cc \<or> 0 < length att) (diffExternalIPs cur des) w3 = (q, w4)" by force
  have "r = q" "w' = w4" using r 1 2 3 4 l d A(1) p e' by (auto simp: reconcileLocked_def Let_def)
  then show ?thesis using detachLoop_calm [OF c3 new(2) 4] by simp
qed

lemma handle_calm:
  assumes "wired m app e" "engine_ok e" "calm w" "handle q e w = (r, e', w')"
    and "\<And>v. q = EnsureReq v \<Longrightarrow> validService v"
  shows "\<not> isl r \<and> calm w'"
  using assms(4)
proof (cases rule: handle_cases)
  case (work nxt)
  note n = nextStore_ok [OF assms(2) work(1)]
  from reconcile_calm [OF assms(1,3) n(1,3) work(2)] show ?thesis .
qed (use assms in auto)

end


section \<open>The dataplane on a calm host\<close>

text \<open>
  Requests the dataplane carries out: within the limits of the protocol and valid.
\<close>

fun acceptable :: "int \<Rightarrow> request \<Rightarrow> bool" where
  "acceptable limit (EnsureReq v) = (sendable limit (EnsureReq v) \<and> validService v)"
| "acceptable limit (DeleteReq ref) = sendable limit (DeleteReq ref)"

lemma acceptable_iff: "acceptable limit q \<longleftrightarrow> sendable limit q \<and> (\<forall>v. q = EnsureReq v \<longrightarrow> validService v)"
  by (cases q) auto

lemma sendable_legal: "sendable limit q \<Longrightarrow> legalRef (reqRef q)"
  by (cases q) auto

context calm_host
begin

definition dpCalm :: "int \<Rightarrow> 'w dataplane \<Rightarrow> bool" where
  "dpCalm limit s \<longleftrightarrow> dpOk m view app ok s \<and> calm (snd s) \<and> maxRequestBodyBytes (fst s) = limit"

lemma serve_calm:
  assumes "dpCalm limit s" "acceptable limit q" "rootPath p" "serveDataplane txt (wireRequest p q) s = (a, t)"
  shows "dpCalm limit t \<and> (\<exists>c. a = Some (writeJSON 200 (changedResponse c)))"
proof -
  obtain h w where s: "s = (h, w)" by force
  have k: "dpOk m view app ok (h, w)" "calm w" "maxRequestBodyBytes h = limit" using assms(1) s by (simp_all add: dpCalm_def)
  have e: "wired m app (h_engine h)" "engine_ok (h_engine h)" using k(1) by (simp_all add: dpOk_def)
  obtain x e' w' where h: "handle q (h_engine h) w = (x, e', w')" by (metis surj_pair)
  have q: "sendable (maxRequestBodyBytes h) q" using assms(2) k(3) by (simp add: acceptable_iff)
  have "\<not> isl x \<and> calm w'"
    using handle_calm [OF e k(2) h] assms(2) by (auto simp: acceptable_iff)
  then obtain c where x: "x = Inr c" "calm w'" by (cases x) auto
  obtain resp where "serveDataplane txt (wireRequest p q) (h, w) = (Some resp, h\<lparr>h_engine := e'\<rparr>, w')"
    "resp = writeJSON 200 (changedResponse c)" using serve_sendable [OF assms(3) q h] x by auto
  moreover have "dpOk m view app ok (h\<lparr>h_engine := e'\<rparr>, w')"
    using handle_dataplane(1) [OF engine_attach_axioms k(1) h] .
  ultimately show ?thesis using assms(4) s x(2) k(3) by (auto simp: dpCalm_def)
qed

lemma deliveries_calm:
  assumes "deliveries (serveDataplane txt) (wireRequest p q) s a t" "dpCalm limit s" "acceptable limit q" "rootPath p"
  shows "dpCalm limit t \<and> (\<forall>resp. a = Some resp \<longrightarrow> (\<exists>c. resp = writeJSON 200 (changedResponse c)))"
  using assms(1,2)
proof (induction rule: deliveries.induct)
  case (again s x t y u)
  from serve_calm [OF _ assms(3,4) again(2)] again(3,4) show ?case by auto
qed simp

end

text \<open>A link that fails to bring an answer only so many times.\<close>

locale retry_link = http_link send serve srv
  for send :: "'w http_client" and serve :: "http_request \<Rightarrow> 's \<Rightarrow> http_response option \<times> 's" and srv :: "'w \<Rightarrow> 's" +
  fixes faults :: "'w \<Rightarrow> nat"
  assumes send_tries: "routeOf (requestFor meth u b) \<noteq> None \<Longrightarrow> send meth u b ct w = (x, w') \<Longrightarrow>
    faults w' \<le> faults w \<and> (faults w' < faults w \<or> (\<exists>code st body. x = Answered code st body))"

lemma api_call_tries:
  assumes link: "retry_link send (serveDataplane txt) srv faults" and host: "calm_host m view app active ok calm"
    and k: "calm_host.dpCalm m view app ok calm limit (srv w)" and q: "acceptable limit q" "rootPath p"
    and c: "apiCall send p q w = (r, w')"
  shows "calm_host.dpCalm m view app ok calm limit (srv w') \<and> faults w' \<le> faults w \<and> (isl r \<longrightarrow> faults w' < faults w)"
proof -
  note hl = retry_link.axioms(1) [OF link]
  obtain meth body ct where d: "doRequest send p meth (reqRef q) body ct w = (r, w')"
    "wireRequest p q = requestFor meth (serviceURL p (reqRef q)) body"
    using c by (cases q) (auto simp: Api_Ensure_def Api_Delete_def)
  have l: "legalRef (reqRef q)" using q(1) sendable_legal unfolding acceptable_iff by blast
  have rt: "routeOf (requestFor meth (serviceURL p (reqRef q)) body) \<noteq> None"
    using routed [OF serviceURL_path [OF q(2) l] l] by simp
  obtain x where x: "send meth (serviceURL p (reqRef q)) body ct w = (x, w')"
    by (rule doRequest_cases [OF d(1)]) (rule that)
  obtain a where a: "deliveries (serveDataplane txt) (wireRequest p q) (srv w) a (srv w')"
    "\<forall>code st body. x = Answered code st body \<longrightarrow>
        (\<exists>resp. a = Some resp \<and> StatusCode resp = code \<and> resp_Body resp = body)"
    using http_link.delivery [OF hl rt x] unfolding d(2) [symmetric] by (elim exE conjE)
  note C = calm_host.deliveries_calm [OF host a(1) k q]
  note T = retry_link.send_tries [OF link rt x]
  have "r = Inr c" if "x = Answered code st bytes" "StatusCode (writeJSON 200 (changedResponse c)) = code"
    "resp_Body (writeJSON 200 (changedResponse c)) = bytes" for code st bytes c
    using d(1) x that unmarshal_changed [of c] by (simp add: doRequest_def writeJSON_def)
  then have "\<not> isl r" if "\<exists>code st body. x = Answered code st body"
    using that a(2) C by fastforce
  then show ?thesis using C T by blast
qed


section \<open>A calm kernel\<close>

definition calmKernel :: "attach_config \<Rightarrow> kernel \<Rightarrow> bool" where
  "calmKernel cfg k \<longleftrightarrow> link_answers k \<and> link_name k = Interface cfg"

lemma kernel_list:
  assumes "calmKernel cfg k" "1 \<le> CIDRSuffix cfg" "CIDRSuffix cfg \<le> 32"
  shows "\<exists>xs. Netlink_List cfg (linuxNetlinkClient kernelLib) k = (Inr xs, k) \<and>
    (\<forall>a. a \<in> set xs \<longleftrightarrow> Is4 a \<and> PrefixFrom a (CIDRSuffix cfg) \<in> set (link_addrs k))"
proof -
  let ?ps = "filter validPrefix (link_addrs k)"
  have "convertAddrs (Interface cfg) (map (\<lambda>q. Some (prefixToIPNet q)) ?ps) = Inr ?ps"
    by (rule convertAddrs_ok) (simp add: list_all_iff)
  then have "ListIPv4Addrs (linuxNetlinkClient kernelLib) (Interface cfg) k = (Inr ?ps, k)"
    using assms(1) by (simp add: linuxNetlinkClient_def Linux_ListIPv4Addrs_def kernelLib_def calmKernel_def)
  then show ?thesis
    using assms(2,3) by (auto simp: Netlink_List_def managedAddrs_set validPrefix_def PrefixFrom_def)
qed

lemma kernel_changes:
  assumes "calmKernel cfg k" "validPrefix q"
  shows "q \<notin> set (link_addrs k) \<Longrightarrow> \<exists>k'. AddIPv4Addr (linuxNetlinkClient kernelLib) (Interface cfg) q k = (None, k') \<and> calmKernel cfg k'"
    "q \<in> set (link_addrs k) \<Longrightarrow> \<exists>k'. DeleteIPv4Addr (linuxNetlinkClient kernelLib) (Interface cfg) q k = (None, k') \<and> calmKernel cfg k'"
  using assms
  by (simp_all add: linuxNetlinkClient_def Linux_AddIPv4Addr_def Linux_DeleteIPv4Addr_def kernelLib_def calmKernel_def prefix_IPNet)

lemma kernel_calm:
  assumes k: "calmKernel cfg k" and r: "1 \<le> CIDRSuffix cfg" "CIDRSuffix cfg \<le> 32"
  shows "ipm_List (netlinkManager cfg (linuxNetlinkClient kernelLib)) k = (l, k') \<Longrightarrow> \<not> isl l \<and> calmKernel cfg k'"
    "Is4 a \<Longrightarrow> ipm_EnsurePresent (netlinkManager cfg (linuxNetlinkClient kernelLib)) a k = (p, k') \<Longrightarrow> \<not> isl p \<and> calmKernel cfg k'"
    "Is4 a \<Longrightarrow> ipm_EnsureAbsent (netlinkManager cfg (linuxNetlinkClient kernelLib)) a k = (p, k') \<Longrightarrow> \<not> isl p \<and> calmKernel cfg k'"
proof -
  obtain xs where xs: "Netlink_List cfg (linuxNetlinkClient kernelLib) k = (Inr xs, k)"
    "\<forall>a. a \<in> set xs \<longleftrightarrow> Is4 a \<and> PrefixFrom a (CIDRSuffix cfg) \<in> set (link_addrs k)"
    using kernel_list [OF k r] by (elim exE conjE)
  have v: "Is4 a \<Longrightarrow> validPrefix (PrefixFrom a (CIDRSuffix cfg))" for a
    using r by (simp add: validPrefix_def PrefixFrom_def)
  show "ipm_List (netlinkManager cfg (linuxNetlinkClient kernelLib)) k = (l, k') \<Longrightarrow> \<not> isl l \<and> calmKernel cfg k'"
    using xs(1) k by (auto simp: netlinkManager_def)
  show "\<not> isl p \<and> calmKernel cfg k'"
    if a: "Is4 a" and e: "ipm_EnsurePresent (netlinkManager cfg (linuxNetlinkClient kernelLib)) a k = (p, k')"
  proof (cases "a \<in> set xs")
    case True
    then show ?thesis using e a k xs(1) by (auto simp: netlinkManager_def Netlink_EnsurePresent_def)
  next
    case False
    then have q: "PrefixFrom a (CIDRSuffix cfg) \<notin> set (link_addrs k)" using xs(2) a by blast
    obtain k1 where "AddIPv4Addr (linuxNetlinkClient kernelLib) (Interface cfg) (PrefixFrom a (CIDRSuffix cfg)) k = (None, k1)"
      "calmKernel cfg k1" using kernel_changes(1) [OF k v [OF a] q] by (elim exE conjE)
    then show ?thesis using False e a xs(1) by (auto simp: netlinkManager_def Netlink_EnsurePresent_def)
  qed
  show "\<not> isl p \<and> calmKernel cfg k'"
    if a: "Is4 a" and e: "ipm_EnsureAbsent (netlinkManager cfg (linuxNetlinkClient kernelLib)) a k = (p, k')"
  proof (cases "a \<in> set xs")
    case False
    then show ?thesis using e a k xs(1) by (auto simp: netlinkManager_def Netlink_EnsureAbsent_def)
  next
    case True
    then have q: "PrefixFrom a (CIDRSuffix cfg) \<in> set (link_addrs k)" using xs(2) a by blast
    obtain k1 where "DeleteIPv4Addr (linuxNetlinkClient kernelLib) (Interface cfg) (PrefixFrom a (CIDRSuffix cfg)) k = (None, k1)"
      "calmKernel cfg k1" using kernel_changes(2) [OF k v [OF a] q] by (elim exE conjE)
    then show ?thesis using True e a xs(1) by (auto simp: netlinkManager_def Netlink_EnsureAbsent_def)
  qed
qed

section \<open>Calm files\<close>

text \<open>The names \<open>os.CreateTemp\<close> may choose for a candidate.\<close>

definition candidateName :: "apply_config \<Rightarrow> os \<Rightarrow> nat \<Rightarrow> string" where
  "candidateName cfg w n =
     (let dir = Dir (ConfigPath cfg) in
      (if suffix ''/'' dir then dir else dir @ ''/'') @ (Base (ConfigPath cfg) @ ''.tmp-'') @ random w n)"

definition calmOs :: "apply_config \<Rightarrow> os \<Rightarrow> bool" where
  "calmOs cfg w \<longleftrightarrow> fault w = (\<lambda>_. None) \<and> os_ok w \<and> nodes w (ConfigPath cfg) \<noteq> Some Directory \<and>
     (\<forall>d. nodes w (Dir (ConfigPath cfg)) \<noteq> Some (File d)) \<and> (\<forall>n. nodes w (candidateName cfg w n) = None)"

lemma candidateName_ne:
  assumes "os_ok w"
  shows "candidateName cfg w n \<noteq> ConfigPath cfg" "candidateName cfg w n \<noteq> Dir (ConfigPath cfg)"
proof -
  let ?dir = "Dir (ConfigPath cfg)"
  obtain d where d: "(if suffix ''/'' ?dir then ?dir else ?dir @ ''/'') = d @ ''/''"
    by (cases "suffix ''/'' ?dir") (auto simp: suffix_def)
  then show "candidateName cfg w n \<noteq> ConfigPath cfg"
    using candidate_ne [of "random w n" d "ConfigPath cfg"] assms by (simp add: candidateName_def Let_def os_ok_def)
  have "length (candidateName cfg w n) > length ?dir" by (simp add: candidateName_def Let_def)
  then show "candidateName cfg w n \<noteq> ?dir" by (metis less_irrefl)
qed

lemma candidateName_oracles: "oracles w' = oracles w \<Longrightarrow> candidateName cfg w' n = candidateName cfg w n"
  by (simp add: candidateName_def oracles_def)

lemma writeCandidate_calm:
  assumes c: "calmOs cfg w"
  shows "\<exists>n w'. writeCandidateFile (ConfigPath cfg) d w = (Inr (candidateName cfg w n), w') \<and> oracles w' = oracles w \<and>
    nodes w' = (nodes w)(Dir (ConfigPath cfg) \<mapsto> Directory, candidateName cfg w n \<mapsto> File d)"
proof -
  let ?dir = "Dir (ConfigPath cfg)" and ?n = "Suc (calls w)"
  have f: "fault w = (\<lambda>_. None)" and o: "os_ok w" using c by (simp_all add: calmOs_def)
  define w1 where "w1 = w\<lparr>calls := Suc (calls w), nodes := (nodes w)(?dir \<mapsto> Directory)\<rparr>"
  have mk: "os_MkdirAll ?dir w = (None, w1)"
    using c by (cases "nodes w ?dir"; cases "the (nodes w ?dir)")
      (auto simp: calmOs_def os_MkdirAll_def syscall_def w1_def fun_upd_idem)
  have cn: "nodes w1 (candidateName cfg w ?n) = None"
    using c candidateName_ne(2) [OF o, of cfg ?n] by (simp add: calmOs_def w1_def)
  define w2 where "w2 = w1\<lparr>calls := Suc ?n, nodes := (nodes w1)(candidateName cfg w ?n \<mapsto> File [])\<rparr>"
  have ct: "os_CreateTemp ?dir (Base (ConfigPath cfg) @ ''.tmp-'') w1 = (Inr (candidateName cfg w ?n), w2)"
    using cn f by (simp add: os_CreateTemp_def syscall_def candidateName_def Let_def w1_def w2_def)
  have "fault w2 = (\<lambda>_. None)" using f by (simp add: w1_def w2_def)
  then show ?thesis
    using mk ct by (intro exI [of _ ?n]) (simp add: writeCandidateFile_def quiet_syscalls oracles_def w1_def w2_def)
qed

text \<open>Commands that succeed.\<close>

definition obliging :: "apply_config \<Rightarrow> os os_exec \<Rightarrow> bool" where
  "obliging cfg exec \<longleftrightarrow> exec_frame exec \<and>
     (\<forall>p w. fst (runCommand exec (ValidateCommand cfg) p w) = None \<and> fst (runCommand exec (ReloadCommand cfg) p w) = None)"

lemma applyRendered_calm:
  assumes c: "calmOs cfg w" and x: "obliging cfg exec" and p: "Dir (ConfigPath cfg) \<noteq> ConfigPath cfg"
    and e: "applyRenderedConfig cfg exec d reload w = (r, w')"
  shows "\<not> isl r \<and> calmOs cfg w'"
proof -
  let ?p = "ConfigPath cfg" and ?dir = "Dir (ConfigPath cfg)"
  have f: "fault w = (\<lambda>_. None)" and o: "os_ok w" using c by (simp_all add: calmOs_def)
  obtain r0 w0 where 0: "renderedConfigMatchesCurrentFile ?p d w = (r0, w0)" by force
  have R: "nodes w0 = nodes w" "oracles w0 = oracles w" using matches_cases(1,2) [OF 0] by simp_all
  have c0: "calmOs cfg w0"
    using c R os_ok_oracles [OF R(2)] candidateName_oracles [OF R(2)] by (auto simp: calmOs_def oracles_def)
  obtain b where b: "r0 = Inr b"
    using 0 c f by (auto simp: renderedConfigMatchesCurrentFile_def os_ReadFile_def syscall_def calmOs_def
        split: option.splits node.splits)
  show ?thesis
  proof (cases b)
    case True
    then show ?thesis using e 0 b c0 by (auto simp: applyRenderedConfig_def)
  next
    case False
    obtain n w1 where 1: "writeCandidateFile ?p d w0 = (Inr (candidateName cfg w0 n), w1)" "oracles w1 = oracles w0"
      "nodes w1 = (nodes w0)(?dir \<mapsto> Directory, candidateName cfg w0 n \<mapsto> File d)"
      using writeCandidate_calm [OF c0] by blast
    let ?c = "candidateName cfg w0 n"
    have o0: "os_ok w0" using c0 by (simp add: calmOs_def)
    note ne = candidateName_ne [OF o0]
    have x': "exec_frame exec" and v: "fst (runCommand exec (ValidateCommand cfg) q v) = None"
      "fst (runCommand exec (ReloadCommand cfg) q v) = None" for q v using x by (simp_all add: obliging_def)
    obtain w2 where 2: "runCommand exec (ValidateCommand cfg) ?c w1 = (None, w2)" using v(1) by (metis prod.collapse)
    have g2: "nodes w2 = nodes w1" "oracles w2 = oracles w1"
      using runCommand_frame [OF x', of "ValidateCommand cfg" ?c w1] 2 by simp_all
    have f2: "fault w2 = (\<lambda>_. None)" using g2(2) 1(2) R(2) f by (simp add: oracles_def)
    obtain r3 w3 where 3: "os_Rename ?c ?p w2 = (r3, w3)" by force
    have n2: "nodes w2 ?c = Some (File d)" "nodes w2 ?p \<noteq> Some Directory"
      using g2(1) 1(3) ne c0 p by (simp_all add: calmOs_def)
    then have 3: "os_Rename ?c ?p w2 = (None, w3)" "oracles w3 = oracles w2" "nodes w3 = (nodes w2)(?c := None, ?p \<mapsto> File d)"
      using 3 f2 by (auto simp: os_Rename_def syscall_def oracles_def)
    have f3: "fault w3 = (\<lambda>_. None)" using 3(2) f2 by (simp add: oracles_def)
    obtain w4 where 4: "syncPath w3 = (None, w4)"
      using f3 by (simp add: syncPath_def quiet_syscalls)
    have g4: "nodes w4 = nodes w3" "oracles w4 = oracles w3" using syncPath_frame [of w3] 4 by simp_all
    obtain w5 where 5: "runCommand exec (ReloadCommand cfg) ?p w4 = (None, w5)" using v(2) by (metis prod.collapse)
    have g5: "nodes w5 = nodes w4" "oracles w5 = oracles w4"
      using runCommand_frame [OF x', of "ReloadCommand cfg" ?p w4] 5 by simp_all
    have res: "r = Inr True" "w' = (if reload then w5 else w4)"
      using e 0 b False 1(1) 2 3(1) 4 5 by (auto simp: applyRenderedConfig_def split: if_splits)
    then have N: "nodes w' = (nodes w0)(?dir \<mapsto> Directory, ?c := None, ?p \<mapsto> File d)"
      and O: "oracles w' = oracles w0"
      using g5 g4 3(2,3) g2 1(2,3) by auto
    have "calmOs cfg w'"
      using c0 N p ne os_ok_oracles [OF O] O candidateName_oracles [OF O] by (auto simp: calmOs_def oracles_def)
    then show ?thesis using res(1) by simp
  qed
qed

lemma applier_calm:
  assumes "calmOs cfg w" "obliging cfg exec" "Dir (ConfigPath cfg) \<noteq> ConfigPath cfg" "Render ss = Inr d"
    and "app_Apply (Applier cfg exec) ss w = (r, w')"
  shows "\<not> isl r \<and> calmOs cfg w'"
  using applyRendered_calm [OF assms(1-3)] assms(4,5) by (simp add: Applier_def Applier_Apply_def)

end
