(* ===== verification/Live.thy ===== *)
theory Live
  imports Calm
begin

text \<open>
  Deployments in which only finitely many calls fail, and that every Service the dataplane
  accepts is served there in the end.
\<close>

section \<open>Which Services the dataplane takes\<close>

text \<open>
  What the controller builds for a Service is valid unless the Service has a port that is
  not TCP or has no positive number: discovery only finds valid backends, and the address
  comes from the pool.
\<close>

lemma built_valid:
  assumes "Is4 a"
  shows "validService (buildProviderService s (AddrString a) (Discover (Some s) slices)) \<longleftrightarrow>
    TrimSpace (ks_Namespace s) \<noteq> [] \<and> TrimSpace (ks_Name s) \<noteq> [] \<and>
    (\<forall>sp \<in> set (spec_Ports s). tcpProtocol (normalizeServiceProtocol (kp_Protocol sp)) \<and> 0 < kp_Port sp)"
proof -
  have "list_all validBackend (pb_Backends pb)" if "pb \<in> set (Discover (Some s) slices)" for pb
    using discover_backends_valid [OF that] by (auto simp: list_all_iff validBackend_def)
  then have "list_all validPort (Ports (buildProviderService s (AddrString a) (Discover (Some s) slices))) \<longleftrightarrow>
      (\<forall>pb \<in> set (Discover (Some s) slices). tcpProtocol (pb_Protocol pb) \<and> 0 < pb_Port pb)"
    by (auto simp: buildProviderService_def list_all_iff validPort_def)
  also have "\<dots> \<longleftrightarrow> (\<forall>sp \<in> set (spec_Ports s). tcpProtocol (normalizeServiceProtocol (kp_Protocol sp)) \<and> 0 < kp_Port sp)"
    by (auto simp: Discover_def)
  finally show ?thesis
    using parse4_AddrString [OF assms] by (simp add: validService_def buildProviderService_def)
qed

section \<open>Live deployments\<close>

locale live_deployment =
  deployment C objs U send "txt" srv m view app active ok p cfg + responsive_api C objs kf ends +
  calm_host m view app active ok calm + retry_link send "serveDataplane txt" srv faults
  for C :: "'k kube_client" and objs :: "'k \<Rightarrow> namespaced_name \<rightharpoonup> kube_service" and U :: finalizer_util
    and send :: "'w http_client" and "txt" :: "request_error \<Rightarrow> string" and srv :: "'w \<Rightarrow> 's dataplane"
    and m :: "'s external_ip_manager" and view :: "'s \<Rightarrow> addr set"
    and app :: "'s config_applier_ops" and active :: "'s \<Rightarrow> string option" and ok :: "'s \<Rightarrow> bool"
    and p :: api_provider and cfg :: controller_config
    and kf :: "'k \<Rightarrow> nat" and ends :: "'k \<Rightarrow> namespaced_name \<Rightarrow> endpoint_slice list"
    and calm :: "'s \<Rightarrow> bool" and faults :: "'w \<Rightarrow> nat" +
  fixes limit :: int
  assumes pool_ne: "IPPool cfg \<noteq> []"

sublocale live_deployment \<subseteq> live: responsive_env "stackReconciler C U send p cfg" objs
  "\<lambda>q. dpStore (dpOf srv q)" apiCanon "\<lambda>q. dpOk m view app ok (dpOf srv q)" legalRef kf ends
  "\<lambda>q. faults (fst q)" "\<lambda>q. dpCalm limit (srv (fst q))" "\<lambda>v. acceptable limit (EnsureReq v)"
proof -
  note T = api_call_tries [OF retry_link_axioms calm_host_axioms _ _ root]
  show "responsive_env (stackReconciler C U send p cfg) objs (\<lambda>q. dpStore (dpOf srv q)) apiCanon
      (\<lambda>q. dpOk m view app ok (dpOf srv q)) legalRef kf ends (\<lambda>q. faults (fst q)) (\<lambda>q. dpCalm limit (srv (fst q)))
      (\<lambda>v. acceptable limit (EnsureReq v))"
  proof (intro responsive_env.intro responsive_env_axioms.intro, unfold stackReconciler_sel)
    show "controller_env (stackReconciler C U send p cfg) objs (\<lambda>q. dpStore (dpOf srv q)) apiCanon
      (\<lambda>q. dpOk m view app ok (dpOf srv q)) legalRef" by (rule controller.controller_env_axioms)
    show "responsive_api C objs kf ends" by (rule responsive_api_axioms)
    show "IPPool cfg \<noteq> []" by (rule pool_ne)
  next
    fix q :: "'w \<times> service_ref list" and mm v y q' mm'
    assume h: "dpCalm limit (srv (fst q))" "acceptable limit (EnsureReq v)"
      "prov_Ensure (WrapProvider (apiOps send p)) v (q, mm) = (y, q', mm')"
    have "Instrumented_Ensure (apiOps send p) v (q, mm) = (y, q', mm')" using h(3) by (simp add: WrapProvider_def)
    then have "prov_Ensure (apiOps send p) v (fst q) = (y, fst q')"
      using WrapProvider_cases(1) [of "apiOps send p" v "fst q"] by (metis prod.collapse)
    then have "apiCall send p (EnsureReq v) (fst q) = (y, fst q')" by (simp add: apiOps_def)
    from T [OF h(1,2) this] show "dpCalm limit (srv (fst q')) \<and> faults (fst q') \<le> faults (fst q) \<and>
      (isl y \<longrightarrow> faults (fst q') < faults (fst q))" .
  next
    fix q :: "'w \<times> service_ref list" and mm ref y q' mm'
    assume h: "dpCalm limit (srv (fst q))" "legalRef ref"
      "prov_Delete (WrapProvider (apiOps send p)) ref (q, mm) = (y, q', mm')"
    have "Instrumented_Delete (apiOps send p) ref (q, mm) = (y, q', mm')" using h(3) by (simp add: WrapProvider_def)
    then have "prov_Delete (apiOps send p) ref (fst q) = (y, fst q')"
      using WrapProvider_delete_cases(1) [of "apiOps send p" ref "fst q"] by (metis prod.collapse)
    then have "apiCall send p (DeleteReq ref) (fst q) = (y, fst q')" by (simp add: apiOps_def)
    from T [OF h(1) _ this] h(2) show "dpCalm limit (srv (fst q')) \<and> faults (fst q') \<le> faults (fst q) \<and>
      (isl y \<longrightarrow> faults (fst q') < faults (fst q))" by simp
  qed
qed

context live_deployment
begin

text \<open>The reconciler retried as often as calls will still fail.\<close>

abbreviation retried ::
  "namespaced_name \<Rightarrow> ('k, 'w \<times> service_ref list) cworld \<Rightarrow>
   (dataplane_error reconcile_error, ctrl_result) result \<times> ('k, 'w \<times> service_ref list) cworld" where
  "retried key w \<equiv> retry (kf (kube w) + faults (fst (prov w))) (stackReconciler C U send p cfg) key w"

lemma retried_completes:
  assumes "dpCalm limit (srv (fst (prov w)))" "noOrphans (absState objs (\<lambda>q. dpStore (dpOf srv q)) w)"
    and "\<And>s. objs (kube w) key = Some s \<Longrightarrow> liveManaged cfg s \<Longrightarrow> live.fits w key s"
  shows "\<exists>d w'. retried key w = (Inr d, w') \<and> dpCalm limit (srv (fst (prov w'))) \<and> live.completed key w w' d"
proof -
  have "live.prepared key w" using assms unfolding live.prepared_def stackReconciler_sel by (simp add: dpOf_def dpCalm_def)
  moreover have "live.rank w \<le> kf (kube w) + faults (fst (prov w))" by (simp add: live.rank_def)
  ultimately show ?thesis using live.retry_completes [of key w] unfolding live.prepared_def by blast
qed

lemma eventually_served:
  assumes d: "dpOk m view app ok (srv (fst (prov w)))" "calm (snd (srv (fst (prov w))))"
      "maxRequestBodyBytes (fst (srv (fst (prov w)))) = limit" "noOrphans (absState objs (\<lambda>q. dpStore (dpOf srv q)) w)"
    and s: "objs (kube w) key = Some s" "liveManaged cfg s"
    and f: "\<forall>a \<in> set (IPPool cfg). acceptable limit
      (EnsureReq (buildProviderService s (AddrString a) (Discover (Some s) (ends (kube w) key))))"
  shows "\<exists>d w'. retried key w = (Inr d, w') \<and>
    (d = 0 \<and> onHost objs srv view cfg key w' \<and> synced view active (srv (fst (prov w'))) \<or>
     d = RequeueAfter cfg \<and> (\<forall>a \<in> set (IPPool cfg). \<not> freeFor cfg key (objs (kube w')) a))"
proof -
  have "live.fits w key s" using f unfolding live.fits_def stackReconciler_sel .
  moreover have "dpCalm limit (srv (fst (prov w)))" using d by (simp add: dpCalm_def)
  ultimately obtain d w' where r: "retried key w = (Inr d, w')" "dpCalm limit (srv (fst (prov w')))" "live.completed key w w' d"
    using retried_completes [of w key] d(4) s by auto
  have ok: "dpOk m view app ok (srv (fst (prov w')))" using r(2) by (simp add: dpCalm_def)
  have "live.settled key w' d" using r(3) s unfolding live.completed_def by simp
  then consider "d = 0" "controller.served key w'"
    | "d = RequeueAfter cfg" "\<forall>a \<in> set (IPPool cfg). \<not> freeFor cfg key (objs (kube w')) a"
    unfolding live.settled_def stackReconciler_sel by blast
  then show ?thesis
  proof cases
    case 1
    then obtain t v a where h: "objs (kube w') key = Some t" "a \<in> set (IPPool cfg)"
      "LoadBalancerIngressEqual (status_Ingress t) (DesiredLoadBalancerIngress (AddrString a))"
      "snd (controller.abs w') (refOf key) = Some v" "ExternalIP v = AddrString a"
      and j: "justEnsured (WrapProvider (apiOps send p)) (\<lambda>q. dpOk m view app ok (dpOf srv q)) (refOf key) (prov w')"
      unfolding stackReconciler_sel by blast
    have "dpStore (srv (fst (prov w'))) (refOf key) = Some v" using h(4) by (simp add: absState_def dpOf_def)
    then have "onHost objs srv view cfg key w' \<and> synced view active (srv (fst (prov w')))"
      using served_on_host [OF ok h(1-3) _ h(5) j] by blast
    then show ?thesis using r(1) 1 by blast
  next
    case 2
    then show ?thesis using r(1) by blast
  qed
qed

lemma eventually_released:
  assumes d: "dpOk m view app ok (srv (fst (prov w)))" "calm (snd (srv (fst (prov w))))"
      "maxRequestBodyBytes (fst (srv (fst (prov w)))) = limit" "noOrphans (absState objs (\<lambda>q. dpStore (dpOf srv q)) w)"
    and s: "objs (kube w) key = Some s" "DeletionTimestamp s \<noteq> None"
  shows "\<exists>d w'. retried key w = (Inr d, w') \<and> dpStore (srv (fst (prov w'))) (refOf key) = None \<and>
    (\<forall>t. objs (kube w') key = Some t \<longrightarrow> serviceFinalizer \<notin> set (Finalizers t))"
proof -
  have "dpCalm limit (srv (fst (prov w)))" using d by (simp add: dpCalm_def)
  then obtain d w' where r: "retried key w = (Inr d, w')" "live.completed key w w' d"
    using retried_completes [of w key] d(4) s by (auto simp: liveManaged_def)
  then have "released objs (\<lambda>q. dpStore (dpOf srv q)) key w'" using s unfolding live.completed_def by simp
  then show ?thesis using r(1) by (simp add: released_def absState_def dpOf_def)
qed

end

section \<open>A live deployment\<close>

text \<open>An API server with a schedule: each call uses up the next entry, and fails when that is \<open>False\<close>.\<close>

type_synonym scheduled = "bool list \<times> cluster"

definition scheduledCall :: "(cluster \<Rightarrow> cluster \<times> 'r) \<Rightarrow> scheduled \<Rightarrow> scheduled \<times> 'r" where
  "scheduledCall f w = (case f (snd w\<lparr>cl_answers := (fst w = [] \<or> hd (fst w))\<rparr>) of (k, r) \<Rightarrow> ((tl (fst w), k), r))"

definition scheduledClient :: "scheduled kube_client" where
  "scheduledClient = \<lparr>
     client_Get = (\<lambda>key. scheduledCall (client_Get clusterClient key)),
     client_ListServices = scheduledCall (client_ListServices clusterClient),
     client_ListEndpointSlices = (\<lambda>ns name. scheduledCall (client_ListEndpointSlices clusterClient ns name)),
     client_StatusUpdate = (\<lambda>s. scheduledCall (client_StatusUpdate clusterClient s)),
     client_Patch = (\<lambda>s t. scheduledCall (client_Patch clusterClient s t))\<rparr>"

definition scheduledObjs :: "scheduled \<Rightarrow> namespaced_name \<rightharpoonup> kube_service" where
  "scheduledObjs w = clusterObjs (snd w)"

definition scheduledFailures :: "scheduled \<Rightarrow> nat" where
  "scheduledFailures w = length (filter Not (fst w))"

definition scheduledSlices :: "scheduled \<Rightarrow> namespaced_name \<Rightarrow> endpoint_slice list" where
  "scheduledSlices w key =
     filter (\<lambda>sl. es_Namespace sl = fst key \<and> label (es_Labels sl) LabelServiceName = snd key) (cl_slices (snd w))"

lemma clusterObjs_answers [simp]: "clusterObjs (k\<lparr>cl_answers := b\<rparr>) = clusterObjs k"
  by (simp add: clusterObjs_def fun_eq_iff)

lemma scheduledCall_cases:
  assumes "scheduledCall f w = (w', r)"
  obtains b k where "f (snd w\<lparr>cl_answers := b\<rparr>) = (k, r)" "w' = (tl (fst w), k)"
    "scheduledFailures w' \<le> scheduledFailures w" "\<not> b \<Longrightarrow> scheduledFailures w' < scheduledFailures w"
proof -
  let ?b = "fst w = [] \<or> hd (fst w)"
  obtain k where k: "f (snd w\<lparr>cl_answers := ?b\<rparr>) = (k, r)" "w' = (tl (fst w), k)"
    using assms by (auto simp: scheduledCall_def split: prod.splits)
  have "scheduledFailures w' \<le> scheduledFailures w" "\<not> ?b \<Longrightarrow> scheduledFailures w' < scheduledFailures w"
    using k(2) by (cases "fst w"; auto simp: scheduledFailures_def)+
  with that [OF k] show ?thesis by blast
qed

interpretation scheduledserver: kube_api scheduledClient scheduledObjs
proof (unfold_locales, goal_cases)
  case (1 k key s)
  then show ?case using apiserver.stored_key by (simp add: scheduledObjs_def)
next
  case (2 key k k' g)
  then show ?case using apiserver.get_state
    by (fastforce simp: scheduledClient_def scheduledObjs_def elim!: scheduledCall_cases)
next
  case (3 key k k' s)
  then show ?case using apiserver.get_found
    by (fastforce simp: scheduledClient_def scheduledObjs_def elim!: scheduledCall_cases)
next
  case (4 key k k')
  then show ?case using apiserver.get_missing
    by (fastforce simp: scheduledClient_def scheduledObjs_def elim!: scheduledCall_cases)
next
  case (5 k k' l)
  then show ?case using apiserver.list_state
    by (fastforce simp: scheduledClient_def scheduledObjs_def elim!: scheduledCall_cases)
next
  case (6 k k' ss)
  then show ?case using apiserver.list_fresh
    by (fastforce simp: scheduledClient_def scheduledObjs_def elim!: scheduledCall_cases)
next
  case (7 ns name k k' sl)
  then show ?case using apiserver.slices_state
    by (fastforce simp: scheduledClient_def scheduledObjs_def elim!: scheduledCall_cases)
next
  case (8 s k k' t)
  then show ?case using apiserver.status_ok
    by (fastforce simp: scheduledClient_def scheduledObjs_def elim!: scheduledCall_cases)
next
  case (9 s k k' e)
  then show ?case using apiserver.status_err
    by (fastforce simp: scheduledClient_def scheduledObjs_def elim!: scheduledCall_cases)
next
  case (10 s fs k k' t)
  then show ?case using apiserver.patch_ok
    by (fastforce simp: scheduledClient_def scheduledObjs_def elim!: scheduledCall_cases)
next
  case (11 s t k k' e)
  then show ?case using apiserver.patch_err
    by (fastforce simp: scheduledClient_def scheduledObjs_def elim!: scheduledCall_cases)
qed

lemma slices_kept [simp]: "cl_slices (putService s k) = cl_slices k" "cl_slices (dropService key k) = cl_slices k"
  by (simp_all add: putService_def dropService_def)

lemma scheduled_tried:
  assumes "scheduledCall f w = (w', r)"
    and "\<And>b k. f (snd w\<lparr>cl_answers := b\<rparr>) = (k, r) \<Longrightarrow> cl_slices k = cl_slices (snd w) \<and> (failed \<longrightarrow> \<not> b)"
  shows "tried scheduledFailures scheduledSlices w w' failed"
  using assms(1)
proof (cases rule: scheduledCall_cases)
  case (1 b k)
  with assms(2) [OF 1(1)] show ?thesis by (auto simp: tried_def scheduledSlices_def)
qed

interpretation scheduledserver: responsive_api scheduledClient scheduledObjs scheduledFailures scheduledSlices
proof (unfold_locales, goal_cases)
  case (1 key k k' x)
  then show ?case
    by (intro scheduled_tried [of "client_Get clusterClient key"])
      (auto simp: scheduledClient_def clusterClient_def split: option.splits)
next
  case (2 k k' l)
  then show ?case
    by (intro scheduled_tried [of "client_ListServices clusterClient"])
      (auto simp: scheduledClient_def clusterClient_def)
next
  case (3 ns name k k' sl)
  have "tried scheduledFailures scheduledSlices k k' (isl sl)"
    using 3 by (intro scheduled_tried [of "client_ListEndpointSlices clusterClient ns name"])
      (auto simp: scheduledClient_def clusterClient_def)
  moreover have "sl = Inr y \<longrightarrow> y = scheduledSlices k (ns, name)" for y
    using 3 by (auto simp: scheduledClient_def clusterClient_def scheduledCall_def scheduledSlices_def split: if_splits)
  ultimately show ?case by blast
next
  case (4 s k k' x)
  then show ?case
    by (intro scheduled_tried [of "client_StatusUpdate clusterClient s"])
      (auto simp: scheduledClient_def clusterClient_def scheduledObjs_def Let_def split: if_splits option.splits)
next
  case (5 s t k k' x)
  then show ?case
    by (intro scheduled_tried [of "client_Patch clusterClient s t"])
      (auto simp: scheduledClient_def clusterClient_def scheduledObjs_def Let_def split: if_splits option.splits)
qed

text \<open>The link of \<open>Dataplane_Link\<close> fails at most as often as it has fates left.\<close>

interpretation faultycount: retry_link "faultyLink (serveDataplane txt)" "serveDataplane txt" snd "\<lambda>w. length (fst w)" for "txt"
proof (unfold_locales, goal_cases)
  case (1 meth u b ct w x w')
  obtain fs s where w: "w = (fs, s)" by (rule prod.exhaust)
  from 1(2) show ?case
    by (cases fs; cases "hd fs") (auto simp: w faultyLink_def answer_def split: prod.splits option.splits)
qed

text \<open>The sample host is calm.\<close>

lemma fieldsFrom_ne: "cur \<noteq> [] \<Longrightarrow> fieldsFrom cur s \<noteq> []"
  by (induction cur s rule: fieldsFrom.induct) (auto simp: Let_def)

lemma Fields_ne: "leading spaceRunes (c # s) = 0 \<Longrightarrow> Fields (c # s) \<noteq> []"
  by (simp add: Fields_def fieldsFrom_ne)

lemma quiet_command:
  assumes "ReplaceAll (TrimSpace c) configPlaceholder q = h # t" "plain h"
  shows "fst (runCommand quietExec c q w) = None"
proof -
  have "leading spaceRunes (h # t) = 0"
    using assms(2) unfolding leading_0_iff [OF spaceRunes_ne(1)] by (auto simp: spaceRunes_def plain_def)
  then show ?thesis using assms Fields_ne by (auto simp: runCommand_def quietExec_def Let_def)
qed

lemma sampleApply_obliging: "obliging sampleApply quietExec"
proof -
  have t: "TrimSpace ''haproxy -c -f {{config}}'' = ''haproxy -c -f {{config}}''" "TrimSpace ''reload-haproxy'' = ''reload-haproxy''"
    "plain CHR ''h''" "plain CHR ''r''" by code_simp+
  have "fst (runCommand quietExec (ValidateCommand sampleApply) q w) = None"
    "fst (runCommand quietExec (ReloadCommand sampleApply) q w) = None" for q and w :: os
    by (rule quiet_command [where h = "CHR ''h''" and t = "''aproxy -c -f '' @ q"] quiet_command [where h = "CHR ''r''" and t = "''eload-haproxy''"];
        simp add: sampleApply_def t configPlaceholder_def)+
  then show ?thesis using quietExec_frame by (simp add: obliging_def)
qed

definition calmHost :: "kernel \<times> os \<Rightarrow> bool" where
  "calmHost w \<longleftrightarrow> calmKernel sampleAttach (fst w) \<and> calmOs sampleApply (snd w)"

interpretation calmhost: calm_host hostManager hostView hostApplier
  "\<lambda>w. activeConfig sampleApply (snd w)" "\<lambda>w. os_ok (snd w)" calmHost
proof -
  have r: "1 \<le> CIDRSuffix sampleAttach" "CIDRSuffix sampleAttach \<le> 32"
    by (simp_all add: sampleAttach_def DefaultCIDRSuffix_def)
  have "calm_host_axioms hostManager hostView hostApplier calmHost"
  proof (unfold_locales, goal_cases)
    case (1 w l w')
    then show ?case using kernel_calm(1) [OF _ r] by (auto simp: calmHost_def hostManager_def managerOnHost_def onFst_eq)
  next
    case (2 a w)
    then show ?case by (simp add: hostView_def managedView_def)
  next
    case (3 w a p w')
    then show ?case using kernel_calm(2) [OF _ r] by (auto simp: calmHost_def hostManager_def managerOnHost_def onFst_eq)
  next
    case (4 w a p w')
    then show ?case using kernel_calm(3) [OF _ r] by (auto simp: calmHost_def hostManager_def managerOnHost_def onFst_eq)
  next
    case (5 w ss d x w')
    then show ?case using applier_calm [OF _ sampleApply_obliging sampleApply_path]
      by (auto simp: calmHost_def hostApplier_def applierOnHost_def onSnd_eq)
  qed
  then show "calm_host hostManager hostView hostApplier (\<lambda>w. activeConfig sampleApply (snd w)) (\<lambda>w. os_ok (snd w)) calmHost"
    by (intro calm_host.intro host.engine_attach_axioms)
qed

interpretation livedep: live_deployment scheduledClient scheduledObjs listFinalizers sampleSend "\<lambda>_. []" snd
  hostManager hostView hostApplier "\<lambda>w. activeConfig sampleApply (snd w)" "\<lambda>w. os_ok (snd w)" sampleProvider sampleConfig
  scheduledFailures scheduledSlices calmHost "\<lambda>w. length (fst w)" DefaultMaxRequestBodyBytes
proof -
  have "deployment_axioms scheduledObjs sampleProvider sampleConfig"
    using clusterObjs_dns dnsLabel_legal sample_legal(1)
    by (auto simp: deployment_axioms_def legalRef_def refOf_def sampleConfig_def scheduledObjs_def)
  then have "deployment scheduledClient scheduledObjs listFinalizers sampleSend (\<lambda>_. []) snd
    hostManager hostView hostApplier (\<lambda>w. activeConfig sampleApply (snd w)) (\<lambda>w. os_ok (snd w)) sampleProvider sampleConfig"
    unfolding deployment_def sampleSend_def
    using scheduledserver.kube_api_axioms listfin.finalizer_laws_axioms faulty.http_link_axioms host.engine_attach_axioms
    by blast
  then show "live_deployment scheduledClient scheduledObjs listFinalizers sampleSend (\<lambda>_. []) snd
    hostManager hostView hostApplier (\<lambda>w. activeConfig sampleApply (snd w)) (\<lambda>w. os_ok (snd w)) sampleProvider sampleConfig
    scheduledFailures scheduledSlices calmHost (\<lambda>w. length (fst w))"
    unfolding live_deployment_def live_deployment_axioms_def sampleSend_def
    using scheduledserver.responsive_api_axioms calmhost.calm_host_axioms faultycount.retry_link_axioms
    by (simp add: sampleConfig_def)
qed

text \<open>The sample host, with Services, failures of the API and losses of the network to come.\<close>

definition liveWorld ::
  "kube_service list \<Rightarrow> bool list \<Rightarrow> fate list \<Rightarrow> (scheduled, (fate list \<times> (kernel \<times> os) dataplane) \<times> service_ref list) cworld" where
  "liveWorld ss bs fs = \<lparr>kube = (bs, sampleCluster ss), prov = ((fs, hostDataplane), []), met = noMetrics\<rparr>"

abbreviation liveStack ::
  "(scheduled, (fate list \<times> (kernel \<times> os) dataplane) \<times> service_ref list, dataplane_error) reconciler" where
  "liveStack \<equiv> stackReconciler scheduledClient listFinalizers sampleSend sampleProvider sampleConfig"

lemma hostWorld_calm: "calmHost hostWorld"
  using sampleOs_ok
  by (simp add: calmHost_def hostWorld_def calmKernel_def calmOs_def sampleOs_def sampleKernel_def sampleAttach_def)

lemma liveWorld_start:
  "dpOk hostManager hostView hostApplier (\<lambda>w. os_ok (snd w)) (snd (fst (prov (liveWorld ss bs fs))))"
  "calmHost (snd (snd (fst (prov (liveWorld ss bs fs)))))"
  "maxRequestBodyBytes (fst (snd (fst (prov (liveWorld ss bs fs))))) = DefaultMaxRequestBodyBytes"
  "noOrphans (absState scheduledObjs (\<lambda>q. dpStore (dpOf snd q)) (liveWorld ss bs fs))"
  using hostDataplane_ok hostWorld_calm ds.get_empty
  by (simp_all add: liveWorld_def hostDataplane_def NewHandler_def noOrphans_def orphans_def absState_def dpOf_def
      dpStore_def hostEngine_def del: Store_Get_map_of)

lemma shop_acceptable:
  "a \<in> set (IPPool sampleConfig) \<Longrightarrow>
   acceptable DefaultMaxRequestBodyBytes (EnsureReq (buildProviderService shop (AddrString a) (Discover (Some shop) [])))"
proof -
  let ?v = "\<lambda>a. buildProviderService shop (AddrString a) (Discover (Some shop) [])"
  have "\<forall>a \<in> set (IPPool sampleConfig). int32Ports (?v a) \<and> readService (?v a) = ?v a \<and> ValidateService (?v a) = None \<and>
    int (length (encode (servicePayloadFromService (?v a)))) \<le> DefaultMaxRequestBodyBytes" by code_simp
  moreover have "legalRef (Ref (?v a))" by (simp add: legalRef_def legalName_def buildProviderService_def Ref_def sampleKubeService_def)
  moreover assume "a \<in> set (IPPool sampleConfig)"
  ultimately show ?thesis by (simp add: ValidateService_None)
qed

end
