(* ===== verification/Exec_Attach.thy ===== *)
theory Exec_Attach
  imports Ip_Attach
begin

text \<open>
  The attachment backend over the \<open>ip\<close> command (\<open>internal/dataplane/ipattach/exec.go\<close>, modelled
  in \<open>Ip_Attach\<close>) does what the netlink backend does: it is the netlink manager over a
  client that runs the commands, up to the texts of errors.  Where the command lists and
  changes an address table as \<open>ip-address(8)\<close> documents, it meets the contract the engine
  relies on.
\<close>

section \<open>The commands as a netlink client\<close>

text \<open>The prefixes that a listing shows, whatever their length.\<close>

fun linePrefix :: "string list \<Rightarrow> (string, ip_prefix list) result" where
  "linePrefix (field # next # rest) =
     (if field \<noteq> ''inet'' then linePrefix (next # rest)
      else case ParsePrefix next of None \<Rightarrow> Inl next | Some q \<Rightarrow> Inr [q])"
| "linePrefix _ = Inr []"

fun linePrefixes :: "string list \<Rightarrow> (string, ip_prefix list) result" where
  "linePrefixes [] = Inr []"
| "linePrefixes (line # lines) =
     (if TrimSpace line = [] then linePrefixes lines
      else case linePrefix (Fields line) of
          Inl err \<Rightarrow> Inl err
        | Inr found \<Rightarrow> (case linePrefixes lines of Inl err \<Rightarrow> Inl err | Inr qs \<Rightarrow> Inr (found @ qs)))"

definition listedPrefixes :: "string \<Rightarrow> (string, ip_prefix list) result" where
  "listedPrefixes output = linePrefixes (Split CHR 0x0A (TrimSpace output))"

definition prefixText :: "ip_prefix \<Rightarrow> string" where
  "prefixText q = AddrString (fst q) @ ''/'' @ FormatInt (int (snd q))"

abbreviation showArgs :: "string \<Rightarrow> string list" where
  "showArgs i \<equiv> [''-4'', ''-o'', ''addr'', ''show'', ''dev'', i]"

definition commandClient :: "attach_config \<Rightarrow> 'w runner \<Rightarrow> 'w netlink_client" where
  "commandClient cfg runner = \<lparr>
     ListIPv4Addrs = (\<lambda>i w. case runner (CommandPath cfg) (showArgs i) w of
         ((output, Some err), w) \<Rightarrow> (Inl (ListIPv4Failed i err), w)
       | ((output, None), w) \<Rightarrow>
           (case listedPrefixes output of Inl err \<Rightarrow> (Inl (ListIPv4Failed i err), w) | Inr qs \<Rightarrow> (Inr qs, w))),
     AddIPv4Addr = (\<lambda>i q w. case runner (CommandPath cfg) [''addr'', ''add'', prefixText q, ''dev'', i] w of
         ((output, err), w) \<Rightarrow> (map_option (AddFailed q i) err, w)),
     DeleteIPv4Addr = (\<lambda>i q w. case runner (CommandPath cfg) [''addr'', ''del'', prefixText q, ''dev'', i] w of
         ((output, err), w) \<Rightarrow> (map_option (DeleteFailed q i) err, w))\<rparr>"

lemma commandClient_changes:
  "AddIPv4Addr (commandClient cfg runner) i q w =
     (case runner (CommandPath cfg) [''addr'', ''add'', prefixText q, ''dev'', i] w of
        ((_, err), w) \<Rightarrow> (map_option (AddFailed q i) err, w))"
  "DeleteIPv4Addr (commandClient cfg runner) i q w =
     (case runner (CommandPath cfg) [''addr'', ''del'', prefixText q, ''dev'', i] w of
        ((_, err), w) \<Rightarrow> (map_option (DeleteFailed q i) err, w))"
  by (simp_all add: commandClient_def)

section \<open>Both backends agree\<close>

lemma managedAddrs_append: "managedAddrs k (xs @ ys) = managedAddrs k xs @ managedAddrs k ys"
  by (simp add: managedAddrs_def)

lemma lineAddr_prefix: "succeeded (lineAddr k fs) = map_option (managedAddrs k) (succeeded (linePrefix fs))"
  by (induction k fs rule: lineAddr.induct) (auto simp: managedAddrs_def split: option.splits)

lemma parseLines_prefixes: "succeeded (parseLines k ls) = map_option (managedAddrs k) (succeeded (linePrefixes ls))"
proof (induction ls)
  case (Cons l ls)
  show ?case
  proof (cases "TrimSpace l = []")
    case False
    show ?thesis
      using False Cons lineAddr_prefix [of k "Fields l"]
      by (cases "lineAddr k (Fields l)"; cases "linePrefix (Fields l)"; cases "parseLines k ls"; cases "linePrefixes ls")
        (simp_all add: managedAddrs_append)
  qed (use Cons in simp)
qed (simp add: managedAddrs_def)

text \<open>The outcome of an operation: its result without the error, and the world it leaves.\<close>

definition outcome :: "('e, 'a) result \<times> 'w \<Rightarrow> 'a option \<times> 'w" where
  "outcome x = (succeeded (fst x), snd x)"

lemma outcome_pair [simp]: "outcome (r, w) = (succeeded r, w)"
  by (simp add: outcome_def)

lemma outcome_eq: "outcome x = outcome y \<Longrightarrow> x = (r, w) \<Longrightarrow> \<exists>s. y = (s, w) \<and> succeeded s = succeeded r"
  by (cases y) (auto simp: outcome_def)

lemma exec_list_outcome: "outcome (Exec_List cfg runner w) = outcome (Netlink_List cfg (commandClient cfg runner) w)"
proof -
  obtain out err w1 where r: "runner (CommandPath cfg) (showArgs (Interface cfg)) w = ((out, err), w1)"
    by (metis surj_pair)
  have "succeeded (parseManagedInterfaceAddrs out (CIDRSuffix cfg)) =
      map_option (managedAddrs (CIDRSuffix cfg)) (succeeded (listedPrefixes out))"
    by (simp add: parseManagedInterfaceAddrs_def listedPrefixes_def parseLines_prefixes)
  then show ?thesis
    using r by (cases err; cases "parseManagedInterfaceAddrs out (CIDRSuffix cfg)"; cases "listedPrefixes out")
      (simp_all add: Exec_List_def Netlink_List_def commandClient_def)
qed

lemma cidrText_prefix: "0 \<le> CIDRSuffix cfg \<Longrightarrow> cidrText cfg a = prefixText (PrefixFrom a (CIDRSuffix cfg))"
  by (simp add: cidrText_def prefixText_def PrefixFrom_def)

lemma exec_after_outcome:
  "outcome (ensureExecStateAfterCommand cfg runner a want act err msg w) =
   outcome (ensureNetlinkStateAfterOperation cfg (commandClient cfg runner) a want act e w)"
proof -
  obtain r w1 where r: "Exec_List cfg runner w = (r, w1)" by force
  obtain s where s: "Netlink_List cfg (commandClient cfg runner) w = (s, w1)" "succeeded s = succeeded r"
    using outcome_eq [OF exec_list_outcome r] by blast
  show ?thesis
    using r s by (cases r; cases s) (simp_all add: ensureExecStateAfterCommand_def ensureNetlinkStateAfterOperation_def)
qed

lemma exec_present_outcome:
  assumes "0 \<le> CIDRSuffix cfg"
  shows "outcome (Exec_EnsurePresent cfg runner a w) = outcome (Netlink_EnsurePresent cfg (commandClient cfg runner) a w)"
proof -
  obtain r w1 where r: "Exec_List cfg runner w = (r, w1)" by force
  obtain s where s: "Netlink_List cfg (commandClient cfg runner) w = (s, w1)" "succeeded s = succeeded r"
    using outcome_eq [OF exec_list_outcome r] by blast
  obtain out err w2 where x: "runner (CommandPath cfg) [''addr'', ''add'', cidrText cfg a, ''dev'', Interface cfg] w1 =
      ((out, err), w2)" by (metis surj_pair)
  note t = x [unfolded cidrText_prefix [OF assms]]
  show ?thesis
    using r s x t
    by (cases "validateIPv4Addr a"; cases r; cases s; cases err)
      (auto simp: Exec_EnsurePresent_def Netlink_EnsurePresent_def commandClient_changes intro!: exec_after_outcome)
qed

lemma exec_absent_outcome:
  assumes "0 \<le> CIDRSuffix cfg"
  shows "outcome (Exec_EnsureAbsent cfg runner a w) = outcome (Netlink_EnsureAbsent cfg (commandClient cfg runner) a w)"
proof -
  obtain r w1 where r: "Exec_List cfg runner w = (r, w1)" by force
  obtain s where s: "Netlink_List cfg (commandClient cfg runner) w = (s, w1)" "succeeded s = succeeded r"
    using outcome_eq [OF exec_list_outcome r] by blast
  obtain out err w2 where x: "runner (CommandPath cfg) [''addr'', ''del'', cidrText cfg a, ''dev'', Interface cfg] w1 =
      ((out, err), w2)" by (metis surj_pair)
  note t = x [unfolded cidrText_prefix [OF assms]]
  show ?thesis
    using r s x t
    by (cases "validateIPv4Addr a"; cases r; cases s; cases err)
      (auto simp: Exec_EnsureAbsent_def Netlink_EnsureAbsent_def commandClient_changes intro!: exec_after_outcome)
qed

section \<open>The contract\<close>

lemma manager_transfer:
  assumes l: "\<And>w. outcome (ipm_List m w) = outcome (ipm_List n w)"
    and p: "\<And>a w. outcome (ipm_EnsurePresent m a w) = outcome (ipm_EnsurePresent n a w)"
    and d: "\<And>a w. outcome (ipm_EnsureAbsent m a w) = outcome (ipm_EnsureAbsent n a w)"
    and c: "ip_atomic n view" "ip_attacher n view"
  shows "ip_atomic m view" "ip_attacher m view"
proof -
  have s: "\<exists>s. ipm_List n w = (s, w') \<and> succeeded s = succeeded r" if "ipm_List m w = (r, w')" for w w' r
    by (rule outcome_eq [OF l that])
  have sp: "\<exists>s. ipm_EnsurePresent n a w = (s, w') \<and> succeeded s = succeeded r" if "ipm_EnsurePresent m a w = (r, w')" for a w w' r
    by (rule outcome_eq [OF p that])
  have sd: "\<exists>s. ipm_EnsureAbsent n a w = (s, w') \<and> succeeded s = succeeded r" if "ipm_EnsureAbsent m a w = (r, w')" for a w w' r
    by (rule outcome_eq [OF d that])
  have i: "succeeded x = Some y \<longleftrightarrow> x = Inr y" for x :: "(ip_error, 'c) result" and y by (cases x) auto
  note N = ip_attacher.axioms(1) [OF c(2)]
  show "ip_attacher m view"
  proof (unfold_locales, goal_cases)
    case (1 w xs w') then show ?case using s [of w "Inr xs" w'] ip_manager.list_ok [OF N] by (auto simp: i)
  next
    case (2 w r w') then show ?case using s ip_manager.list_view [OF N] by blast
  next
    case (3 a w q w') then show ?case using sp ip_manager.present_frame [OF N] by blast
  next
    case (4 a w w') then show ?case using sp [of a w "Inr True" w'] ip_manager.present_changed [OF N] by (auto simp: i)
  next
    case (5 a w q w') then show ?case using sd ip_manager.absent_frame [OF N] by blast
  next
    case (6 a w x w') then show ?case using sd [of a w "Inr x" w'] ip_manager.absent_ok [OF N] by (auto simp: i)
  next
    case (7 a w x w') then show ?case using sp [of a w "Inr x" w'] ip_attacher.present_ok [OF c(2)] by (auto simp: i)
  qed
  then have "ip_manager m view" by (rule ip_attacher.axioms(1))
  moreover have "view w' = view w" if h: "ipm_EnsurePresent m a w = (q, w')" "q \<noteq> Inr True" for a w q w'
  proof -
    obtain r where r: "ipm_EnsurePresent n a w = (r, w')" "succeeded r = succeeded q" using sp [OF h(1)] by blast
    have "r \<noteq> Inr True" using r(2) h(2) i by metis
    then show ?thesis using ip_atomic.present_same [OF c(1) r(1)] by blast
  qed
  ultimately show "ip_atomic m view" by (intro ip_atomic.intro ip_atomic_axioms.intro)
qed

text \<open>A line of the listing shows a prefix: it is the word after the first \<open>inet\<close>.\<close>

definition showsPrefix :: "string \<Rightarrow> ip_prefix \<Rightarrow> bool" where
  "showsPrefix line q \<longleftrightarrow>
     (\<exists>pre post. Fields line = pre @ [''inet'', prefixText q] @ post \<and> ''inet'' \<notin> set pre)"

definition lists :: "string \<Rightarrow> ip_prefix list \<Rightarrow> bool" where
  "lists out qs \<longleftrightarrow> list_all2 showsPrefix (filter (\<lambda>l. TrimSpace l \<noteq> []) (Split CHR 0x0A (TrimSpace out))) qs"

text \<open>
  The \<open>ip\<close> command over an address table of the interface.  A command that fails has changed
  nothing, which leaves out a command that is killed after it has done its work.
\<close>

locale ip_command =
  fixes cfg :: attach_config and runner :: "'w runner" and table :: "'w \<Rightarrow> ip_prefix set"
  assumes range: "1 \<le> CIDRSuffix cfg" "CIDRSuffix cfg \<le> 32"
    and table_ipv4: "q \<in> table w \<Longrightarrow> validPrefix q"
    and show_ok: "runner (CommandPath cfg) (showArgs (Interface cfg)) w = ((out, None), w') \<Longrightarrow>
      \<exists>qs. set qs = table w \<and> lists out qs"
    and show_view: "runner (CommandPath cfg) (showArgs (Interface cfg)) w = (x, w') \<Longrightarrow> table w' = table w"
    and add_ok: "validPrefix q \<Longrightarrow>
      runner (CommandPath cfg) [''addr'', ''add'', prefixText q, ''dev'', Interface cfg] w = ((out, None), w') \<Longrightarrow>
      table w' = insert q (table w)"
    and add_err: "runner (CommandPath cfg) [''addr'', ''add'', prefixText q, ''dev'', Interface cfg] w = ((out, Some e), w') \<Longrightarrow>
      table w' = table w"
    and del_ok: "validPrefix q \<Longrightarrow>
      runner (CommandPath cfg) [''addr'', ''del'', prefixText q, ''dev'', Interface cfg] w = ((out, None), w') \<Longrightarrow>
      table w' = table w - {q}"
    and del_err: "runner (CommandPath cfg) [''addr'', ''del'', prefixText q, ''dev'', Interface cfg] w = ((out, Some e), w') \<Longrightarrow>
      table w' = table w"

lemma ParsePrefix_text:
  assumes "validPrefix q"
  shows "ParsePrefix (prefixText q) = Some q"
proof -
  obtain a n where q: "q = (a, n)" "Is4 a" "n \<le> 32" using assms by (cases q) (auto simp: validPrefix_def)
  let ?b = "FormatInt (int n)"
  have d: "list_all isDigit ?b" using itoa_digits by (simp add: FormatInt_def)
  then have ns: "\<forall>c \<in> set (rev ?b). c \<noteq> CHR ''/''" by (auto simp: list_all_iff isDigit_def)
  then have t: "takeWhile (\<lambda>c. c \<noteq> CHR ''/'') (rev ?b @ CHR ''/'' # r) = rev ?b" for r
    using takeWhile_append2 [of "rev ?b" "\<lambda>c. c \<noteq> CHR ''/''" "CHR ''/'' # r"] by simp
  have "\<not> 1 < length ?b" if "n = 0" using that by (simp add: FormatInt_def itoa.simps)
  moreover have "CHR ''1'' \<le> c" if "isDigit c" "c \<noteq> CHR ''0''" for c
  proof (rule ccontr)
    assume "\<not> CHR ''1'' \<le> c"
    then have "byte c = byte CHR ''0''" using that(1) by (simp add: isDigit_def less_eq_char_def)
    then show False using that(2) by (metis of_char_eq_iff)
  qed
  ultimately have hd1: "1 < length ?b \<longrightarrow> CHR ''1'' \<le> hd ?b \<and> hd ?b \<le> CHR ''9''"
    using itoa_pos_no_zero [of n] d by (cases "n = 0"; cases ?b) (auto simp: FormatInt_def isDigit_def)
  have "ParseAddr (AddrString a) = Inr a" using q(2) by (cases a) simp_all
  then show ?thesis
    using q t hd1 by (cases a) (simp_all add: ParsePrefix_def prefixText_def Let_def Atoi_FormatInt)
qed

lemma linePrefix_skip: "''inet'' \<notin> set pre \<Longrightarrow> linePrefix (pre @ ''inet'' # t # post) = linePrefix (''inet'' # t # post)"
proof (induction pre)
  case (Cons f pre)
  then show ?case by (cases pre) auto
qed simp

lemma linePrefix_shown: "showsPrefix l q \<Longrightarrow> validPrefix q \<Longrightarrow> linePrefix (Fields l) = Inr [q]"
  using linePrefix_skip ParsePrefix_text by (fastforce simp: showsPrefix_def)

lemma linePrefixes_shown:
  "list_all2 showsPrefix (filter (\<lambda>l. TrimSpace l \<noteq> []) ls) qs \<Longrightarrow> list_all validPrefix qs \<Longrightarrow> linePrefixes ls = Inr qs"
proof (induction ls arbitrary: qs)
  case (Cons l ls)
  show ?case
  proof (cases "TrimSpace l = []")
    case False
    with Cons.prems obtain q qs' where "qs = q # qs'" "showsPrefix l q" "validPrefix q"
      "list_all2 showsPrefix (filter (\<lambda>l. TrimSpace l \<noteq> []) ls) qs'" "list_all validPrefix qs'"
      by (auto simp: list_all2_Cons1)
    then show ?thesis using Cons.IH False linePrefix_shown by simp
  qed (use Cons in simp)
qed simp

sublocale ip_command \<subseteq> client: netlink_acknowledged cfg "commandClient cfg runner" table
proof (unfold_locales, goal_cases)
  case (3 w ps w')
  then obtain out where o: "runner (CommandPath cfg) (showArgs (Interface cfg)) w = ((out, None), w')"
    "listedPrefixes out = Inr ps"
    by (auto simp: commandClient_def split: prod.splits option.splits sum.splits)
  from show_ok [OF o(1)] obtain qs where qs: "set qs = table w" "lists out qs" by blast
  have "list_all validPrefix qs" using qs(1) table_ipv4 by (auto simp: list_all_iff)
  then have "listedPrefixes out = Inr qs" using qs(2) linePrefixes_shown by (simp add: listedPrefixes_def lists_def)
  then show ?case using o(2) qs(1) by simp
next
  case (4 w r w') then show ?case using show_view
    by (auto simp: commandClient_def split: prod.splits option.splits sum.splits)
next
  case (5 q w w') then show ?case using add_ok [of q w] by (auto simp: commandClient_changes split: prod.splits)
next
  case (6 q w e w') then show ?case using add_err [of q w] by (auto simp: commandClient_changes split: prod.splits)
next
  case (7 q w w') then show ?case using del_ok [of q w] by (auto simp: commandClient_changes split: prod.splits)
next
  case (8 q w e w') then show ?case using del_err [of q w] by (auto simp: commandClient_changes split: prod.splits)
next
  case (9 q w e w') then show ?case using add_err [of q w] by (auto simp: commandClient_changes split: prod.splits)
next
  case (10 q w e w') then show ?case using del_err [of q w] by (auto simp: commandClient_changes split: prod.splits)
qed (use range in auto)

context ip_command
begin

lemma exec_contracts:
  "ip_atomic (execManager cfg runner) (\<lambda>w. managedView cfg (table w))"
  "ip_attacher (execManager cfg runner) (\<lambda>w. managedView cfg (table w))"
proof -
  have z: "0 \<le> CIDRSuffix cfg" using range by simp
  note T = manager_transfer [of "execManager cfg runner" "netlinkManager cfg (commandClient cfg runner)",
      OF _ _ _ client.atomic.ip_atomic_axioms client.attacher.ip_attacher_axioms]
  show "ip_atomic (execManager cfg runner) (\<lambda>w. managedView cfg (table w))"
    "ip_attacher (execManager cfg runner) (\<lambda>w. managedView cfg (table w))"
    by (rule T; simp add: execManager_def netlinkManager_def exec_list_outcome exec_present_outcome [OF z] exec_absent_outcome [OF z])+
qed

end

sublocale ip_command \<subseteq> exec: ip_atomic "execManager cfg runner" "\<lambda>w. managedView cfg (table w)"
  by (rule exec_contracts(1))

sublocale ip_command \<subseteq> exec: ip_attacher "execManager cfg runner" "\<lambda>w. managedView cfg (table w)"
  by (rule exec_contracts(2))

section \<open>An ip command\<close>

text \<open>The command over the kernel of \<open>Ip_Attach\<close>; a line of its listing has the interface, the prefix and the scope.\<close>

definition ipLine :: "string \<Rightarrow> ip_prefix \<Rightarrow> string" where
  "ipLine i q = Join '' '' [''2:'', i, ''inet'', prefixText q, ''scope'', ''global'', i]"

definition changeAddrs ::
  "(ip_prefix \<Rightarrow> ip_prefix list \<Rightarrow> ip_prefix list option) \<Rightarrow> string \<Rightarrow> string \<Rightarrow> kernel \<Rightarrow> (string \<times> string option) \<times> kernel" where
  "changeAddrs f t i k =
     (case ParsePrefix t of
        Some q \<Rightarrow>
          (case f q (link_addrs k) of
             Some qs \<Rightarrow> if link_answers k \<and> i = link_name k then (([], None), k\<lparr>link_addrs := qs\<rparr>)
               else ((''Cannot find device'', Some ''exit status 1''), k)
           | None \<Rightarrow> ((''RTNETLINK answers: File exists'', Some ''exit status 2''), k))
      | None \<Rightarrow> ((''Error: any valid prefix is expected'', Some ''exit status 1''), k))"

definition kernelRunner :: "kernel runner" where
  "kernelRunner cmd args k =
     (case args of
        [o1, o2, _, _, _, i] \<Rightarrow>
          if link_answers k \<and> i = link_name k
          then ((Join [CHR 0x0A] (map (ipLine i) (filter validPrefix (link_addrs k))), None), k)
          else ((''Device does not exist.'', Some ''exit status 1''), k)
      | [_, verb, t, _, i] \<Rightarrow>
          if verb = ''add'' then changeAddrs (\<lambda>q qs. if q \<in> set qs then None else Some (qs @ [q])) t i k
          else changeAddrs (\<lambda>q qs. if q \<in> set qs then Some (filter (\<lambda>x. x \<noteq> q) qs) else None) t i k
      | _ \<Rightarrow> ((''Usage'', Some ''exit status 255''), k))"

lemma prefixText_plain: "validPrefix q \<Longrightarrow> list_all plain (prefixText q)"
  using AddrString_plain [of "fst q"] FormatInt_plain [of "int (snd q)"] by (simp add: prefixText_def validPrefix_def plain_def)

lemma ipLine_shows:
  assumes "validPrefix q" "i \<noteq> []" "list_all plain i" "i \<noteq> ''inet''"
  shows "showsPrefix (ipLine i q) q"
proof -
  have "\<forall>w \<in> set [''2:'', i, ''inet'', prefixText q, ''scope'', ''global'', i]. w \<noteq> [] \<and> list_all plain w"
    using assms prefixText_plain by (simp add: plain_def) (simp add: prefixText_def)
  from Fields_Join [OF this] have "Fields (ipLine i q) = [''2:'', i] @ [''inet'', prefixText q] @ [''scope'', ''global'', i]"
    by (simp add: ipLine_def)
  then show ?thesis
    unfolding showsPrefix_def using assms(4)
    by (intro exI [of _ "[''2:'', i]"] exI [of _ "[''scope'', ''global'', i]"]) simp
qed

lemma ipLine_shape:
  assumes "validPrefix q" "i \<noteq> []" "list_all plain i"
  shows "ipLine i q \<noteq> []" "hd (ipLine i q) = CHR ''2''" "last (ipLine i q) = last i" "CHR 0x0A \<notin> set (ipLine i q)"
proof -
  have "CHR 0x0A \<notin> set i" "CHR 0x0A \<notin> set (prefixText q)"
    using assms(3) prefixText_plain [OF assms(1)] by (auto simp: list_all_iff plain_def)
  then show "CHR 0x0A \<notin> set (ipLine i q)" by (auto simp: ipLine_def)
qed (use assms(2) in \<open>simp_all add: ipLine_def\<close>)

lemma ipLines_list:
  assumes i: "i \<noteq> []" "list_all plain i" "i \<noteq> ''inet''" and q: "list_all validPrefix qs"
  shows "lists (Join [CHR 0x0A] (map (ipLine i) qs)) qs"
proof (cases "qs = []")
  case False
  let ?ls = "map (ipLine i) qs"
  have ls: "l \<noteq> [] \<and> hd l = CHR ''2'' \<and> last l = last i \<and> CHR 0x0A \<notin> set l" if "l \<in> set ?ls" for l
    using that q ipLine_shape [OF _ i(1,2)] by (auto simp: list_all_iff)
  have p: "plain (last i)" "plain CHR ''2''" using i by (simp_all add: list_all_iff plain_def)
  have e: "?ls \<noteq> []" "hd ?ls \<in> set ?ls" "last ?ls \<in> set ?ls" using False by (simp_all add: hd_in_set last_in_set del: set_map)
  have "TrimSpace (Join [CHR 0x0A] ?ls) = Join [CHR 0x0A] ?ls"
    using Join_hd [OF e(1)] Join_last [OF e(1)] ls [OF e(2)] ls [OF e(3)] p by (intro TrimSpace_ends) auto
  moreover have "Split CHR 0x0A (Join [CHR 0x0A] ?ls) = ?ls" using e(1) ls by (intro Split_Join) auto
  moreover have "TrimSpace l \<noteq> []" if "l \<in> set ?ls" for l using ls [OF that] p by (simp add: TrimSpace_ends)
  then have "filter (\<lambda>l. TrimSpace l \<noteq> []) ?ls = ?ls" by (intro filter_True) blast
  moreover have "list_all2 showsPrefix ?ls qs"
    using q ipLine_shows [OF _ i] by (simp add: list_all2_map1 list_all_iff list_all2_same)
  ultimately show ?thesis by (simp add: lists_def)
qed (simp add: lists_def)

definition sampleExec :: attach_config where
  "sampleExec = sampleAttach\<lparr>Mode := ModeExec\<rparr>"

interpretation ipcommand: ip_command sampleExec kernelRunner kernelTable
proof (unfold_locales, goal_cases)
  case (4 w out w')
  have "lists (Join [CHR 0x0A] (map (ipLine ''eth0'') (filter validPrefix (link_addrs w)))) (filter validPrefix (link_addrs w))"
    by (rule ipLines_list) (simp_all add: plain_def list_all_iff)
  with 4 show ?case
    by (intro exI [of _ "filter validPrefix (link_addrs w)"])
      (auto simp: kernelRunner_def sampleExec_def sampleAttach_def kernelTable_def split: if_splits)
qed (auto simp: kernelRunner_def changeAddrs_def sampleExec_def sampleAttach_def DefaultCIDRSuffix_def kernelTable_def
    ParsePrefix_text split: if_splits option.splits)


section \<open>Properties\<close>

text \<open>
  Whatever the command does and prints, the three operations of the exec manager run the
  same commands, succeed or fail alike and return the same values as those of the netlink
  manager over a client that runs the commands; only the texts of errors differ.
\<close>

theorem exec_matches_netlink:
  assumes "0 \<le> CIDRSuffix cfg"
  shows "outcome (Exec_List cfg runner w) = outcome (Netlink_List cfg (commandClient cfg runner) w) \<and>
    outcome (Exec_EnsurePresent cfg runner a w) = outcome (Netlink_EnsurePresent cfg (commandClient cfg runner) a w) \<and>
    outcome (Exec_EnsureAbsent cfg runner a w) = outcome (Netlink_EnsureAbsent cfg (commandClient cfg runner) a w)"
  by (intro conjI exec_list_outcome exec_present_outcome [OF assms] exec_absent_outcome [OF assms])

lemma exec_sample_absent:
  "Exec_EnsureAbsent sampleExec kernelRunner (V4 203 0 113 10) (sampleKernel\<lparr>link_addrs := [(V4 203 0 113 10, 32)]\<rparr>) =
     (Inr True, sampleKernel\<lparr>link_addrs := []\<rparr>)"
  by code_simp

theorem exec_matches_netlink_witness:
  "outcome (Netlink_EnsureAbsent sampleExec (commandClient sampleExec kernelRunner) (V4 203 0 113 10)
     (sampleKernel\<lparr>link_addrs := [(V4 203 0 113 10, 32)]\<rparr>)) = (Some True, sampleKernel\<lparr>link_addrs := []\<rparr>)"
proof -
  have "0 \<le> CIDRSuffix sampleExec" by (simp add: sampleExec_def sampleAttach_def DefaultCIDRSuffix_def)
  from exec_matches_netlink [OF this, of kernelRunner "sampleKernel\<lparr>link_addrs := [(V4 203 0 113 10, 32)]\<rparr>" "V4 203 0 113 10"]
  show ?thesis unfolding exec_sample_absent by simp
qed

text \<open>
  C34: Over an \<open>ip\<close> command that lists and changes the addresses of the interface as documented,
  the exec manager lists exactly the managed addresses in order; a successful \<open>EnsurePresent\<close>
  adds exactly its address, a successful \<open>EnsureAbsent\<close> removes exactly its address, and an
  \<open>EnsurePresent\<close> that fails, or reports that nothing changed, changes nothing.
\<close>

theorem exec_manager_correct:
  assumes "ip_command cfg runner table"
  shows "(\<forall>xs w'. Exec_List cfg runner w = (Inr xs, w') \<longrightarrow> sorted xs \<and> set xs = managedView cfg (table w)) \<and>
    (\<forall>c w'. Exec_EnsurePresent cfg runner a w = (Inr c, w') \<longrightarrow>
      managedView cfg (table w') = insert a (managedView cfg (table w))) \<and>
    (\<forall>c w'. Exec_EnsureAbsent cfg runner a w = (Inr c, w') \<longrightarrow>
      managedView cfg (table w') = managedView cfg (table w) - {a}) \<and>
    (\<forall>q w'. Exec_EnsurePresent cfg runner a w = (q, w') \<longrightarrow> q \<noteq> Inr True \<longrightarrow>
      managedView cfg (table w') = managedView cfg (table w))"
proof -
  note A = ip_command.exec_contracts [OF assms]
  note M = ip_attacher.axioms(1) [OF A(2)]
  have ops: "ipm_List (execManager cfg runner) = Exec_List cfg runner"
    "ipm_EnsurePresent (execManager cfg runner) = Exec_EnsurePresent cfg runner"
    "ipm_EnsureAbsent (execManager cfg runner) = Exec_EnsureAbsent cfg runner"
    by (simp_all add: execManager_def fun_eq_iff)
  show ?thesis
    using ip_manager.list_ok [OF M] ip_attacher.present_ok [OF A(2)] ip_manager.absent_ok [OF M] ip_atomic.present_same [OF A(1)]
    unfolding ops by blast
qed

theorem exec_manager_correct_witness:
  "managedView sampleExec (kernelTable (sampleKernel\<lparr>link_addrs := []\<rparr>)) =
     managedView sampleExec (kernelTable (sampleKernel\<lparr>link_addrs := [(V4 203 0 113 10, 32)]\<rparr>)) - {V4 203 0 113 10}"
  using exec_manager_correct [OF ipcommand.ip_command_axioms] exec_sample_absent by blast

end
