(* ===== verification/Exec_Host.thy ===== *)
theory Exec_Host
  imports Exec_Attach Deployment
begin

text \<open>
  A dataplane that attaches addresses with the \<open>ip\<close> command (mode \<open>exec\<close>): over a command that
  behaves as documented it meets the contract of the engine, so that everything shown of the
  deployment holds of it too.
\<close>

lemma exec_host_meets_contracts:
  assumes "ip_command cfg runner table" "config_applier app active ok"
  shows "engine_attach (managerOnHost (execManager cfg runner)) (\<lambda>w. managedView cfg (table (fst w))) (applierOnHost app)
    (\<lambda>w. active (snd w)) (\<lambda>w. ok (snd w))"
  by (rule host_meets_contracts [OF ip_command.exec_contracts [OF assms(1)] assms(2)])

definition execHostManager :: "(kernel \<times> os) external_ip_manager" where
  "execHostManager = managerOnHost (execManager sampleExec kernelRunner)"

definition execHostView :: "kernel \<times> os \<Rightarrow> addr set" where
  "execHostView w = managedView sampleExec (kernelTable (fst w))"

interpretation exechost: engine_attach execHostManager execHostView hostApplier
  "\<lambda>w. activeConfig sampleApply (snd w)" "\<lambda>w. os_ok (snd w)"
  unfolding execHostManager_def hostApplier_def execHostView_def [abs_def]
  by (rule exec_host_meets_contracts [OF ipcommand.ip_command_axioms files.config_applier_axioms])

interpretation execdep: deployment clusterClient clusterObjs listFinalizers sampleSend "\<lambda>_. []" snd
  execHostManager execHostView hostApplier "\<lambda>w. activeConfig sampleApply (snd w)" "\<lambda>w. os_ok (snd w)"
  sampleProvider sampleConfig
proof -
  have "deployment_axioms clusterObjs sampleProvider sampleConfig"
    using dep.deployment_axioms by (simp add: deployment_def)
  then show "deployment clusterClient clusterObjs listFinalizers sampleSend (\<lambda>_. []) snd execHostManager execHostView hostApplier
    (\<lambda>w. activeConfig sampleApply (snd w)) (\<lambda>w. os_ok (snd w)) sampleProvider sampleConfig"
    unfolding deployment_def sampleSend_def
    using apiserver.kube_api_axioms listfin.finalizer_laws_axioms faulty.http_link_axioms exechost.engine_attach_axioms
    by blast
qed

text \<open>
  The engine that \<open>NewManager\<close> and \<open>NewEngine\<close> build for this mode keeps every stored address
  attached, whatever requests it is given and whatever fails.
\<close>

lemma exec_addresses_stay_attached:
  assumes "ip_command cfg runner table" "config_applier app active ok"
    and "wired (managerOnHost (execManager cfg runner)) (applierOnHost app) e" "ok (snd w)" "engine_ok e"
    and "wantedIPs (Store_List (eng_store e)) \<subseteq> managedView cfg (table (fst w))"
    and "runRequests qs e w = (rs, e', w')"
  shows "wantedIPs (Store_List (eng_store e')) \<subseteq> managedView cfg (table (fst w'))"
  using engine_attach.run_attached [OF exec_host_meets_contracts [OF assms(1,2)]] assms(3-7) by blast

end
