(* ===== verification/Go_Time.thy ===== *)
theory Go_Time
  imports Go_Strings
begin

text \<open>
  The parts of the Go library that reading the environment uses: \<open>strconv.ParseBool\<close> and
  \<open>time.ParseDuration\<close>, with its unsigned 64-bit arithmetic and the floating-point step for
  fractions.  Durations are integers, in nanoseconds.
\<close>

section \<open>Booleans\<close>

definition ParseBool :: "string \<Rightarrow> bool option" where
  "ParseBool s =
     (if s \<in> set [''1'', ''t'', ''T'', ''true'', ''TRUE'', ''True''] then Some True
      else if s \<in> set [''0'', ''f'', ''F'', ''false'', ''FALSE'', ''False''] then Some False
      else None)"

section \<open>Floating point\<close>

text \<open>
  Non-negative \<open>float64\<close> values: \<open>Finite n t\<close> is \<open>n * 2 ^ t\<close>.  Operations round to the nearest
  value, ties to even, with 53 bits of precision and the exponent range of the format.
\<close>

datatype f64 = Finite int int | Infinite

definition pow2 :: "int \<Rightarrow> int" where
  "pow2 t = 2 ^ nat t"

function bitLen :: "int \<Rightarrow> int" where
  "bitLen n = (if n \<le> 0 then 0 else 1 + bitLen (n div 2))"
  by pat_completeness auto

termination
  by (relation "measure nat") auto

declare bitLen.simps [simp del]

definition roundHalfEven :: "int \<Rightarrow> int \<Rightarrow> int" where
  "roundHalfEven a b =
     (let q = a div b; r = a mod b in
      if 2 * r < b \<or> 2 * r = b \<and> even q then q else q + 1)"

text \<open>The value nearest to \<open>p / q\<close>; \<open>e\<close> is the exponent of its leading bit.\<close>

definition roundFloat :: "int \<Rightarrow> int \<Rightarrow> f64" where
  "roundFloat p q =
     (if p = 0 then Finite 0 0
      else
        let d = bitLen p - bitLen q;
            e = (if q * pow2 d \<le> p * pow2 (- d) then d else d - 1);
            t = max (e - 52) (- 1074);
            n = roundHalfEven (p * pow2 (- t)) (q * pow2 t)
        in if 2 ^ 1024 \<le> n * pow2 t then Infinite else Finite n t)"

definition fOfInt :: "int \<Rightarrow> f64" where
  "fOfInt n = roundFloat n 1"

fun fMul :: "f64 \<Rightarrow> f64 \<Rightarrow> f64" where
  "fMul (Finite n s) (Finite m t) = roundFloat (n * pow2 s * (m * pow2 t)) (pow2 (- s) * pow2 (- t))"
| "fMul _ _ = Infinite"

fun fDiv :: "f64 \<Rightarrow> f64 \<Rightarrow> f64" where
  "fDiv (Finite n s) (Finite m t) = roundFloat (n * pow2 s * pow2 (- t)) (pow2 (- s) * (m * pow2 t))"
| "fDiv (Finite _ _) Infinite = Finite 0 0"
| "fDiv Infinite _ = Infinite"

fun fTruncate :: "f64 \<Rightarrow> int" where
  "fTruncate (Finite n t) = n * pow2 t div pow2 (- t)"
| "fTruncate Infinite = 2 ^ 63"

section \<open>Durations\<close>

definition Second :: int where
  "Second = 1000000000"

definition unitMap :: "string \<Rightarrow> int option" where
  "unitMap = map_of [(''ns'', 1), (''us'', 1000), ([CHR 0xC2, CHR 0xB5, CHR ''s''], 1000),
     ([CHR 0xCE, CHR 0xBC, CHR ''s''], 1000), (''ms'', 1000000), (''s'', Second),
     (''m'', 60 * Second), (''h'', 3600 * Second)]"

fun leadingInt :: "int \<Rightarrow> string \<Rightarrow> (int \<times> string) option" where
  "leadingInt x [] = Some (x, [])"
| "leadingInt x (c # s) =
     (if \<not> isDigit c then Some (x, c # s)
      else if 2 ^ 63 div 10 < x then None
      else
        let y = x * 10 + int (digitVal c) in
        if 2 ^ 63 < y then None else leadingInt y s)"

fun leadingFraction :: "int \<Rightarrow> f64 \<Rightarrow> bool \<Rightarrow> string \<Rightarrow> int \<times> f64 \<times> string" where
  "leadingFraction x scale overflow [] = (x, scale, [])"
| "leadingFraction x scale overflow (c # s) =
     (if \<not> isDigit c then (x, scale, c # s)
      else if overflow \<or> (2 ^ 63 - 1) div 10 < x then leadingFraction x scale True s
      else
        let y = x * 10 + int (digitVal c) in
        if 2 ^ 63 < y then leadingFraction x scale True s
        else leadingFraction y (fMul scale (fOfInt 10)) False s)"

definition unitChar :: "char \<Rightarrow> bool" where
  "unitChar c = (c \<noteq> CHR ''.'' \<and> \<not> isDigit c)"

text \<open>One number with its unit at the front of the text: its value and the rest.\<close>

definition durationTerm :: "string \<Rightarrow> (int \<times> string) option" where
  "durationTerm s =
     (if s = [] \<or> unitChar (hd s) then None
      else case leadingInt 0 s of None \<Rightarrow> None
      | Some (v, s1) \<Rightarrow>
          let pre = (length s1 \<noteq> length s);
              (f, scale, s2, post) =
                (case s1 of
                   c # r \<Rightarrow>
                     if c = CHR ''.'' then
                       (case leadingFraction 0 (fOfInt 1) False r of (f, scale, r2) \<Rightarrow> (f, scale, r2, length r2 \<noteq> length r))
                     else (0, fOfInt 1, s1, False)
                 | [] \<Rightarrow> (0, fOfInt 1, s1, False))
          in if \<not> pre \<and> \<not> post then None
             else
               let u = takeWhile unitChar s2; s3 = dropWhile unitChar s2 in
               case unitMap u of None \<Rightarrow> None
               | Some unit \<Rightarrow>
                   if 2 ^ 63 div unit < v then None
                   else
                     let v = v * unit;
                         w = (if 0 < f then v + fTruncate (fMul (fOfInt f) (fDiv (fOfInt unit) scale)) else v) mod 2 ^ 64
                     in if 0 < f \<and> 2 ^ 63 < w then None else Some (w, s3))"

lemma unitMap_ne: "unitMap u = Some n \<Longrightarrow> u \<noteq> [] \<and> 0 < n"
  by (auto simp: unitMap_def Second_def split: if_splits)

lemma leadingInt_rest: "leadingInt x s = Some (v, r) \<Longrightarrow> length r \<le> length s"
  by (induction x s rule: leadingInt.induct) (auto simp: Let_def split: if_splits)

lemma leadingFraction_rest: "leadingFraction x sc ov s = (f, sc', r) \<Longrightarrow> length r \<le> length s"
  by (induction x sc ov s rule: leadingFraction.induct) (auto simp: Let_def split: if_splits)

text \<open>Every term consumes text, at least its unit, which makes the loop over the terms end.\<close>

lemma takeWhile_shorter: "takeWhile P s \<noteq> [] \<Longrightarrow> length (dropWhile P s) < length s"
  by (cases s) (auto simp: length_dropWhile_le le_imp_less_Suc split: if_splits)

lemma durationTerm_shorter: "durationTerm s = Some (v, r) \<Longrightarrow> length r < length s"
  by (auto simp: durationTerm_def Let_def split: if_splits option.splits list.splits prod.splits
      dest!: unitMap_ne takeWhile_shorter leadingInt_rest leadingFraction_rest
      intro: le_less_trans [OF length_dropWhile_le])

function durationLoop :: "int \<Rightarrow> string \<Rightarrow> int option" where
  "durationLoop d s =
     (if s = [] then Some d
      else case durationTerm s of None \<Rightarrow> None
      | Some (v, r) \<Rightarrow>
          let d = (d + v) mod 2 ^ 64 in
          if 2 ^ 63 < d then None else durationLoop d r)"
  by pat_completeness auto

termination
  by (relation "measure (length \<circ> snd)") (auto dest: durationTerm_shorter)

declare durationLoop.simps [simp del]

definition ParseDuration :: "string \<Rightarrow> int option" where
  "ParseDuration s =
     (let (neg, r) = (case s of [] \<Rightarrow> (False, []) | c # r \<Rightarrow>
            if c = CHR ''-'' then (True, r) else if c = CHR ''+'' then (False, r) else (False, s))
      in if r = ''0'' then Some 0
         else if r = [] then None
         else case durationLoop 0 r of None \<Rightarrow> None
         | Some d \<Rightarrow> if neg then Some (- d) else if 2 ^ 63 - 1 < d then None else Some d)"

section \<open>Bounds and round trips\<close>

lemma durationLoop_range:
  "durationLoop d s = Some x \<Longrightarrow> 0 \<le> d \<Longrightarrow> d \<le> 2 ^ 63 \<Longrightarrow> 0 \<le> x \<and> x \<le> 2 ^ 63"
proof (induction d s rule: durationLoop.induct)
  case (1 d s)
  show ?case
  proof (cases "s = []")
    case True
    then show ?thesis using 1 by (simp add: durationLoop.simps)
  next
    case False
    with 1(2) obtain v r where t: "durationTerm s = Some (v, r)" "\<not> 2 ^ 63 < (d + v) mod 2 ^ 64"
      "durationLoop ((d + v) mod 2 ^ 64) r = Some x"
      by (subst (asm) durationLoop.simps) (auto simp: Let_def split: option.splits if_splits)
    from 1(1) [OF False t(1) refl refl t(2,3)] t(2) show ?thesis by simp
  qed
qed

lemma ParseDuration_range: "ParseDuration s = Some d \<Longrightarrow> - (2 ^ 63) \<le> d \<and> d < 2 ^ 63"
  by (auto simp: ParseDuration_def Let_def split: if_splits option.splits list.splits dest!: durationLoop_range)

lemma digitsVal_mono: "digitsVal n ds = Some m \<Longrightarrow> n \<le> m"
proof (induction n ds rule: digitsVal.induct)
  case (2 n c ds)
  then have "n * 10 + digitVal c \<le> m" by (simp split: if_splits)
  then show ?case by simp
qed simp

lemma leadingInt_digits:
  assumes "list_all isDigit ds" "t = [] \<or> \<not> isDigit (hd t)" "digitsVal n ds = Some m" "int m \<le> 2 ^ 63"
  shows "leadingInt (int n) (ds @ t) = Some (int m, t)"
  using assms
proof (induction ds arbitrary: n)
  case Nil
  then show ?case by (cases t) auto
next
  case (Cons c ds)
  have v: "digitsVal (n * 10 + digitVal c) ds = Some m" using Cons.prems by simp
  have "n * 10 + digitVal c \<le> m" using digitsVal_mono [OF v] .
  then have "int n * 10 + int (digitVal c) \<le> 2 ^ 63" using Cons.prems(4) by linarith
  moreover from this have "\<not> 2 ^ 63 div 10 < int n" by simp
  ultimately show ?case using Cons.IH [OF _ Cons.prems(2) v Cons.prems(4)] Cons.prems(1) by simp
qed

lemma durationTerm_seconds:
  assumes "n \<le> 9223372036"
  shows "durationTerm (itoa n @ ''s'') = Some (int n * Second, [])"
proof -
  obtain c ds where i: "itoa n = c # ds" using itoa_ne by (meson neq_Nil_conv)
  then have c: "\<not> unitChar c" using itoa_digits [of n] by (simp add: unitChar_def)
  have s: "\<not> isDigit CHR ''s''" "unitChar CHR ''s''" by (simp_all add: isDigit_def unitChar_def)
  have "leadingInt 0 (itoa n @ ''s'') = Some (int n, ''s'')"
    using leadingInt_digits [OF itoa_digits _ digitsVal_itoa, of "''s''" n] s(1) assms by simp
  moreover have "unitMap ''s'' = Some Second" by (simp add: unitMap_def)
  ultimately show ?thesis
    using assms c s(2) by (simp add: durationTerm_def Let_def i Second_def)
qed

lemma ParseDuration_seconds:
  assumes "n \<le> 9223372036"
  shows "ParseDuration (itoa n @ ''s'') = Some (int n * Second)"
proof -
  obtain c ds where i: "itoa n = c # ds" using itoa_ne by (meson neq_Nil_conv)
  then have "isDigit c" using itoa_digits [of n] by simp
  then have c: "c \<noteq> CHR ''-''" "c \<noteq> CHR ''+''" by (auto simp: isDigit_def)
  have d: "durationLoop 0 (itoa n @ ''s'') = Some (int n * Second)"
    using assms durationTerm_seconds [OF assms]
    by (simp add: durationLoop.simps [of 0] durationLoop.simps [of _ "[]"] Second_def)
  show ?thesis using d assms i c by (simp add: ParseDuration_def Second_def)
qed

lemma ParseBool_texts: "ParseBool ''true'' = Some True" "ParseBool ''false'' = Some False"
  by (simp_all add: ParseBool_def)

end
