(* ===== verification/Config.thy ===== *)
theory Config
  imports Go_Time Controller Dataplane_Api
begin

text \<open>
  \<open>internal/config/config.go\<close>: loading \<open>.env\<close> into the environment and reading the controller
  configuration from it.  The environment is a map; reading the file is \<open>godotenv\<close>'s and
  parsing URLs \<open>net/url\<close>'s, both parameters.
\<close>

type_synonym environ = "string \<rightharpoonup> string"

section \<open>The dotenv file\<close>

definition DotEnvFileName :: string where
  "DotEnvFileName = ''.env''"

text \<open>What \<open>godotenv.Read\<close> answers; the values come in the order in which the map is traversed.\<close>

datatype dotenv_file = NoDotEnv | UnreadableDotEnv string | DotEnv "(string \<times> string) list"

datatype dotenv_error = ReadDotEnv string | SetFromDotEnv string

text \<open>The names and values that \<open>os.Setenv\<close> accepts.\<close>

definition settable :: "string \<Rightarrow> string \<Rightarrow> bool" where
  "settable key val = (key \<noteq> [] \<and> CHR ''='' \<notin> set key \<and> CHR 0x00 \<notin> set key \<and> CHR 0x00 \<notin> set val)"

fun setMissing :: "(string \<times> string) list \<Rightarrow> environ \<Rightarrow> (dotenv_error, bool) result \<times> environ" where
  "setMissing [] env = (Inr True, env)"
| "setMissing ((key, val) # vs) env =
     (if env key \<noteq> None then setMissing vs env
      else if settable key val then setMissing vs (env(key \<mapsto> val))
      else (Inl (SetFromDotEnv key), env))"

definition LoadDotEnv :: "dotenv_file \<Rightarrow> environ \<Rightarrow> (dotenv_error, bool) result \<times> environ" where
  "LoadDotEnv file env =
     (case file of
        NoDotEnv \<Rightarrow> (Inr False, env)
      | UnreadableDotEnv err \<Rightarrow> (Inl (ReadDotEnv err), env)
      | DotEnv vs \<Rightarrow> setMissing vs env)"

section \<open>Variables and defaults\<close>

definition EnvMetricsAddr :: string where "EnvMetricsAddr = ''K8S_LB_CONTROLLER_METRICS_ADDR''"
definition EnvHealthAddr :: string where "EnvHealthAddr = ''K8S_LB_CONTROLLER_HEALTH_ADDR''"
definition EnvLeaderElect :: string where "EnvLeaderElect = ''K8S_LB_CONTROLLER_LEADER_ELECT''"
definition EnvLoadBalancerClass :: string where "EnvLoadBalancerClass = ''K8S_LB_CONTROLLER_LOAD_BALANCER_CLASS''"
definition EnvIPPool :: string where "EnvIPPool = ''K8S_LB_CONTROLLER_IP_POOL''"
definition EnvRequeueAfter :: string where "EnvRequeueAfter = ''K8S_LB_CONTROLLER_REQUEUE_AFTER''"
definition EnvGracefulShutdownTimeout :: string where
  "EnvGracefulShutdownTimeout = ''K8S_LB_CONTROLLER_GRACEFUL_SHUTDOWN_TIMEOUT''"
definition EnvLogLevel :: string where "EnvLogLevel = ''K8S_LB_CONTROLLER_LOG_LEVEL''"
definition EnvProviderMode :: string where "EnvProviderMode = ''K8S_LB_CONTROLLER_PROVIDER_MODE''"
definition EnvHAProxyConfigPath :: string where "EnvHAProxyConfigPath = ''K8S_LB_CONTROLLER_HAPROXY_CONFIG_PATH''"
definition EnvHAProxyValidateCommand :: string where
  "EnvHAProxyValidateCommand = ''K8S_LB_CONTROLLER_HAPROXY_VALIDATE_COMMAND''"
definition EnvHAProxyReloadCommand :: string where
  "EnvHAProxyReloadCommand = ''K8S_LB_CONTROLLER_HAPROXY_RELOAD_COMMAND''"
definition EnvDataplaneAPIURL :: string where "EnvDataplaneAPIURL = ''K8S_LB_CONTROLLER_DATAPLANE_API_URL''"
definition EnvDataplaneAPITimeout :: string where
  "EnvDataplaneAPITimeout = ''K8S_LB_CONTROLLER_DATAPLANE_API_TIMEOUT''"

definition LogLevelDebug :: string where "LogLevelDebug = ''debug''"
definition LogLevelInfo :: string where "LogLevelInfo = ''info''"
definition LogLevelWarn :: string where "LogLevelWarn = ''warn''"
definition LogLevelError :: string where "LogLevelError = ''error''"

definition supportedLogLevels :: "string list" where
  "supportedLogLevels = [LogLevelDebug, LogLevelInfo, LogLevelWarn, LogLevelError]"

definition ProviderModeLocalHAProxy :: string where "ProviderModeLocalHAProxy = ''local-haproxy''"
definition ProviderModeDataplaneAPI :: string where "ProviderModeDataplaneAPI = ''dataplane-api''"

definition supportedProviderModes :: "string list" where
  "supportedProviderModes = [ProviderModeLocalHAProxy, ProviderModeDataplaneAPI]"

definition DefaultMetricsAddr :: string where "DefaultMetricsAddr = '':8080''"
definition DefaultHealthAddr :: string where "DefaultHealthAddr = '':8081''"
definition DefaultLeaderElect :: bool where "DefaultLeaderElect = False"
definition DefaultLoadBalancerClass :: string where "DefaultLoadBalancerClass = ''iedge.local/service-lb''"
definition DefaultIPPool :: string where "DefaultIPPool = ''203.0.113.10,203.0.113.11,203.0.113.12''"
definition DefaultRequeueAfter :: int where "DefaultRequeueAfter = 30 * Second"
definition DefaultGracefulShutdownTimeout :: int where "DefaultGracefulShutdownTimeout = 15 * Second"
definition DefaultLogLevel :: string where "DefaultLogLevel = LogLevelInfo"
definition DefaultProviderMode :: string where "DefaultProviderMode = ProviderModeLocalHAProxy"
definition DefaultHAProxyConfigPath :: string where "DefaultHAProxyConfigPath = ''/tmp/k8s-lb-controller-haproxy.cfg''"
definition DefaultHAProxyValidateCommand :: string where "DefaultHAProxyValidateCommand = []"
definition DefaultHAProxyReloadCommand :: string where "DefaultHAProxyReloadCommand = []"
definition DefaultDataplaneAPITimeout :: int where "DefaultDataplaneAPITimeout = 10 * Second"

section \<open>Reading variables\<close>

datatype config_error =
    ParseVariable string
  | NotPositive string
  | EmptyVariable string
  | UnsupportedProviderMode
  | ParsePoolVariable pool_error
  | UnsupportedLogLevel
  | ParseURLVariable string
  | URLNotAbsolute
  | URLNotHTTP
  | UnsupportedAttachMode
  | SuffixOutOfRange

definition stringEnv :: "environ \<Rightarrow> string \<Rightarrow> string \<Rightarrow> string" where
  "stringEnv env key defaultValue =
     (case env key of None \<Rightarrow> defaultValue
      | Some val \<Rightarrow> let trimmed = TrimSpace val in if trimmed = [] then defaultValue else trimmed)"

definition boolEnv :: "environ \<Rightarrow> string \<Rightarrow> bool \<Rightarrow> (config_error, bool) result" where
  "boolEnv env key defaultValue =
     (case env key of None \<Rightarrow> Inr defaultValue
      | Some val \<Rightarrow>
          if TrimSpace val = [] then Inr defaultValue
          else case ParseBool (TrimSpace val) of None \<Rightarrow> Inl (ParseVariable key) | Some parsed \<Rightarrow> Inr parsed)"

definition durationEnv :: "environ \<Rightarrow> string \<Rightarrow> int \<Rightarrow> (config_error, int) result" where
  "durationEnv env key defaultValue =
     (case env key of None \<Rightarrow> Inr defaultValue
      | Some val \<Rightarrow>
          if TrimSpace val = [] then Inr defaultValue
          else case ParseDuration (TrimSpace val) of None \<Rightarrow> Inl (ParseVariable key) | Some parsed \<Rightarrow> Inr parsed)"

definition normalizeLogLevel :: "string \<Rightarrow> string" where
  "normalizeLogLevel level = ToLower (TrimSpace level)"

definition normalizeProviderMode :: "string \<Rightarrow> string" where
  "normalizeProviderMode mode = ToLower (TrimSpace mode)"

definition dataplaneAPIURLFromEnv :: "url_lib \<Rightarrow> environ \<Rightarrow> (config_error, string) result" where
  "dataplaneAPIURLFromEnv lib env =
     (case env EnvDataplaneAPIURL of
        None \<Rightarrow> Inl (EmptyVariable EnvDataplaneAPIURL)
      | Some val \<Rightarrow>
          if TrimSpace val = [] then Inl (EmptyVariable EnvDataplaneAPIURL)
          else case url_Parse lib (TrimSpace val) of
            Inl err \<Rightarrow> Inl (ParseURLVariable err)
          | Inr parsed \<Rightarrow>
              if \<not> IsAbs parsed \<or> Host parsed = [] then Inl URLNotAbsolute
              else if Scheme parsed \<noteq> ''http'' \<and> Scheme parsed \<noteq> ''https'' then Inl URLNotHTTP
              else Inr (url_String lib parsed))"

section \<open>The configuration\<close>

text \<open>The settings the reconciler reads, and the others.\<close>

record config = controller_config +
  MetricsAddr :: string
  HealthAddr :: string
  LeaderElect :: bool
  GracefulShutdownTimeout :: int
  LogLevel :: string
  ProviderMode :: string
  HAProxyConfigPath :: string
  HAProxyValidateCommand :: string
  HAProxyReloadCommand :: string
  DataplaneAPIURL :: string
  DataplaneAPITimeout :: int

text \<open>A duration that must be positive.\<close>

definition positiveEnv :: "environ \<Rightarrow> string \<Rightarrow> int \<Rightarrow> (config_error, int) result" where
  "positiveEnv env key defaultValue =
     (case durationEnv env key defaultValue of
        Inl err \<Rightarrow> Inl err
      | Inr d \<Rightarrow> if d \<le> 0 then Inl (NotPositive key) else Inr d)"

definition Load :: "url_lib \<Rightarrow> environ \<Rightarrow> (config_error, config) result" where
  "Load lib env =
     (let cfg = \<lparr>cc_LoadBalancerClass = stringEnv env EnvLoadBalancerClass DefaultLoadBalancerClass,
            IPPool = [], RequeueAfter = 0,
            MetricsAddr = stringEnv env EnvMetricsAddr DefaultMetricsAddr,
            HealthAddr = stringEnv env EnvHealthAddr DefaultHealthAddr,
            LeaderElect = False, GracefulShutdownTimeout = 0,
            LogLevel = normalizeLogLevel (stringEnv env EnvLogLevel DefaultLogLevel),
            ProviderMode = normalizeProviderMode (stringEnv env EnvProviderMode DefaultProviderMode),
            HAProxyConfigPath = stringEnv env EnvHAProxyConfigPath DefaultHAProxyConfigPath,
            HAProxyValidateCommand = stringEnv env EnvHAProxyValidateCommand DefaultHAProxyValidateCommand,
            HAProxyReloadCommand = stringEnv env EnvHAProxyReloadCommand DefaultHAProxyReloadCommand,
            DataplaneAPIURL = [], DataplaneAPITimeout = 0\<rparr>
      in case boolEnv env EnvLeaderElect DefaultLeaderElect of
           Inl err \<Rightarrow> Inl err
         | Inr leaderElect \<Rightarrow>
         case positiveEnv env EnvRequeueAfter DefaultRequeueAfter of
           Inl err \<Rightarrow> Inl err
         | Inr requeueAfter \<Rightarrow>
         case positiveEnv env EnvGracefulShutdownTimeout DefaultGracefulShutdownTimeout of
           Inl err \<Rightarrow> Inl err
         | Inr gracefulShutdownTimeout \<Rightarrow>
         case positiveEnv env EnvDataplaneAPITimeout DefaultDataplaneAPITimeout of
           Inl err \<Rightarrow> Inl err
         | Inr dataplaneAPITimeout \<Rightarrow>
         let cfg = cfg\<lparr>LeaderElect := leaderElect, RequeueAfter := requeueAfter,
               GracefulShutdownTimeout := gracefulShutdownTimeout, DataplaneAPITimeout := dataplaneAPITimeout\<rparr>
         in if cc_LoadBalancerClass cfg = [] then Inl (EmptyVariable EnvLoadBalancerClass)
            else if ProviderMode cfg \<notin> set supportedProviderModes then Inl UnsupportedProviderMode
            else if ProviderMode cfg = ProviderModeLocalHAProxy \<and> HAProxyConfigPath cfg = []
              then Inl (EmptyVariable EnvHAProxyConfigPath)
            else case ParsePool (stringEnv env EnvIPPool DefaultIPPool) of
                Inl err \<Rightarrow> Inl (ParsePoolVariable err)
              | Inr ipPool \<Rightarrow>
                  let cfg = cfg\<lparr>IPPool := ipPool\<rparr> in
                  if LogLevel cfg \<notin> set supportedLogLevels then Inl UnsupportedLogLevel
                  else if ProviderMode cfg = ProviderModeDataplaneAPI then
                    (case dataplaneAPIURLFromEnv lib env of
                       Inl err \<Rightarrow> Inl err
                     | Inr u \<Rightarrow> Inr (cfg\<lparr>DataplaneAPIURL := u\<rparr>))
                  else Inr cfg)"

section \<open>What a loaded configuration guarantees\<close>

definition validConfig :: "config \<Rightarrow> bool" where
  "validConfig cfg \<longleftrightarrow>
     cc_LoadBalancerClass cfg \<noteq> [] \<and> IPPool cfg \<noteq> [] \<and> distinct (IPPool cfg) \<and> list_all Is4 (IPPool cfg) \<and>
     0 < RequeueAfter cfg \<and> RequeueAfter cfg < 2 ^ 63 \<and>
     0 < GracefulShutdownTimeout cfg \<and> GracefulShutdownTimeout cfg < 2 ^ 63 \<and>
     0 < DataplaneAPITimeout cfg \<and> DataplaneAPITimeout cfg < 2 ^ 63 \<and>
     LogLevel cfg \<in> set supportedLogLevels \<and> ProviderMode cfg \<in> set supportedProviderModes \<and>
     (ProviderMode cfg = ProviderModeLocalHAProxy \<longrightarrow> HAProxyConfigPath cfg \<noteq> [] \<and>
        TrimSpace (HAProxyConfigPath cfg) = HAProxyConfigPath cfg)"

text \<open>The URL comes from \<open>net/url\<close>'s own text of an absolute URL of HTTP.\<close>

definition validURL :: "url_lib \<Rightarrow> string \<Rightarrow> bool" where
  "validURL lib s \<longleftrightarrow> (\<exists>raw u. url_Parse lib raw = Inr u \<and> s = url_String lib u \<and> IsAbs u \<and> Host u \<noteq> [] \<and>
     Scheme u \<in> {''http'', ''https''})"

lemma stringEnv_trimmed: "TrimSpace d = d \<Longrightarrow> TrimSpace (stringEnv env key d) = stringEnv env key d"
  by (auto simp: stringEnv_def Let_def TrimSpace_idem split: option.splits)

lemma durationEnv_range:
  "durationEnv env key d = Inr x \<Longrightarrow> - (2 ^ 63) \<le> d \<Longrightarrow> d < 2 ^ 63 \<Longrightarrow> - (2 ^ 63) \<le> x \<and> x < 2 ^ 63"
  by (auto simp: durationEnv_def split: option.splits if_splits dest!: ParseDuration_range)

lemma positiveEnv_range: "positiveEnv env key d = Inr x \<Longrightarrow> 0 < d \<Longrightarrow> d < 2 ^ 63 \<Longrightarrow> 0 < x \<and> x < 2 ^ 63"
  using durationEnv_range [of env key d] by (auto simp: positiveEnv_def split: sum.splits if_splits)

lemma defaults_positive:
  "0 < DefaultRequeueAfter" "DefaultRequeueAfter < 2 ^ 63" "0 < DefaultGracefulShutdownTimeout"
  "DefaultGracefulShutdownTimeout < 2 ^ 63" "0 < DefaultDataplaneAPITimeout" "DefaultDataplaneAPITimeout < 2 ^ 63"
  by (simp_all add: DefaultRequeueAfter_def DefaultGracefulShutdownTimeout_def DefaultDataplaneAPITimeout_def Second_def)

lemma default_path: "TrimSpace DefaultHAProxyConfigPath = DefaultHAProxyConfigPath"
  by (rule TrimSpace_plain) (simp add: DefaultHAProxyConfigPath_def plain_def)

lemma ParsePool_valid: "ParsePool raw = Inr p \<Longrightarrow> p \<noteq> [] \<and> distinct p \<and> list_all Is4 p"
  by (auto simp: ParsePool_iff parse4_items)

lemma dataplaneAPIURL_valid: "dataplaneAPIURLFromEnv lib env = Inr u \<Longrightarrow> validURL lib u"
  by (auto simp: dataplaneAPIURLFromEnv_def validURL_def split: option.splits if_splits sum.splits)

text \<open>A configuration that is loaded, by its parts.\<close>

lemma Load_cases:
  assumes "Load lib env = Inr cfg"
  obtains leader requeue grace timeout where
    "boolEnv env EnvLeaderElect DefaultLeaderElect = Inr leader"
    "positiveEnv env EnvRequeueAfter DefaultRequeueAfter = Inr requeue"
    "positiveEnv env EnvGracefulShutdownTimeout DefaultGracefulShutdownTimeout = Inr grace"
    "positiveEnv env EnvDataplaneAPITimeout DefaultDataplaneAPITimeout = Inr timeout"
    "ParsePool (stringEnv env EnvIPPool DefaultIPPool) = Inr (IPPool cfg)"
    "RequeueAfter cfg = requeue" "GracefulShutdownTimeout cfg = grace" "DataplaneAPITimeout cfg = timeout"
    "cc_LoadBalancerClass cfg \<noteq> []" "ProviderMode cfg \<in> set supportedProviderModes"
    "LogLevel cfg \<in> set supportedLogLevels"
    "HAProxyConfigPath cfg = stringEnv env EnvHAProxyConfigPath DefaultHAProxyConfigPath"
    "ProviderMode cfg = ProviderModeLocalHAProxy \<longrightarrow> HAProxyConfigPath cfg \<noteq> []"
    "ProviderMode cfg = ProviderModeDataplaneAPI \<longrightarrow> dataplaneAPIURLFromEnv lib env = Inr (DataplaneAPIURL cfg)"
  using assms unfolding Load_def Let_def
  by (force split: sum.splits if_splits)

lemma Load_valid:
  assumes "Load lib env = Inr cfg"
  shows "validConfig cfg \<and> (ProviderMode cfg = ProviderModeDataplaneAPI \<longrightarrow> validURL lib (DataplaneAPIURL cfg))"
  using assms
proof (cases rule: Load_cases)
  case (1 leader requeue grace timeout)
  show ?thesis
    using positiveEnv_range [OF 1(2) defaults_positive(1,2)] positiveEnv_range [OF 1(3) defaults_positive(3,4)]
      positiveEnv_range [OF 1(4) defaults_positive(5,6)] ParsePool_valid [OF 1(5)] 1(6-14) dataplaneAPIURL_valid
      stringEnv_trimmed [OF default_path]
    by (auto simp: validConfig_def)
qed

section \<open>The dotenv file does not override\<close>

definition allSettable :: "environ \<Rightarrow> (string \<times> string) list \<Rightarrow> bool" where
  "allSettable env vs = list_all (\<lambda>(key, val). env key \<noteq> None \<or> settable key val) vs"

lemma setMissing_spec:
  "distinct (map fst vs) \<Longrightarrow> setMissing vs env = (r, env') \<Longrightarrow>
   env \<subseteq>\<^sub>m env' \<and> (r = Inr True \<longleftrightarrow> allSettable env vs) \<and> (r = Inr True \<longrightarrow> env' = map_of vs ++ env)"
proof (induction vs arbitrary: env)
  case Nil
  then show ?case by (simp add: allSettable_def)
next
  case (Cons kv vs)
  obtain k v where kv: "kv = (k, v)" by force
  have n: "k \<notin> fst ` set vs" "distinct (map fst vs)" using Cons.prems(1) kv by simp_all
  consider (there) w where "env k = Some w" | (new) "env k = None" "settable k v" | (bad) "env k = None" "\<not> settable k v"
    by blast
  then show ?case
  proof cases
    case there
    have a: "allSettable env (kv # vs) = allSettable env vs" using there kv by (simp add: allSettable_def)
    have m: "map_of (kv # vs) ++ env = map_of vs ++ env"
      using kv there by (auto simp: map_add_def fun_eq_iff split: option.splits)
    have "setMissing vs env = (r, env')" using Cons.prems there kv by simp
    from Cons.IH [OF n(2) this] show ?thesis unfolding a m .
  next
    case new
    let ?e = "env(k \<mapsto> v)"
    have "\<forall>x \<in> set vs. fst x \<noteq> k" using n(1) by force
    then have "allSettable ?e vs = allSettable env vs"
      unfolding allSettable_def by (intro list.pred_cong) auto
    then have a: "allSettable env (kv # vs) = allSettable ?e vs" using new kv by (simp add: allSettable_def)
    have m: "map_of (kv # vs) ++ env = map_of vs ++ ?e"
      using kv new n by (auto simp: map_add_def fun_eq_iff split: option.splits)
    have l: "env \<subseteq>\<^sub>m ?e" using new by (auto simp: map_le_def)
    have "setMissing vs ?e = (r, env')" using Cons.prems new kv by simp
    from Cons.IH [OF n(2) this] map_le_trans [OF l, of env'] show ?thesis unfolding a m by blast
  next
    case bad
    then show ?thesis using Cons.prems kv by (auto simp: allSettable_def)
  qed
qed

section \<open>Properties\<close>

text \<open>
  C30: A configuration that \<open>Load\<close> returns is well formed: a class, a pool of distinct IPv4
  addresses that is not empty, positive durations within 64 bits, a supported log level and
  provider mode, a path for the local provider, and for the remote provider a URL that
  \<open>net/url\<close> printed from an absolute URL of HTTP.
\<close>

theorem load_wellformed:
  assumes "Load lib env = Inr cfg"
  shows "validConfig cfg \<and> (ProviderMode cfg = ProviderModeDataplaneAPI \<longrightarrow> validURL lib (DataplaneAPIURL cfg))"
  by (rule Load_valid [OF assms])

text \<open>A library of URLs that knows the texts of one host, and that the empty text is a URL as well.\<close>

definition emptyURL :: go_url where
  "emptyURL = \<lparr>Scheme = [], Host = [], u_Path = [], u_User = [], RawQuery = [], Fragment = []\<rparr>"

definition sampleURL :: go_url where
  "sampleURL = \<lparr>Scheme = ''http'', Host = ''dataplane:8090'', u_Path = [], u_User = [], RawQuery = [], Fragment = []\<rparr>"

definition sampleURLs :: url_lib where
  "sampleURLs = \<lparr>url_Parse = (\<lambda>s. if s = ''http://dataplane:8090'' then Inr sampleURL
       else if s = [] then Inr emptyURL else Inl ''invalid''),
     url_String = (\<lambda>u. if Host u = [] then [] else ''http://dataplane:8090'')\<rparr>"

definition sampleEnv :: environ where
  "sampleEnv = [EnvProviderMode \<mapsto> '' Dataplane-API '', EnvDataplaneAPIURL \<mapsto> ''http://dataplane:8090'',
     EnvRequeueAfter \<mapsto> ''1m30s'', EnvIPPool \<mapsto> ''10.0.0.1, 10.0.0.2,'', EnvLogLevel \<mapsto> ''WARN'']"

definition sampleLoaded :: config where
  "sampleLoaded = \<lparr>cc_LoadBalancerClass = DefaultLoadBalancerClass, IPPool = [V4 10 0 0 1, V4 10 0 0 2],
     RequeueAfter = 90 * Second, MetricsAddr = DefaultMetricsAddr, HealthAddr = DefaultHealthAddr, LeaderElect = False,
     GracefulShutdownTimeout = 15 * Second, LogLevel = LogLevelWarn, ProviderMode = ProviderModeDataplaneAPI,
     HAProxyConfigPath = DefaultHAProxyConfigPath, HAProxyValidateCommand = [], HAProxyReloadCommand = [],
     DataplaneAPIURL = ''http://dataplane:8090'', DataplaneAPITimeout = 10 * Second\<rparr>"

lemma sampleEnv_loads: "Load sampleURLs sampleEnv = Inr sampleLoaded"
  by code_simp

theorem load_wellformed_witness: "Load sampleURLs sampleEnv = Inr sampleLoaded \<and> validConfig sampleLoaded"
  using load_wellformed [OF sampleEnv_loads] sampleEnv_loads by simp

text \<open>
  Without any variable set, \<open>Load\<close> returns the documented defaults.
\<close>

theorem load_defaults:
  "Load lib Map.empty = Inr \<lparr>cc_LoadBalancerClass = ''iedge.local/service-lb'',
     IPPool = [V4 203 0 113 10, V4 203 0 113 11, V4 203 0 113 12], RequeueAfter = 30 * Second,
     MetricsAddr = '':8080'', HealthAddr = '':8081'', LeaderElect = False, GracefulShutdownTimeout = 15 * Second,
     LogLevel = ''info'', ProviderMode = ''local-haproxy'', HAProxyConfigPath = ''/tmp/k8s-lb-controller-haproxy.cfg'',
     HAProxyValidateCommand = [], HAProxyReloadCommand = [], DataplaneAPIURL = [], DataplaneAPITimeout = 10 * Second\<rparr>"
  by code_simp

text \<open>
  A whole number of seconds written as \<open><n>s\<close>, with any white space around it, is read back
  as that duration, up to the largest one that fits.
\<close>

theorem duration_setting_roundtrip:
  assumes "env key = Some val" "TrimSpace val = itoa n @ ''s''" "n \<le> 9223372036"
  shows "durationEnv env key d = Inr (int n * Second)"
  using assms ParseDuration_seconds [OF assms(3)] by (simp add: durationEnv_def)

theorem duration_setting_roundtrip_witness:
  "durationEnv [EnvRequeueAfter \<mapsto> '' 45s ''] EnvRequeueAfter DefaultRequeueAfter = Inr 45000000000"
proof -
  have "TrimSpace '' 45s '' = itoa 45 @ ''s''" by code_simp
  from duration_setting_roundtrip [OF _ this, of "[EnvRequeueAfter \<mapsto> '' 45s '']" EnvRequeueAfter DefaultRequeueAfter]
  show ?thesis by (simp add: Second_def)
qed

text \<open>
  Loading the dotenv file never changes a variable that is set.  It succeeds exactly when
  every other entry has a name and a value the system accepts, and the environment is then
  the file's entries overridden by what was set before, in whatever order the entries are
  traversed.
\<close>

theorem dotenv_never_overrides:
  assumes "distinct (map fst vs)" "LoadDotEnv (DotEnv vs) env = (r, env')"
  shows "env \<subseteq>\<^sub>m env' \<and> (r = Inr True \<longleftrightarrow> allSettable env vs) \<and> (r = Inr True \<longrightarrow> env' = map_of vs ++ env)"
  using setMissing_spec [OF assms(1)] assms(2) by (simp add: LoadDotEnv_def)

theorem dotenv_never_overrides_witness:
  "LoadDotEnv (DotEnv [(''A'', ''1''), (''B'', ''2'')]) [''A'' \<mapsto> ''0''] = (Inr True, [''A'' \<mapsto> ''0'', ''B'' \<mapsto> ''2'']) \<and>
   [''A'' \<mapsto> ''0'', ''B'' \<mapsto> ''2''] = map_of [(''A'', ''1''), (''B'', ''2'')] ++ [''A'' \<mapsto> ''0'']"
proof -
  have e: "LoadDotEnv (DotEnv [(''A'', ''1''), (''B'', ''2'')]) [''A'' \<mapsto> ''0''] = (Inr True, [''A'' \<mapsto> ''0'', ''B'' \<mapsto> ''2''])"
    by (simp add: LoadDotEnv_def settable_def)
  from dotenv_never_overrides [OF _ e] e show ?thesis by simp
qed

end
