(* ===== verification/Dataplane_Config.thy ===== *)
theory Dataplane_Config
  imports Config Engine
begin

text \<open>
  \<open>internal/dataplane/config.go\<close>: the configuration of the dataplane, read from its own
  variables.  The package has its own copies of the helpers that read variables.
\<close>

section \<open>Variables and defaults\<close>

definition dp_EnvHTTPAddr :: string where "dp_EnvHTTPAddr = ''K8S_LB_DATAPLANE_HTTP_ADDR''"
definition dp_EnvHAProxyConfigPath :: string where "dp_EnvHAProxyConfigPath = ''K8S_LB_DATAPLANE_HAPROXY_CONFIG_PATH''"
definition dp_EnvHAProxyValidateCommand :: string where
  "dp_EnvHAProxyValidateCommand = ''K8S_LB_DATAPLANE_HAPROXY_VALIDATE_COMMAND''"
definition dp_EnvHAProxyReloadCommand :: string where
  "dp_EnvHAProxyReloadCommand = ''K8S_LB_DATAPLANE_HAPROXY_RELOAD_COMMAND''"
definition dp_EnvHAProxyPIDFile :: string where "dp_EnvHAProxyPIDFile = ''K8S_LB_DATAPLANE_HAPROXY_PID_FILE''"
definition dp_EnvLogLevel :: string where "dp_EnvLogLevel = ''K8S_LB_DATAPLANE_LOG_LEVEL''"
definition dp_EnvGracefulShutdownTimeout :: string where
  "dp_EnvGracefulShutdownTimeout = ''K8S_LB_DATAPLANE_GRACEFUL_SHUTDOWN_TIMEOUT''"
definition dp_EnvIPAttachEnabled :: string where "dp_EnvIPAttachEnabled = ''K8S_LB_DATAPLANE_IP_ATTACH_ENABLED''"
definition dp_EnvIPAttachMode :: string where "dp_EnvIPAttachMode = ''K8S_LB_DATAPLANE_IP_ATTACH_MODE''"
definition dp_EnvInterface :: string where "dp_EnvInterface = ''K8S_LB_DATAPLANE_INTERFACE''"
definition dp_EnvIPCommand :: string where "dp_EnvIPCommand = ''K8S_LB_DATAPLANE_IP_COMMAND''"
definition dp_EnvIPCIDRSuffix :: string where "dp_EnvIPCIDRSuffix = ''K8S_LB_DATAPLANE_IP_CIDR_SUFFIX''"

definition dp_DefaultHTTPAddr :: string where "dp_DefaultHTTPAddr = '':8090''"
definition dp_DefaultHAProxyConfigPath :: string where
  "dp_DefaultHAProxyConfigPath = ''/tmp/k8s-lb-controller-haproxy.cfg''"
definition dp_DefaultHAProxyValidateCommand :: string where "dp_DefaultHAProxyValidateCommand = []"
definition dp_DefaultHAProxyReloadCommand :: string where "dp_DefaultHAProxyReloadCommand = []"
definition dp_DefaultHAProxyPIDFile :: string where "dp_DefaultHAProxyPIDFile = []"
definition dp_DefaultLogLevel :: string where "dp_DefaultLogLevel = ''info''"
definition dp_DefaultGracefulShutdownTimeout :: int where "dp_DefaultGracefulShutdownTimeout = 15 * Second"
definition dp_DefaultIPAttachEnabled :: bool where "dp_DefaultIPAttachEnabled = False"
definition dp_DefaultIPAttachMode :: string where "dp_DefaultIPAttachMode = DefaultMode"
definition dp_DefaultInterface :: string where "dp_DefaultInterface = []"
definition dp_DefaultIPCommand :: string where "dp_DefaultIPCommand = DefaultCommandPath"
definition dp_DefaultIPCIDRSuffix :: int where "dp_DefaultIPCIDRSuffix = DefaultCIDRSuffix"

definition dp_supportedLogLevels :: "string list" where
  "dp_supportedLogLevels = [''debug'', ''info'', ''warn'', ''error'']"

section \<open>Reading variables\<close>

definition dp_stringEnv :: "environ \<Rightarrow> string \<Rightarrow> string \<Rightarrow> string" where
  "dp_stringEnv env key defaultValue =
     (case env key of None \<Rightarrow> defaultValue
      | Some val \<Rightarrow> let trimmed = TrimSpace val in if trimmed = [] then defaultValue else trimmed)"

definition dp_durationEnv :: "environ \<Rightarrow> string \<Rightarrow> int \<Rightarrow> (config_error, int) result" where
  "dp_durationEnv env key defaultValue =
     (case env key of None \<Rightarrow> Inr defaultValue
      | Some val \<Rightarrow>
          if TrimSpace val = [] then Inr defaultValue
          else case ParseDuration (TrimSpace val) of None \<Rightarrow> Inl (ParseVariable key) | Some parsed \<Rightarrow> Inr parsed)"

definition dp_boolEnv :: "environ \<Rightarrow> string \<Rightarrow> bool \<Rightarrow> (config_error, bool) result" where
  "dp_boolEnv env key defaultValue =
     (case env key of None \<Rightarrow> Inr defaultValue
      | Some val \<Rightarrow>
          if TrimSpace val = [] then Inr defaultValue
          else case ParseBool (TrimSpace val) of None \<Rightarrow> Inl (ParseVariable key) | Some parsed \<Rightarrow> Inr parsed)"

definition dp_intEnv :: "environ \<Rightarrow> string \<Rightarrow> int \<Rightarrow> (config_error, int) result" where
  "dp_intEnv env key defaultValue =
     (case env key of None \<Rightarrow> Inr defaultValue
      | Some val \<Rightarrow>
          if TrimSpace val = [] then Inr defaultValue
          else case Atoi (TrimSpace val) of None \<Rightarrow> Inl (ParseVariable key) | Some parsed \<Rightarrow> Inr parsed)"

definition dp_normalizeLogLevel :: "string \<Rightarrow> string" where
  "dp_normalizeLogLevel level = ToLower (TrimSpace level)"

text \<open>The copies agree with the helpers of the controller.\<close>

lemma dp_helpers:
  "dp_stringEnv = stringEnv" "dp_durationEnv = durationEnv" "dp_boolEnv = boolEnv" "dp_normalizeLogLevel = normalizeLogLevel"
  by (intro ext, simp add: dp_stringEnv_def stringEnv_def dp_durationEnv_def durationEnv_def dp_boolEnv_def boolEnv_def
      dp_normalizeLogLevel_def normalizeLogLevel_def)+

section \<open>The configuration\<close>

record dataplane_config =
  HTTPAddr :: string
  dp_HAProxyConfigPath :: string
  dp_HAProxyValidateCommand :: string
  dp_HAProxyReloadCommand :: string
  HAProxyPIDFile :: string
  dp_LogLevel :: string
  dp_GracefulShutdownTimeout :: int
  IPAttachEnabled :: bool
  IPAttachMode :: string
  dp_Interface :: string
  IPCommand :: string
  IPCIDRSuffix :: int

definition LoadConfig :: "environ \<Rightarrow> (config_error, dataplane_config) result" where
  "LoadConfig env =
     (let cfg = \<lparr>HTTPAddr = dp_stringEnv env dp_EnvHTTPAddr dp_DefaultHTTPAddr,
            dp_HAProxyConfigPath = dp_stringEnv env dp_EnvHAProxyConfigPath dp_DefaultHAProxyConfigPath,
            dp_HAProxyValidateCommand = dp_stringEnv env dp_EnvHAProxyValidateCommand dp_DefaultHAProxyValidateCommand,
            dp_HAProxyReloadCommand = dp_stringEnv env dp_EnvHAProxyReloadCommand dp_DefaultHAProxyReloadCommand,
            HAProxyPIDFile = dp_stringEnv env dp_EnvHAProxyPIDFile dp_DefaultHAProxyPIDFile,
            dp_LogLevel = dp_normalizeLogLevel (dp_stringEnv env dp_EnvLogLevel dp_DefaultLogLevel),
            dp_GracefulShutdownTimeout = 0, IPAttachEnabled = False,
            IPAttachMode = normalizeMode (dp_stringEnv env dp_EnvIPAttachMode dp_DefaultIPAttachMode),
            dp_Interface = dp_stringEnv env dp_EnvInterface dp_DefaultInterface,
            IPCommand = dp_stringEnv env dp_EnvIPCommand dp_DefaultIPCommand, IPCIDRSuffix = 0\<rparr>
      in case dp_durationEnv env dp_EnvGracefulShutdownTimeout dp_DefaultGracefulShutdownTimeout of
           Inl err \<Rightarrow> Inl err
         | Inr gracefulShutdownTimeout \<Rightarrow>
         if gracefulShutdownTimeout \<le> 0 then Inl (NotPositive dp_EnvGracefulShutdownTimeout)
         else case dp_boolEnv env dp_EnvIPAttachEnabled dp_DefaultIPAttachEnabled of
           Inl err \<Rightarrow> Inl err
         | Inr ipAttachEnabled \<Rightarrow>
         case dp_intEnv env dp_EnvIPCIDRSuffix dp_DefaultIPCIDRSuffix of
           Inl err \<Rightarrow> Inl err
         | Inr ipCIDRSuffix \<Rightarrow>
         let cfg = cfg\<lparr>dp_GracefulShutdownTimeout := gracefulShutdownTimeout, IPAttachEnabled := ipAttachEnabled,
               IPCIDRSuffix := ipCIDRSuffix\<rparr>
         in if HTTPAddr cfg = [] then Inl (EmptyVariable dp_EnvHTTPAddr)
            else if dp_HAProxyConfigPath cfg = [] then Inl (EmptyVariable dp_EnvHAProxyConfigPath)
            else if dp_LogLevel cfg \<notin> set dp_supportedLogLevels then Inl UnsupportedLogLevel
            else if \<not> Mode_Valid (IPAttachMode cfg) then Inl UnsupportedAttachMode
            else if IPCIDRSuffix cfg < 1 \<or> IPCIDRSuffix cfg > 32 then Inl SuffixOutOfRange
            else if IPAttachEnabled cfg \<and> dp_Interface cfg = [] then Inl (EmptyVariable dp_EnvInterface)
            else if IPAttachEnabled cfg \<and> IPAttachMode cfg = ModeExec \<and> IPCommand cfg = []
              then Inl (EmptyVariable dp_EnvIPCommand)
            else Inr cfg)"

text \<open>The settings \<open>cmd/dataplane/main.go\<close> gives to the IP manager and to the engine.\<close>

definition attachConfigOf :: "dataplane_config \<Rightarrow> attach_config" where
  "attachConfigOf cfg = \<lparr>Enabled = IPAttachEnabled cfg, Mode = IPAttachMode cfg, Interface = dp_Interface cfg,
     CommandPath = IPCommand cfg, CIDRSuffix = IPCIDRSuffix cfg\<rparr>"

definition applyConfigOf :: "dataplane_config \<Rightarrow> apply_config" where
  "applyConfigOf cfg = \<lparr>ConfigPath = dp_HAProxyConfigPath cfg, ValidateCommand = dp_HAProxyValidateCommand cfg,
     ReloadCommand = dp_HAProxyReloadCommand cfg, PIDFile = HAProxyPIDFile cfg\<rparr>"

section \<open>What a loaded configuration guarantees\<close>

lemma LoadConfig_cases:
  assumes "LoadConfig env = Inr cfg"
  obtains "0 < dp_GracefulShutdownTimeout cfg"
    "durationEnv env dp_EnvGracefulShutdownTimeout dp_DefaultGracefulShutdownTimeout = Inr (dp_GracefulShutdownTimeout cfg)"
    "HTTPAddr cfg \<noteq> []" "dp_HAProxyConfigPath cfg \<noteq> []" "dp_LogLevel cfg \<in> set dp_supportedLogLevels"
    "Mode_Valid (IPAttachMode cfg)" "1 \<le> IPCIDRSuffix cfg" "IPCIDRSuffix cfg \<le> 32"
    "IPAttachEnabled cfg \<longrightarrow> dp_Interface cfg \<noteq> []"
    "dp_HAProxyConfigPath cfg = stringEnv env dp_EnvHAProxyConfigPath dp_DefaultHAProxyConfigPath"
    "dp_Interface cfg = stringEnv env dp_EnvInterface dp_DefaultInterface"
    "IPCommand cfg = stringEnv env dp_EnvIPCommand dp_DefaultIPCommand"
  using assms unfolding LoadConfig_def Let_def dp_helpers
  by (force split: sum.splits if_splits)

lemma dp_defaults:
  "TrimSpace dp_DefaultHAProxyConfigPath = dp_DefaultHAProxyConfigPath" "TrimSpace dp_DefaultInterface = dp_DefaultInterface"
  "TrimSpace dp_DefaultIPCommand = dp_DefaultIPCommand" "dp_DefaultIPCommand \<noteq> []"
  "- (2 ^ 63) \<le> dp_DefaultGracefulShutdownTimeout" "dp_DefaultGracefulShutdownTimeout < 2 ^ 63"
  by code_simp+

lemma stringEnv_ne: "d \<noteq> [] \<Longrightarrow> stringEnv env key d \<noteq> []"
  by (auto simp: stringEnv_def Let_def split: option.splits)

lemma LoadConfig_attach:
  assumes "LoadConfig env = Inr cfg"
  shows "normalizeConfig (attachConfigOf cfg) = Inr ((attachConfigOf cfg)\<lparr>Mode := normalizeMode (IPAttachMode cfg)\<rparr>)"
  using assms
proof (cases rule: LoadConfig_cases)
  case 1
  have "TrimSpace (dp_Interface cfg) = dp_Interface cfg" "TrimSpace (IPCommand cfg) = IPCommand cfg" "IPCommand cfg \<noteq> []"
    using 1(11,12) stringEnv_trimmed dp_defaults stringEnv_ne by metis+
  moreover have "normalizeMode (IPAttachMode cfg) = ModeExec \<or> normalizeMode (IPAttachMode cfg) = ModeNetlink"
    using 1(6) by (simp add: Mode_Valid_def)
  moreover have "ModeExec \<noteq> []" "ModeNetlink \<noteq> []" by (simp_all add: ModeExec_def ModeNetlink_def)
  ultimately show ?thesis
    using 1(7-9) by (auto simp: normalizeConfig_def attachConfigOf_def Let_def)
qed

lemma LoadConfig_applier:
  assumes "LoadConfig env = Inr cfg"
  shows "\<exists>ac. NewApplier (applyConfigOf cfg) = Inr ac"
  using assms
proof (cases rule: LoadConfig_cases)
  case 1
  then show ?thesis
    using stringEnv_trimmed [OF dp_defaults(1), of env dp_EnvHAProxyConfigPath]
    by (simp add: NewApplier_def applyConfigOf_def Let_def)
qed

section \<open>Samples\<close>

definition sampleDataplaneEnv :: environ where
  "sampleDataplaneEnv = [dp_EnvIPAttachEnabled \<mapsto> ''true'', dp_EnvInterface \<mapsto> '' eth0'', dp_EnvIPAttachMode \<mapsto> ''Netlink'',
     dp_EnvIPCIDRSuffix \<mapsto> ''+32'', dp_EnvGracefulShutdownTimeout \<mapsto> ''2m'']"

definition sampleDataplaneConfig :: dataplane_config where
  "sampleDataplaneConfig = \<lparr>HTTPAddr = '':8090'', dp_HAProxyConfigPath = ''/tmp/k8s-lb-controller-haproxy.cfg'',
     dp_HAProxyValidateCommand = [], dp_HAProxyReloadCommand = [], HAProxyPIDFile = [], dp_LogLevel = ''info'',
     dp_GracefulShutdownTimeout = 120 * Second, IPAttachEnabled = True, IPAttachMode = ''netlink'', dp_Interface = ''eth0'',
     IPCommand = ''ip'', IPCIDRSuffix = 32\<rparr>"

lemma sampleDataplane_loads: "LoadConfig sampleDataplaneEnv = Inr sampleDataplaneConfig"
  by code_simp

end
