(* ===== verification/Startup.thy ===== *)
theory Startup
  imports Dataplane_Config Deployment Provider_Haproxy
begin

text \<open>
  The two programs: \<open>cmd/main.go\<close>, the controller, and \<open>cmd/dataplane/main.go\<close>, the dataplane,
  from the loading of the configuration up to the running manager and server.  The manager
  of \<open>controller-runtime\<close>, \<open>client-go\<close>'s loading of kubeconfig files and the HTTP server are
  parameters.  The controller comes with the lines it logs: a line is its message and its
  fields, whatever the level lets through.
\<close>

section \<open>Logging\<close>

datatype log_level = DebugLevel | InfoLevel | WarnLevel | ErrorLevel

definition parseLogLevel :: "string \<Rightarrow> (string, log_level) result" where
  "parseLogLevel levelName =
     (if levelName = LogLevelDebug then Inr DebugLevel
      else if levelName = LogLevelInfo then Inr InfoLevel
      else if levelName = LogLevelWarn then Inr WarnLevel
      else if levelName = LogLevelError then Inr ErrorLevel
      else Inl levelName)"

record logger_options =
  Development :: bool
  Level :: log_level

definition configureLogger :: "string \<Rightarrow> (string, logger_options) result" where
  "configureLogger levelName =
     (case parseLogLevel levelName of
        Inl err \<Rightarrow> Inl err
      | Inr level \<Rightarrow> Inr \<lparr>Development = (level = DebugLevel), Level = level\<rparr>)"

definition redactURLForLog :: "url_lib \<Rightarrow> string \<Rightarrow> string" where
  "redactURLForLog lib rawURL =
     (case url_Parse lib rawURL of
        Inl _ \<Rightarrow> rawURL
      | Inr parsedURL \<Rightarrow> url_String lib (parsedURL\<lparr>u_User := [], RawQuery := [], Fragment := []\<rparr>))"

text \<open>
  The shutdown is announced once, by whichever of the two observers comes first: the flag
  after a call and whether the call logged.
\<close>

definition logStarted :: "bool \<Rightarrow> bool \<times> bool" where
  "logStarted started = (if started then (started, False) else (True, True))"

datatype log_value = LText string | LTexts "string list" | LFlag bool | LDuration int

type_synonym log_line = "string \<times> (string \<times> log_value) list"

definition logDotEnvStatus :: "bool \<Rightarrow> log_line list" where
  "logDotEnvStatus dotEnvLoaded =
     (if dotEnvLoaded then [(''loaded environment variables from dotenv file'', [(''path'', LText DotEnvFileName)])]
      else [(''dotenv file not found, using environment variables and defaults'', [(''path'', LText DotEnvFileName)])])"

definition logProviderConfiguration :: "url_lib \<Rightarrow> config \<Rightarrow> log_line list" where
  "logProviderConfiguration lib cfg =
     (if ProviderMode cfg = ProviderModeLocalHAProxy then
        [(''provider configuration'',
          [(''providerMode'', LText (ProviderMode cfg)), (''haproxyConfigPath'', LText (HAProxyConfigPath cfg)),
           (''haproxyValidateEnabled'', LFlag (HAProxyValidateCommand cfg \<noteq> [])),
           (''haproxyReloadEnabled'', LFlag (HAProxyReloadCommand cfg \<noteq> []))])]
      else if ProviderMode cfg = ProviderModeDataplaneAPI then
        [(''provider configuration'',
          [(''providerMode'', LText (ProviderMode cfg)),
           (''dataplaneAPIURL'', LText (redactURLForLog lib (DataplaneAPIURL cfg))),
           (''dataplaneAPITimeout'', LDuration (DataplaneAPITimeout cfg))])]
      else [(''provider configuration'', [(''providerMode'', LText (ProviderMode cfg))])])"

definition logManagerConfiguration :: "config \<Rightarrow> log_line list" where
  "logManagerConfiguration cfg =
     [(''manager configuration'',
       [(''metricsAddr'', LText (MetricsAddr cfg)), (''healthAddr'', LText (HealthAddr cfg)),
        (''leaderElection'', LFlag (LeaderElect cfg)),
        (''gracefulShutdownTimeout'', LDuration (GracefulShutdownTimeout cfg)),
        (''loadBalancerClass'', LText (cc_LoadBalancerClass cfg)), (''requeueAfter'', LDuration (RequeueAfter cfg)),
        (''logLevel'', LText (LogLevel cfg)), (''providerMode'', LText (ProviderMode cfg))])]"

section \<open>The provider\<close>

datatype built_provider = LocalHAProxy apply_config haproxy_provider | RemoteDataplane api_provider

datatype build_error = HAProxyError apply_error | DataplaneAPIError api_config_error | UnsupportedProvider string

definition buildProvider :: "url_lib \<Rightarrow> config \<Rightarrow> (build_error, built_provider) result" where
  "buildProvider lib cfg =
     (if ProviderMode cfg = ProviderModeLocalHAProxy then
        (case NewHaproxyProvider \<lparr>ConfigPath = HAProxyConfigPath cfg, ValidateCommand = HAProxyValidateCommand cfg,
             ReloadCommand = HAProxyReloadCommand cfg, PIDFile = []\<rparr> of
           Inl err \<Rightarrow> Inl (HAProxyError err)
         | Inr (applier, p) \<Rightarrow> Inr (LocalHAProxy applier p))
      else if ProviderMode cfg = ProviderModeDataplaneAPI then
        (case NewApiProvider lib (DataplaneAPIURL cfg) (DataplaneAPITimeout cfg) of
           Inl err \<Rightarrow> Inl (DataplaneAPIError err)
         | Inr p \<Rightarrow> Inr (RemoteDataplane p))
      else Inl (UnsupportedProvider (ProviderMode cfg)))"

section \<open>The local kubeconfig\<close>

definition likelyInClusterEnvironment :: "environ \<Rightarrow> bool" where
  "likelyInClusterEnvironment env =
     (env ''KUBERNETES_SERVICE_HOST'' \<noteq> None \<and> env ''KUBERNETES_SERVICE_PORT'' \<noteq> None)"

fun kubeconfigFlagValue :: "string list \<Rightarrow> string" where
  "kubeconfigFlagValue [] = []"
| "kubeconfigFlagValue (a # args) =
     (let arg = TrimSpace a in
      if prefix ''--kubeconfig='' arg then TrimSpace (drop 13 arg)
      else if prefix ''-kubeconfig='' arg then TrimSpace (drop 12 arg)
      else if arg = ''--kubeconfig'' \<or> arg = ''-kubeconfig'' then
        (case args of [] \<Rightarrow> [] | v # _ \<Rightarrow> TrimSpace v)
      else kubeconfigFlagValue args)"

text \<open>\<open>os.Stat\<close>: nothing, or whether the path is a directory.\<close>

definition existingKubeconfigPaths :: "(string \<Rightarrow> bool option) \<Rightarrow> string list \<Rightarrow> string list" where
  "existingKubeconfigPaths stat paths = filter (\<lambda>path. path \<noteq> [] \<and> stat path = Some False) paths"

text \<open>\<open>client-go\<close>'s loading rules, by the explicit path, and the part of a kubeconfig the code reads.\<close>

record raw_kubeconfig =
  CurrentContext :: string
  Contexts :: "string list"

record clientcmd_lib =
  GetLoadingPrecedence :: "string \<Rightarrow> string list"
  cmd_Load :: "string \<Rightarrow> (string, raw_kubeconfig) result"

datatype kubeconfig_diagnostic_kind = MissingCurrentContext | NoKubeconfig

record kubeconfig_diagnostic =
  diag_kind :: kubeconfig_diagnostic_kind
  kubeconfigPath :: string
  availableContexts :: "string list"
  checkedSources :: "string list"
  suggestedCommand :: string

definition diagnoseLocalKubeconfig ::
  "clientcmd_lib \<Rightarrow> (string \<Rightarrow> bool option) \<Rightarrow> string list \<Rightarrow> (string, kubeconfig_diagnostic option) result" where
  "diagnoseLocalKubeconfig lib stat args =
     (let explicitPath = kubeconfigFlagValue args;
          sources = GetLoadingPrecedence lib explicitPath
      in case existingKubeconfigPaths stat sources of
           [] \<Rightarrow> Inr (Some \<lparr>diag_kind = NoKubeconfig, kubeconfigPath = [], availableContexts = [],
             checkedSources = sources, suggestedCommand = []\<rparr>)
         | existing # _ \<Rightarrow>
             (case cmd_Load lib explicitPath of
                Inl err \<Rightarrow> Inl err
              | Inr rawConfig \<Rightarrow>
                  if CurrentContext rawConfig \<noteq> [] \<or> Contexts rawConfig = [] then Inr None
                  else
                    let contexts = sort_Slice (\<lambda>a b. a < b) (Contexts rawConfig) in
                    if contexts = [] then Inr None
                    else Inr (Some \<lparr>diag_kind = MissingCurrentContext, kubeconfigPath = existing,
                      availableContexts = contexts, checkedSources = sources,
                      suggestedCommand = ''kubectl config use-context '' @ hd contexts\<rparr>)))"

definition logPreflightKubeconfigDiagnostic :: "kubeconfig_diagnostic \<Rightarrow> log_line list" where
  "logPreflightKubeconfigDiagnostic diagnostic =
     (case diag_kind diagnostic of
        MissingCurrentContext \<Rightarrow>
          [(''kubeconfig found, but current-context is not set'',
            [(''kubeconfigPath'', LText (kubeconfigPath diagnostic)),
             (''availableContexts'', LTexts (availableContexts diagnostic))] @
            (if suggestedCommand diagnostic \<noteq> [] then [(''suggestedCommand'', LText (suggestedCommand diagnostic))] else []))]
      | NoKubeconfig \<Rightarrow>
          [(''no kubeconfig found for local run'', [(''checkedSources'', LTexts (checkedSources diagnostic))])])"

section \<open>The controller\<close>

text \<open>
  \<open>controller-runtime\<close>: whether each call fails, and how the manager ends, with an error or
  not and with the shutdown signal received or not.
\<close>

record manager_lib =
  GetConfig :: "string option"
  NewManager_err :: "config \<Rightarrow> string option"
  SetupControllers_err :: "config \<Rightarrow> built_provider \<Rightarrow> string option"
  AddHealthzCheck :: "string option"
  AddReadyzCheck :: "string option"
  Start :: "config \<Rightarrow> built_provider \<Rightarrow> string option \<times> bool"

datatype main_error =
    LoadDotEnvFailed dotenv_error
  | LoadConfigFailed config_error
  | ConfigureLoggerFailed string
  | InspectKubeconfigFailed string
  | KubeconfigDiagnosed kubeconfig_diagnostic
  | ClientConfigFailed string
  | ManagerFailed string
  | ProviderFailed build_error
  | SetupFailed string
  | HealthCheckFailed string
  | ReadyCheckFailed string
  | GracefulShutdownFailed string
  | RunningManagerFailed string

datatype main_exit = ShutdownCompleted | ManagerReturned

text \<open>The checks before a local run: the early exit, if any, and what is logged.\<close>

definition preflight ::
  "clientcmd_lib \<Rightarrow> (string \<Rightarrow> bool option) \<Rightarrow> string list \<Rightarrow> environ \<Rightarrow> main_error option \<times> log_line list" where
  "preflight cmd stat args env =
     (if likelyInClusterEnvironment env then (None, [])
      else case diagnoseLocalKubeconfig cmd stat args of
        Inl err \<Rightarrow> (Some (InspectKubeconfigFailed err), [(''unable to inspect local kubeconfig'', [])])
      | Inr (Some diagnostic) \<Rightarrow>
          (Some (KubeconfigDiagnosed diagnostic), logPreflightKubeconfigDiagnostic diagnostic)
      | Inr None \<Rightarrow> (None, []))"

text \<open>How the main routine ends once the manager has returned, with and without the signal.\<close>

definition concluded :: "bool \<Rightarrow> string option \<Rightarrow> string list \<times> (main_error, main_exit) result" where
  "concluded shutdown err =
     (case err of
        Some e \<Rightarrow> if shutdown then ([''graceful shutdown failed''], Inl (GracefulShutdownFailed e))
          else ([''problem running manager''], Inl (RunningManagerFailed e))
      | None \<Rightarrow> if shutdown then ([''graceful shutdown completed''], Inr ShutdownCompleted) else ([], Inr ManagerReturned))"

text \<open>
  From the configuration on: the manager, the provider, the controllers, and the run.  The
  lines are those before the manager runs; those of the shutdown depend on how the routines
  interleave and are in \<open>Processes\<close>.
\<close>

definition runController ::
  "url_lib \<Rightarrow> manager_lib \<Rightarrow> config \<Rightarrow> (main_error, main_exit) result \<times> log_line list" where
  "runController lib mgr cfg =
     (case GetConfig mgr of
        Some err \<Rightarrow> (Inl (ClientConfigFailed err), [(''unable to load Kubernetes client configuration'', [])])
      | None \<Rightarrow>
      case NewManager_err mgr cfg of
        Some err \<Rightarrow> (Inl (ManagerFailed err), [(''unable to start manager'', [])])
      | None \<Rightarrow>
      case buildProvider lib cfg of
        Inl err \<Rightarrow> (Inl (ProviderFailed err),
          [(''unable to create service provider'', [(''providerMode'', LText (ProviderMode cfg))])])
      | Inr serviceProvider \<Rightarrow>
      let provided = logProviderConfiguration lib cfg in
      case SetupControllers_err mgr cfg serviceProvider of
        Some err \<Rightarrow> (Inl (SetupFailed err), provided @ [(''unable to set up controllers'', [])])
      | None \<Rightarrow>
      case AddHealthzCheck mgr of
        Some err \<Rightarrow> (Inl (HealthCheckFailed err), provided @ [(''unable to set up health check'', [])])
      | None \<Rightarrow>
      case AddReadyzCheck mgr of
        Some err \<Rightarrow> (Inl (ReadyCheckFailed err), provided @ [(''unable to set up ready check'', [])])
      | None \<Rightarrow>
      case Start mgr cfg serviceProvider of
        (err, shutdown) \<Rightarrow> (snd (concluded shutdown err), provided @ logManagerConfiguration cfg))"

definition controllerMain ::
  "url_lib \<Rightarrow> clientcmd_lib \<Rightarrow> (string \<Rightarrow> bool option) \<Rightarrow> manager_lib \<Rightarrow> dotenv_file \<Rightarrow> string list \<Rightarrow> environ \<Rightarrow>
   (main_error, main_exit) result \<times> log_line list" where
  "controllerMain lib cmd stat mgr file args env =
     (case LoadDotEnv file env of
        (Inl err, env) \<Rightarrow> (Inl (LoadDotEnvFailed err), [])
      | (Inr dotEnvLoaded, env) \<Rightarrow>
          (case Load lib env of
             Inl err \<Rightarrow> (Inl (LoadConfigFailed err), [])
           | Inr cfg \<Rightarrow>
               (case configureLogger (LogLevel cfg) of
                  Inl err \<Rightarrow> (Inl (ConfigureLoggerFailed err), [])
                | Inr logger \<Rightarrow>
                    let begun = [(''startup beginning'', [])] @ logDotEnvStatus dotEnvLoaded in
                    (case preflight cmd stat args env of
                       (Some err, ls) \<Rightarrow> (Inl err, begun @ ls)
                     | (None, ls) \<Rightarrow>
                         (case runController lib mgr cfg of (x, ls') \<Rightarrow> (x, begun @ ls @ ls'))))))"

section \<open>The dataplane\<close>

definition dp_parseLogLevel :: "string \<Rightarrow> (string, log_level) result" where
  "dp_parseLogLevel levelName =
     (if levelName = ''debug'' then Inr DebugLevel
      else if levelName = ''info'' then Inr InfoLevel
      else if levelName = ''warn'' then Inr WarnLevel
      else if levelName = ''error'' then Inr ErrorLevel
      else Inl levelName)"

datatype dataplane_main_error =
    DPLoadDotEnvFailed dotenv_error
  | DPLoadConfigFailed config_error
  | DPConfigureLoggerFailed string
  | IPManagerFailed manager_error
  | EngineFailed apply_error
  | DPBootstrapFailed apply_error

text \<open>
  Up to the server: the loaded configuration and the handler that the HTTP server is
  started with.  \<open>makeApplier\<close> is the applier on this host, \<open>deps\<close> its network.
\<close>

definition dataplaneStart ::
  "'w dependencies \<Rightarrow> (apply_config \<Rightarrow> 'w config_applier_ops) \<Rightarrow> dotenv_file \<Rightarrow> environ \<Rightarrow> 'w \<Rightarrow>
   (dataplane_main_error, dataplane_config \<times> 'w handler) result \<times> 'w" where
  "dataplaneStart deps makeApplier file env w =
     (case LoadDotEnv file env of
        (Inl err, env) \<Rightarrow> (Inl (DPLoadDotEnvFailed err), w)
      | (Inr dotEnvLoaded, env) \<Rightarrow>
      case LoadConfig env of Inl err \<Rightarrow> (Inl (DPLoadConfigFailed err), w)
      | Inr cfg \<Rightarrow>
      case dp_parseLogLevel (dp_LogLevel cfg) of Inl err \<Rightarrow> (Inl (DPConfigureLoggerFailed err), w)
      | Inr level \<Rightarrow>
      case NewManager (attachConfigOf cfg) deps of Inl err \<Rightarrow> (Inl (IPManagerFailed err), w)
      | Inr ipManager \<Rightarrow>
      case NewEngine makeApplier \<lparr>ec_Apply = applyConfigOf cfg, ec_Applier = None, ec_IPManager = Some ipManager\<rparr> of
        Inl err \<Rightarrow> (Inl (EngineFailed err), w)
      | Inr engine \<Rightarrow>
      case Engine_Bootstrap engine w of
        (Some err, w) \<Rightarrow> (Inl (DPBootstrapFailed err), w)
      | (None, w) \<Rightarrow> (Inr (cfg, NewHandler engine 0), w))"

text \<open>
  The end of the program: the server stops by itself, with an error or not, or the signal
  comes first; in both cases but the error the server is shut down, which may fail.
\<close>

datatype server_event = ServerStopped "string option" | SignalReceived

datatype dataplane_exit = StoppedUnexpectedly string | DPShutdownFailed string | DPShutdownCompleted

definition dataplaneStop :: "server_event \<Rightarrow> string option \<Rightarrow> dataplane_exit" where
  "dataplaneStop event shutdown =
     (case event of
        ServerStopped (Some err) \<Rightarrow> StoppedUnexpectedly err
      | _ \<Rightarrow> (case shutdown of Some err \<Rightarrow> DPShutdownFailed err | None \<Rightarrow> DPShutdownCompleted))"

section \<open>What the start-up relies on\<close>

text \<open>
  The text \<open>net/url\<close> prints for a URL of the schemes \<open>http\<close> and \<open>https\<close> that it parsed and that has
  a host begins with the scheme, and it parses again, to a URL with the same scheme and host.
\<close>

definition webURL :: "go_url \<Rightarrow> bool" where
  "webURL u \<longleftrightarrow> Scheme u \<in> {''http'', ''https''} \<and> Host u \<noteq> []"

locale url_printing =
  fixes lib :: url_lib
  assumes reparse: "url_Parse lib raw = Inr u \<Longrightarrow> webURL u \<Longrightarrow>
    \<exists>u'. url_Parse lib (TrimSpace (url_String lib u)) = Inr u' \<and> Scheme u' = Scheme u \<and> Host u' = Host u"
    and text_ne: "url_Parse lib raw = Inr u \<Longrightarrow> webURL u \<Longrightarrow> TrimSpace (url_String lib u) \<noteq> []"
begin

lemma NewApiProvider_valid:
  assumes "validURL lib s" "0 < t"
  shows "\<exists>p. NewApiProvider lib s t = Inr p"
proof -
  obtain raw u where u: "url_Parse lib raw = Inr u" "s = url_String lib u" "IsAbs u" "Host u \<noteq> []"
    "Scheme u \<in> {''http'', ''https''}" using assms(1) unfolding validURL_def by blast
  have w: "webURL u" using u(4,5) by (simp add: webURL_def)
  obtain u' where "url_Parse lib (TrimSpace s) = Inr u'" "Scheme u' = Scheme u" "Host u' = Host u"
    using reparse [OF u(1) w] u(2) by blast
  then show ?thesis using u text_ne [OF u(1) w] assms(2) by (auto simp: NewApiProvider_def IsAbs_def Let_def)
qed

lemma buildProvider_loaded:
  assumes "Load lib env = Inr cfg"
  shows "\<exists>p. buildProvider lib cfg = Inr p"
proof -
  have v: "validConfig cfg" "ProviderMode cfg = ProviderModeDataplaneAPI \<Longrightarrow> validURL lib (DataplaneAPIURL cfg)"
    using Load_valid [OF assms] by blast+
  have ne: "ProviderModeLocalHAProxy \<noteq> ProviderModeDataplaneAPI"
    by (simp add: ProviderModeLocalHAProxy_def ProviderModeDataplaneAPI_def)
  consider (local) "ProviderMode cfg = ProviderModeLocalHAProxy" | (remote) "ProviderMode cfg = ProviderModeDataplaneAPI"
    using v(1) by (auto simp: validConfig_def supportedProviderModes_def)
  then show ?thesis
  proof cases
    case local
    then show ?thesis
      using v(1) by (auto simp: buildProvider_def NewHaproxyProvider_def NewApplier_def validConfig_def Let_def)
  next
    case remote
    then obtain p where "NewApiProvider lib (DataplaneAPIURL cfg) (DataplaneAPITimeout cfg) = Inr p"
      using NewApiProvider_valid [OF v(2)] v(1) by (auto simp: validConfig_def)
    then show ?thesis using remote ne by (simp add: buildProvider_def)
  qed
qed

end

interpretation sampleurls: url_printing sampleURLs
  by unfold_locales
    (auto simp: sampleURLs_def sampleURL_def emptyURL_def webURL_def TrimSpace_plain plain_def split: if_splits)

lemma configureLogger_supported: "l \<in> set supportedLogLevels \<Longrightarrow> \<exists>opts. configureLogger l = Inr opts"
  by (auto simp: configureLogger_def parseLogLevel_def supportedLogLevels_def split: sum.splits)

lemma dp_parseLogLevel_supported: "l \<in> set dp_supportedLogLevels \<Longrightarrow> \<exists>level. dp_parseLogLevel l = Inr level"
  by (auto simp: dp_parseLogLevel_def dp_supportedLogLevels_def)

text \<open>The network of the dataplane's host supports the mode that is configured.\<close>

definition attachable :: "'w dependencies \<Rightarrow> dataplane_config \<Rightarrow> bool" where
  "attachable deps cfg \<longleftrightarrow> \<not> IPAttachEnabled cfg \<or> normalizeMode (IPAttachMode cfg) = ModeExec \<or>
     NetlinkClient deps \<noteq> None \<or> defaultNetlinkClient deps \<noteq> None"

lemma NewManager_loaded:
  assumes "LoadConfig env = Inr cfg"
  shows "(\<exists>m. NewManager (attachConfigOf cfg) deps = Inr m) \<longleftrightarrow> attachable deps cfg"
proof -
  have "normalizeMode (IPAttachMode cfg) = ModeExec \<or> normalizeMode (IPAttachMode cfg) = ModeNetlink"
    using assms by (cases rule: LoadConfig_cases) (simp add: Mode_Valid_def)
  then show ?thesis
    using LoadConfig_attach [OF assms]
    by (auto simp: NewManager_def newNetlinkManager_def attachable_def attachConfigOf_def ModeExec_def ModeNetlink_def
        split: option.splits)
qed

text \<open>The start of the dataplane, by its parts.\<close>

lemma dataplaneStart_cases:
  assumes "dataplaneStart deps mk file env w = (Inr (cfg, h), w')"
  obtains b env1 m ac where "LoadDotEnv file env = (Inr b, env1)" "LoadConfig env1 = Inr cfg"
    "NewManager (attachConfigOf cfg) deps = Inr m" "NewApplier (applyConfigOf cfg) = Inr ac"
    "app_Bootstrap (mk ac) w = (None, w')"
    "h = NewHandler \<lparr>eng_store = NewStore, eng_applier = mk ac, eng_ipm = m\<rparr> 0"
  using assms
  by (auto simp: dataplaneStart_def NewEngine_def Engine_Bootstrap_def Let_def
      split: prod.splits sum.splits option.splits)

lemma dataplaneStart_eq:
  assumes "LoadDotEnv file env = (Inr b, env1)" "LoadConfig env1 = Inr cfg" "NewManager (attachConfigOf cfg) deps = Inr m"
    "NewApplier (applyConfigOf cfg) = Inr ac"
  shows "dataplaneStart deps mk file env w =
    (case app_Bootstrap (mk ac) w of (Some err, w) \<Rightarrow> (Inl (DPBootstrapFailed err), w)
     | (None, w) \<Rightarrow> (Inr (cfg, NewHandler \<lparr>eng_store = NewStore, eng_applier = mk ac, eng_ipm = m\<rparr> 0), w))"
proof -
  have "dp_LogLevel cfg \<in> set dp_supportedLogLevels" using assms(2) by (cases rule: LoadConfig_cases)
  then obtain level where "dp_parseLogLevel (dp_LogLevel cfg) = Inr level" using dp_parseLogLevel_supported by blast
  then show ?thesis
    using assms by (simp add: dataplaneStart_def NewEngine_def Engine_Bootstrap_def Let_def)
qed

section \<open>A host for the dataplane\<close>

definition clientOnHost :: "'a netlink_client \<Rightarrow> ('a \<times> 'b) netlink_client" where
  "clientOnHost c = \<lparr>ListIPv4Addrs = (\<lambda>i. onFst (ListIPv4Addrs c i)), AddIPv4Addr = (\<lambda>i q. onFst (AddIPv4Addr c i q)),
     DeleteIPv4Addr = (\<lambda>i q. onFst (DeleteIPv4Addr c i q))\<rparr>"

lemma clientOnHost_sel [simp]:
  "ListIPv4Addrs (clientOnHost c) i = onFst (ListIPv4Addrs c i)"
  "AddIPv4Addr (clientOnHost c) i q = onFst (AddIPv4Addr c i q)"
  "DeleteIPv4Addr (clientOnHost c) i q = onFst (DeleteIPv4Addr c i q)"
  by (simp_all add: clientOnHost_def)

lemma netlinkManager_onHost: "netlinkManager cfg (clientOnHost c) = managerOnHost (netlinkManager cfg c)"
proof -
  have l: "Netlink_List cfg (clientOnHost c) w = onFst (Netlink_List cfg c) w" for w :: "'a \<times> 'b"
    by (simp add: Netlink_List_def onFst_def split: prod.splits sum.splits)
  have e: "ensureNetlinkStateAfterOperation cfg (clientOnHost c) a p act er w =
      onFst (ensureNetlinkStateAfterOperation cfg c a p act er) w" for a p act er and w :: "'a \<times> 'b"
    by (simp add: ensureNetlinkStateAfterOperation_def l onFst_def split: prod.splits sum.splits)
  have "Netlink_EnsurePresent cfg (clientOnHost c) a w = onFst (Netlink_EnsurePresent cfg c a) w" for a and w :: "'a \<times> 'b"
    by (simp add: Netlink_EnsurePresent_def l e onFst_def split: prod.splits sum.splits option.splits)
  moreover have "Netlink_EnsureAbsent cfg (clientOnHost c) a w = onFst (Netlink_EnsureAbsent cfg c a) w" for a and w :: "'a \<times> 'b"
    by (simp add: Netlink_EnsureAbsent_def l e onFst_def split: prod.splits sum.splits option.splits)
  ultimately show ?thesis using l by (simp add: netlinkManager_def managerOnHost_def fun_eq_iff)
qed

definition hostDeps :: "(kernel \<times> os) dependencies" where
  "hostDeps = \<lparr>Runner = None, NetlinkClient = None, ExecRunner = (\<lambda>_ _ w. (([], Some ''not found''), w)),
     defaultNetlinkClient = Some (clientOnHost (linuxNetlinkClient kernelLib))\<rparr>"

definition makeHostApplier :: "apply_config \<Rightarrow> (kernel \<times> os) config_applier_ops" where
  "makeHostApplier ac = applierOnHost (Applier ac quietExec)"

definition hostEnv :: environ where
  "hostEnv = sampleDataplaneEnv(dp_EnvHAProxyConfigPath \<mapsto> ''/etc/haproxy.cfg'',
     dp_EnvHAProxyValidateCommand \<mapsto> ''haproxy -c -f {{config}}'', dp_EnvHAProxyReloadCommand \<mapsto> ''reload-haproxy'')"

definition hostConfig :: dataplane_config where
  "hostConfig = sampleDataplaneConfig\<lparr>dp_HAProxyConfigPath := ''/etc/haproxy.cfg'',
     dp_HAProxyValidateCommand := ''haproxy -c -f {{config}}'', dp_HAProxyReloadCommand := ''reload-haproxy''\<rparr>"

lemma hostEnv_loads: "LoadConfig hostEnv = Inr hostConfig" "NewApplier (applyConfigOf hostConfig) = Inr sampleApply"
  "normalizeConfig (attachConfigOf hostConfig) = Inr sampleAttach" "attachable hostDeps hostConfig"
  by (code_simp, code_simp, code_simp, simp add: attachable_def hostDeps_def)

lemma hostManager_made: "NewManager (attachConfigOf hostConfig) hostDeps = Inr hostManager"
proof -
  have m: "Enabled sampleAttach" "Mode sampleAttach = ModeNetlink" "ModeNetlink \<noteq> ModeExec"
    by (simp_all add: sampleAttach_def ModeNetlink_def ModeExec_def)
  show ?thesis
    using hostEnv_loads(3) m
    by (simp add: NewManager_def newNetlinkManager_def hostDeps_def netlinkManager_onHost hostManager_def)
qed

lemma host_boots: "\<exists>w. app_Bootstrap (makeHostApplier sampleApply) hostWorld = (None, w)"
proof -
  have "fst (Applier_Bootstrap sampleApply quietExec sampleOs) = None" by code_simp
  then show ?thesis
    by (auto simp: makeHostApplier_def applierOnHost_def Applier_def onSnd_def hostWorld_def split: prod.splits)
qed

lemma host_starts: "\<exists>h w. dataplaneStart hostDeps makeHostApplier NoDotEnv hostEnv hostWorld = (Inr (hostConfig, h), w)"
proof -
  have "LoadDotEnv NoDotEnv hostEnv = (Inr False, hostEnv)" by (simp add: LoadDotEnv_def)
  moreover obtain w where "app_Bootstrap (makeHostApplier sampleApply) hostWorld = (None, w)" using host_boots by blast
  ultimately show ?thesis
    using dataplaneStart_eq [OF _ hostEnv_loads(1) hostManager_made hostEnv_loads(2), of NoDotEnv hostEnv False makeHostApplier]
    by (auto simp del: split_paired_Ex)
qed

text \<open>What a start leaves behind.\<close>

lemma start_establishes:
  assumes "dataplaneStart deps mk file env w = (Inr (cfg, h), w')"
    and "NewManager (attachConfigOf cfg) deps = Inr m" "NewApplier (applyConfigOf cfg) = Inr ac"
    and "engine_attach m view (mk ac) active ok" "ok w"
  shows "dpOk m view (mk ac) ok (h, w') \<and> dpStore (h, w') = Map.empty \<and> view w' = view w \<and>
    (\<exists>conf. Render [] = Inr conf \<and> active w' = Some conf) \<and>
    ready h \<and> maxRequestBodyBytes h = DefaultMaxRequestBodyBytes"
  using assms(1)
proof (cases rule: dataplaneStart_cases)
  case (1 b env1 m' ac')
  then have h: "h = NewHandler \<lparr>eng_store = NewStore, eng_applier = mk ac, eng_ipm = m\<rparr> 0"
    and boot: "app_Bootstrap (mk ac) w = (None, w')" using assms(2,3) by auto
  note env = engine_attach.axioms(1) [OF assms(4)]
  note ca = engine_env.axioms(2) [OF env]
  have "ok w'" "\<exists>conf. Render [] = Inr conf \<and> active w' = Some conf" "view w' = view w"
    using config_applier.boot_keeps [OF ca assms(5) boot] config_applier.boot_ok [OF ca assms(5) boot]
      engine_env.boot_view [OF env boot] by auto
  then show ?thesis
    using h store_ok_New ds.listing_empty ds.get_empty
    by (simp add: dpOk_def dpStore_def dpServices_def NewHandler_def wired_def engine_ok_def wantedIPs_def
        del: Store_Get_map_of)
qed

section \<open>Properties\<close>

text \<open>
  C31: A dataplane configuration that \<open>LoadConfig\<close> returns is within its bounds and complete for
  what is built from it.  The applier accepts its settings; the attachment settings are
  normal but for the spelling of the mode; and the IP manager is built exactly when attachment is off, its
  mode is \<open>exec\<close>, or the system has a netlink client: it is then the disabled manager, the
  manager over the \<open>ip\<close> command or the netlink manager, as configured.
\<close>

theorem dataplane_config_accepted:
  assumes "LoadConfig env = Inr cfg"
  shows "0 < dp_GracefulShutdownTimeout cfg \<and> dp_GracefulShutdownTimeout cfg < 2 ^ 63 \<and>
    1 \<le> IPCIDRSuffix cfg \<and> IPCIDRSuffix cfg \<le> 32 \<and> HTTPAddr cfg \<noteq> [] \<and>
    dp_LogLevel cfg \<in> set dp_supportedLogLevels \<and>
    normalizeConfig (attachConfigOf cfg) = Inr ((attachConfigOf cfg)\<lparr>Mode := normalizeMode (IPAttachMode cfg)\<rparr>) \<and>
    (\<exists>ac. NewApplier (applyConfigOf cfg) = Inr ac) \<and>
    NewManager (attachConfigOf cfg) deps =
      (let normalized = (attachConfigOf cfg)\<lparr>Mode := normalizeMode (IPAttachMode cfg)\<rparr> in
       if \<not> IPAttachEnabled cfg then Inr noopManager
       else if normalizeMode (IPAttachMode cfg) = ModeExec
         then Inr (execManager normalized (case Runner deps of None \<Rightarrow> ExecRunner deps | Some runner \<Rightarrow> runner))
       else case (NetlinkClient deps, defaultNetlinkClient deps) of
           (Some client, _) \<Rightarrow> Inr (netlinkManager normalized client)
         | (None, Some client) \<Rightarrow> Inr (netlinkManager normalized client)
         | (None, None) \<Rightarrow> Inl NetlinkOnlyOnLinux)"
  using assms
proof (cases rule: LoadConfig_cases)
  case 1
  have m: "normalizeMode (IPAttachMode cfg) = ModeExec \<or> normalizeMode (IPAttachMode cfg) = ModeNetlink"
    using 1(6) by (simp add: Mode_Valid_def)
  have "ModeNetlink \<noteq> ModeExec" by (simp add: ModeNetlink_def ModeExec_def)
  then have "NewManager (attachConfigOf cfg) deps =
      (let normalized = (attachConfigOf cfg)\<lparr>Mode := normalizeMode (IPAttachMode cfg)\<rparr> in
       if \<not> IPAttachEnabled cfg then Inr noopManager
       else if normalizeMode (IPAttachMode cfg) = ModeExec
         then Inr (execManager normalized (case Runner deps of None \<Rightarrow> ExecRunner deps | Some runner \<Rightarrow> runner))
       else case (NetlinkClient deps, defaultNetlinkClient deps) of
           (Some client, _) \<Rightarrow> Inr (netlinkManager normalized client)
         | (None, Some client) \<Rightarrow> Inr (netlinkManager normalized client)
         | (None, None) \<Rightarrow> Inl NetlinkOnlyOnLinux)"
    using LoadConfig_attach [OF assms] m
    by (auto simp: NewManager_def newNetlinkManager_def newExecManager_def attachConfigOf_def Let_def split: option.splits)
  then show ?thesis
    using 1(1,3,5,7,8) durationEnv_range [OF 1(2) dp_defaults(5,6)] LoadConfig_attach [OF assms] LoadConfig_applier [OF assms]
    by blast
qed

theorem dataplane_config_accepted_witness:
  "LoadConfig hostEnv = Inr hostConfig \<and>
   NewManager (attachConfigOf hostConfig) hostDeps =
     Inr (netlinkManager ((attachConfigOf hostConfig)\<lparr>Mode := ModeNetlink\<rparr>) (clientOnHost (linuxNetlinkClient kernelLib))) \<and>
   NewManager (attachConfigOf hostConfig) (hostDeps\<lparr>defaultNetlinkClient := None\<rparr>) = Inl NetlinkOnlyOnLinux"
proof -
  have c: "IPAttachEnabled hostConfig" "normalizeMode (IPAttachMode hostConfig) = ModeNetlink" "ModeNetlink \<noteq> ModeExec"
    by code_simp+
  show ?thesis
    using dataplane_config_accepted [OF hostEnv_loads(1), of hostDeps]
      dataplane_config_accepted [OF hostEnv_loads(1), of "hostDeps\<lparr>defaultNetlinkClient := None\<rparr>"] hostEnv_loads(1) c
    by (simp add: hostDeps_def)
qed

text \<open>
  C32: Whatever configuration \<open>Load\<close> accepts, the logger can be configured and the provider
  built from it, so that a start of the controller fails after that only in the Kubernetes
  client, the manager or the local kubeconfig.
\<close>

theorem loaded_config_builds:
  assumes "url_printing lib" "Load lib env = Inr cfg"
  shows "(\<exists>opts. configureLogger (LogLevel cfg) = Inr opts) \<and>
    (\<exists>p. buildProvider lib cfg = Inr p \<and> fst (runController lib mgr cfg) \<noteq> Inl (ProviderFailed err))"
proof -
  obtain p where p: "buildProvider lib cfg = Inr p" using url_printing.buildProvider_loaded [OF assms] by blast
  then have "fst (runController lib mgr cfg) \<noteq> Inl (ProviderFailed err)"
    by (auto simp: runController_def concluded_def Let_def split: option.splits prod.splits if_splits)
  then show ?thesis
    using p configureLogger_supported Load_valid [OF assms(2)] by (auto simp: validConfig_def)
qed

theorem loaded_config_builds_witness:
  "\<exists>p. Load sampleURLs sampleEnv = Inr sampleLoaded \<and> buildProvider sampleURLs sampleLoaded = Inr p"
  using loaded_config_builds [OF sampleurls.url_printing_axioms sampleEnv_loads] sampleEnv_loads by blast

text \<open>
  Once the environment is loaded, the dataplane starts exactly when its configuration is
  accepted, the host supports the configured attachment, and the bootstrap configuration
  can be applied.
\<close>

theorem dataplane_starts_iff:
  assumes "LoadDotEnv file env = (Inr b, env1)"
  shows "(\<exists>cfg h w'. dataplaneStart deps mk file env w = (Inr (cfg, h), w')) \<longleftrightarrow>
    (\<exists>cfg ac w'. LoadConfig env1 = Inr cfg \<and> attachable deps cfg \<and> NewApplier (applyConfigOf cfg) = Inr ac \<and>
      app_Bootstrap (mk ac) w = (None, w'))"
proof
  assume "\<exists>cfg h w'. dataplaneStart deps mk file env w = (Inr (cfg, h), w')"
  then obtain cfg h w' where "dataplaneStart deps mk file env w = (Inr (cfg, h), w')" by blast
  then show "\<exists>cfg ac w'. LoadConfig env1 = Inr cfg \<and> attachable deps cfg \<and> NewApplier (applyConfigOf cfg) = Inr ac \<and>
      app_Bootstrap (mk ac) w = (None, w')"
    using assms NewManager_loaded by (cases rule: dataplaneStart_cases) fastforce
next
  assume "\<exists>cfg ac w'. LoadConfig env1 = Inr cfg \<and> attachable deps cfg \<and> NewApplier (applyConfigOf cfg) = Inr ac \<and>
      app_Bootstrap (mk ac) w = (None, w')"
  then obtain cfg ac w' where h: "LoadConfig env1 = Inr cfg" "attachable deps cfg" "NewApplier (applyConfigOf cfg) = Inr ac"
    "app_Bootstrap (mk ac) w = (None, w')" by blast
  then obtain m where "NewManager (attachConfigOf cfg) deps = Inr m" using NewManager_loaded by blast
  from dataplaneStart_eq [OF assms h(1) this h(3)] h(4)
  show "\<exists>cfg h w'. dataplaneStart deps mk file env w = (Inr (cfg, h), w')" by fastforce
qed

theorem dataplane_starts_iff_witness:
  "\<exists>cfg h w. dataplaneStart hostDeps makeHostApplier NoDotEnv hostEnv hostWorld = (Inr (cfg, h), w)"
proof -
  have "LoadDotEnv NoDotEnv hostEnv = (Inr False, hostEnv)" by (simp add: LoadDotEnv_def)
  note iff = dataplane_starts_iff [OF this, of hostDeps makeHostApplier hostWorld]
  show ?thesis unfolding iff using hostEnv_loads host_boots by blast
qed

text \<open>
  C29: A dataplane that has started satisfies the invariant of the running dataplane: its
  engine is well formed and empty, no attached address has been touched, the active
  configuration is the rendering of no Services, and the handler is ready with the default
  limit on request bodies.
\<close>

theorem dataplane_start_establishes_invariant:
  assumes "dataplaneStart deps mk file env w = (Inr (cfg, h), w')"
    and "NewManager (attachConfigOf cfg) deps = Inr m" "NewApplier (applyConfigOf cfg) = Inr ac"
    and "engine_attach m view (mk ac) active ok" "ok w"
  shows "dpOk m view (mk ac) ok (h, w') \<and> dpStore (h, w') = Map.empty \<and> view w' = view w \<and>
    (\<exists>conf. Render [] = Inr conf \<and> active w' = Some conf) \<and>
    ready h \<and> maxRequestBodyBytes h = DefaultMaxRequestBodyBytes"
  by (rule start_establishes [OF assms])

theorem dataplane_start_establishes_invariant_witness:
  "\<exists>h w. dataplaneStart hostDeps makeHostApplier NoDotEnv hostEnv hostWorld = (Inr (hostConfig, h), w) \<and>
    dpOk hostManager hostView hostApplier (\<lambda>w. os_ok (snd w)) (h, w) \<and> dpStore (h, w) = Map.empty"
proof -
  obtain h w where s: "dataplaneStart hostDeps makeHostApplier NoDotEnv hostEnv hostWorld = (Inr (hostConfig, h), w)"
    using host_starts by blast
  have a: "makeHostApplier sampleApply = hostApplier" by (simp add: makeHostApplier_def hostApplier_def)
  from dataplane_start_establishes_invariant [OF s hostManager_made hostEnv_loads(2), unfolded a,
      OF host.engine_attach_axioms hostEngine_ok(3)] s show ?thesis by blast
qed

end
