(* ===== verification/Processes.thy ===== *)
theory Processes
  imports Startup
begin

text \<open>
  The two programs while they run.  The dataplane of \<open>cmd/dataplane/main.go\<close> is its main
  routine, the goroutine of the HTTP server with the channel between them, the requests being
  served and the signal; the controller of \<open>cmd/main.go\<close> is its main routine and the goroutine
  that announces the shutdown.  Both are step relations in which the routines interleave.
\<close>

section \<open>The dataplane\<close>

text \<open>
  The server goroutine is in \<open>ListenAndServe\<close>, or has what it will send to the channel, or has
  sent it; the main routine waits in \<open>select\<close>, is in \<open>Shutdown\<close>, or has ended the process.
\<close>

datatype server_state = Listening | Returned "string option" | ServerDone

datatype dp_main_state = Selecting | ShuttingDown | Exited dataplane_exit

record 's dp_process =
  dp_sys :: "'s dataplane"
  dp_accepted :: "http_request list"
  dp_answered :: "(http_request \<times> http_response option) list"
  dp_server :: server_state
  dp_errors :: "string option option"
  dp_signal :: bool
  dp_main :: dp_main_state

definition dp_running :: "'s dp_process \<Rightarrow> bool" where
  "dp_running s \<longleftrightarrow> (\<forall>x. dp_main s \<noteq> Exited x)"

text \<open>
  \<open>Shutdown\<close> closes the listener, and \<open>ListenAndServe\<close> returns \<open>ErrServerClosed\<close>, which it returns
  only then.  Requests may arrive on open connections as long as the process runs, also while
  it shuts down and after the goroutine has returned, and a request that was accepted is served.  \<open>Shutdown\<close>
  returns without an error only at a moment when no request is being served; it may fail at
  any time, for its deadline or for an error of the listener.  The channel has room for one
  value.
\<close>

inductive dp_step :: "(request_error \<Rightarrow> string) \<Rightarrow> 's dp_process \<Rightarrow> 's dp_process \<Rightarrow> bool" for "txt" where
  accept: "dp_running s \<Longrightarrow> dp_step txt s (s\<lparr>dp_accepted := r # dp_accepted s\<rparr>)"
| serve: "dp_running s \<Longrightarrow> r \<in> set (dp_accepted s) \<Longrightarrow> serveDataplane txt r (dp_sys s) = (a, d) \<Longrightarrow>
    dp_step txt s (s\<lparr>dp_sys := d, dp_accepted := remove1 r (dp_accepted s), dp_answered := (r, a) # dp_answered s\<rparr>)"
| listenFails: "dp_running s \<Longrightarrow> dp_server s = Listening \<Longrightarrow> dp_step txt s (s\<lparr>dp_server := Returned (Some err)\<rparr>)"
| listenClosed: "dp_server s = Listening \<Longrightarrow> dp_main s = ShuttingDown \<Longrightarrow> dp_step txt s (s\<lparr>dp_server := Returned None\<rparr>)"
| send: "dp_running s \<Longrightarrow> dp_server s = Returned e \<Longrightarrow> dp_errors s = None \<Longrightarrow>
    dp_step txt s (s\<lparr>dp_server := ServerDone, dp_errors := Some e\<rparr>)"
| signalled: "dp_running s \<Longrightarrow> \<not> dp_signal s \<Longrightarrow> dp_step txt s (s\<lparr>dp_signal := True\<rparr>)"
| selectError: "dp_main s = Selecting \<Longrightarrow> dp_errors s = Some (Some err) \<Longrightarrow>
    dp_step txt s (s\<lparr>dp_errors := None, dp_main := Exited (dataplaneStop (ServerStopped (Some err)) None)\<rparr>)"
| selectClosed: "dp_main s = Selecting \<Longrightarrow> dp_errors s = Some None \<Longrightarrow>
    dp_step txt s (s\<lparr>dp_errors := None, dp_main := ShuttingDown\<rparr>)"
| selectSignal: "dp_main s = Selecting \<Longrightarrow> dp_signal s \<Longrightarrow> dp_step txt s (s\<lparr>dp_main := ShuttingDown\<rparr>)"
| shutdownDone: "dp_main s = ShuttingDown \<Longrightarrow> dp_accepted s = [] \<Longrightarrow>
    dp_step txt s (s\<lparr>dp_main := Exited (dataplaneStop SignalReceived None)\<rparr>)"
| shutdownFails: "dp_main s = ShuttingDown \<Longrightarrow>
    dp_step txt s (s\<lparr>dp_main := Exited (dataplaneStop SignalReceived (Some err))\<rparr>)"

definition dp_started :: "'s handler \<Rightarrow> 's \<Rightarrow> 's dp_process" where
  "dp_started h w = \<lparr>dp_sys = (h, w), dp_accepted = [], dp_answered = [], dp_server = Listening, dp_errors = None,
     dp_signal = False, dp_main = Selecting\<rparr>"

abbreviation dp_run :: "(request_error \<Rightarrow> string) \<Rightarrow> 's dp_process \<Rightarrow> 's dp_process \<Rightarrow> bool" where
  "dp_run txt \<equiv> (dp_step txt)\<^sup>*\<^sup>*"

text \<open>Whatever request arrives, from whomever, the invariant of the dataplane holds.\<close>

lemma serve_any_keeps:
  assumes env: "engine_attach m view app active ok" and k: "dpOk m view app ok s"
    and sv: "serveDataplane txt r s = (a, t)"
  shows "dpOk m view app ok t"
proof -
  obtain h w where s: "s = (h, w)" by force
  have "t = s \<or> (\<exists>q x e w'. handle q (h_engine h) w = (x, e, w') \<and> t = (h\<lparr>h_engine := e\<rparr>, w'))"
  proof (cases "routeOf r = Some RouteServices \<and> \<not> isl (serviceRefFromPath (url_Path r))")
    case True
    then obtain ref where ref: "routeOf r = Some RouteServices" "serviceRefFromPath (url_Path r) = Inr ref"
      by (cases "serviceRefFromPath (url_Path r)") auto
    consider (put) "Method r = ''PUT''" | (del) "Method r = ''DELETE''" | (other) "Method r \<noteq> ''PUT''" "Method r \<noteq> ''DELETE''"
      by blast
    then show ?thesis
    proof cases
      case put
      obtain resp h' w' where p: "handleEnsureService txt r ref h w = (resp, h', w')" "t = (h', w')"
        using sv s ref put by (cases t) (auto simp: serveDataplane_def serveHTTP_def handleServices_def split: prod.splits)
      have "(h', w') = (h, w) \<or> (\<exists>v x e. handle (EnsureReq v) (h_engine h) w = (x, e, w') \<and> h' = h\<lparr>h_engine := e\<rparr>)"
        using p(1) by (auto simp: handleEnsureService_def Let_def split: sum.splits if_splits option.splits prod.splits)
      then show ?thesis using p(2) s by blast
    next
      case del
      then obtain resp h' w' where p: "handleDeleteService txt ref h w = (resp, h', w')" "t = (h', w')"
        using sv s ref by (cases t) (auto simp: serveDataplane_def serveHTTP_def handleServices_def split: prod.splits)
      then have "\<exists>x e. handle (DeleteReq ref) (h_engine h) w = (x, e, w') \<and> h' = h\<lparr>h_engine := e\<rparr>"
        by (auto simp: handleDeleteService_def split: sum.splits prod.splits)
      then show ?thesis using p(2) by blast
    next
      case other
      then show ?thesis using sv s ref by (auto simp: serveDataplane_def serveHTTP_def handleServices_def)
    qed
  next
    case False
    then show ?thesis
      using sv s by (auto simp: serveDataplane_def serveHTTP_def handleServices_def split: option.splits route.splits sum.splits)
  qed
  then show ?thesis using k s handle_dataplane(1) [OF env k [unfolded s]] by auto
qed

text \<open>
  What holds while the process runs: the invariant of the dataplane; the goroutine finds room
  in the channel; the main routine does not see the server closed before it closes it; and a
  completed shutdown leaves no request unanswered.
\<close>

definition dp_inv ::
  "'s external_ip_manager \<Rightarrow> ('s \<Rightarrow> addr set) \<Rightarrow> 's config_applier_ops \<Rightarrow> ('s \<Rightarrow> bool) \<Rightarrow> 's dp_process \<Rightarrow> bool" where
  "dp_inv m view app ok s \<longleftrightarrow> dpOk m view app ok (dp_sys s) \<and>
     (dp_server s \<noteq> ServerDone \<longrightarrow> dp_errors s = None) \<and>
     (dp_main s = Selecting \<longrightarrow> dp_server s \<noteq> Returned None \<and> dp_errors s \<noteq> Some None) \<and>
     (dp_main s = Exited DPShutdownCompleted \<longrightarrow> dp_accepted s = [])"

lemma dp_step_inv:
  assumes "engine_attach m view app active ok" "dp_step txt s t" "dp_inv m view app ok s"
  shows "dp_inv m view app ok t"
  using assms(2)
proof cases
  case (serve r a d)
  then show ?thesis
    using assms(3) serve_any_keeps [OF assms(1) _ serve(4)] by (auto simp: dp_inv_def dp_running_def)
qed (use assms(3) in \<open>auto simp: dp_inv_def dp_running_def dataplaneStop_def\<close>)

lemma dp_run_inv:
  assumes "engine_attach m view app active ok" "dp_run txt s t" "dp_inv m view app ok s"
  shows "dp_inv m view app ok t"
  using assms(2) by (induction rule: rtranclp_induct) (use assms dp_step_inv in blast)+

section \<open>The controller\<close>

text \<open>
  The main routine is in \<open>mgr.Start\<close>, or has its result, or is writing the announcement of the
  shutdown, or is about to write its last line; the observer waits for the signal, is writing
  the announcement, or is done.  The flag between them is set by compare-and-swap in
  \<open>logStarted\<close>; the lines are written one by one after it.
\<close>

datatype ctl_main_state =
  Managing | StartReturned "string option" | Announcing "string list" "string option" | Concluding "string option"
  | MainExited "(main_error, main_exit) result"

datatype observer_state = Waiting | ObserverAnnouncing "string list" | ObserverDone

record ctl_process =
  ctl_done :: bool
  ctl_started :: bool
  ctl_main :: ctl_main_state
  ctl_observer :: observer_state
  ctl_log :: "string list"

definition announcement :: "string list" where
  "announcement = [''shutdown signal received'', ''graceful shutdown started'']"

definition ctl_running :: "ctl_process \<Rightarrow> bool" where
  "ctl_running s \<longleftrightarrow> (\<forall>x. ctl_main s \<noteq> MainExited x)"

inductive main_step :: "ctl_process \<Rightarrow> ctl_process \<Rightarrow> bool" where
  cancelled: "ctl_running s \<Longrightarrow> \<not> ctl_done s \<Longrightarrow> main_step s (s\<lparr>ctl_done := True\<rparr>)"
| startReturns: "ctl_main s = Managing \<Longrightarrow> main_step s (s\<lparr>ctl_main := StartReturned err\<rparr>)"
| notCancelled: "ctl_main s = StartReturned err \<Longrightarrow> \<not> ctl_done s \<Longrightarrow> concluded False err = (ls, x) \<Longrightarrow>
    main_step s (s\<lparr>ctl_main := MainExited x, ctl_log := ctl_log s @ ls\<rparr>)"
| mainSwap: "ctl_main s = StartReturned err \<Longrightarrow> ctl_done s \<Longrightarrow> logStarted (ctl_started s) = (f, logs) \<Longrightarrow>
    main_step s (s\<lparr>ctl_started := f, ctl_main := (if logs then Announcing announcement err else Concluding err)\<rparr>)"
| mainLog: "ctl_main s = Announcing (l # ls) err \<Longrightarrow>
    main_step s (s\<lparr>ctl_log := ctl_log s @ [l], ctl_main := (if ls = [] then Concluding err else Announcing ls err)\<rparr>)"
| conclude: "ctl_main s = Concluding err \<Longrightarrow> concluded True err = (ls, x) \<Longrightarrow>
    main_step s (s\<lparr>ctl_main := MainExited x, ctl_log := ctl_log s @ ls\<rparr>)"
| observerSwap: "ctl_running s \<Longrightarrow> ctl_observer s = Waiting \<Longrightarrow> ctl_done s \<Longrightarrow> logStarted (ctl_started s) = (f, logs) \<Longrightarrow>
    main_step s (s\<lparr>ctl_started := f, ctl_observer := (if logs then ObserverAnnouncing announcement else ObserverDone)\<rparr>)"
| observerLog: "ctl_running s \<Longrightarrow> ctl_observer s = ObserverAnnouncing (l # ls) \<Longrightarrow>
    main_step s (s\<lparr>ctl_log := ctl_log s @ [l],
      ctl_observer := (if ls = [] then ObserverDone else ObserverAnnouncing ls)\<rparr>)"

definition observeGracefulShutdown :: ctl_process where
  "observeGracefulShutdown = \<lparr>ctl_done = False, ctl_started = False, ctl_main = Managing, ctl_observer = Waiting, ctl_log = []\<rparr>"

text \<open>The lines of the announcement that a routine has still to write.\<close>

fun mainPending :: "ctl_main_state \<Rightarrow> string list" where
  "mainPending (Announcing ls _) = ls"
| "mainPending _ = []"

fun observerPending :: "observer_state \<Rightarrow> string list" where
  "observerPending (ObserverAnnouncing ls) = ls"
| "observerPending _ = []"

text \<open>The ways in which the process ends after the signal.\<close>

fun afterSignal :: "(main_error, main_exit) result \<Rightarrow> bool" where
  "afterSignal (Inr x) = (x = ShutdownCompleted)"
| "afterSignal (Inl e) = (\<exists>err. e = GracefulShutdownFailed err)"

definition announced :: "ctl_process \<Rightarrow> string list" where
  "announced s = filter (\<lambda>l. l \<in> set announcement) (ctl_log s)"

text \<open>
  One routine at most writes the announcement, in order: what is written of it with what
  remains to be written is the announcement once the flag is set, and nothing before.
\<close>

definition ctl_inv :: "ctl_process \<Rightarrow> bool" where
  "ctl_inv s \<longleftrightarrow> (mainPending (ctl_main s) = [] \<or> observerPending (ctl_observer s) = []) \<and>
     announced s @ mainPending (ctl_main s) @ observerPending (ctl_observer s) = (if ctl_started s then announcement else []) \<and>
     (ctl_started s \<longrightarrow> ctl_done s) \<and>
     (\<forall>err. ctl_main s = Concluding err \<longrightarrow> ctl_started s) \<and>
     (\<forall>ls err. ctl_main s = Announcing ls err \<longrightarrow> ls \<noteq> []) \<and>
     (ctl_observer s \<noteq> Waiting \<longrightarrow> ctl_started s) \<and>
     (\<forall>x. ctl_main s = MainExited x \<longrightarrow> afterSignal x \<longrightarrow> ctl_started s)"

lemma concluded_signal: "concluded b err = (ls, x) \<Longrightarrow> afterSignal x \<longleftrightarrow> b"
  by (auto simp: concluded_def split: option.splits if_splits)

lemma concluded_lines: "concluded b err = (ls, x) \<Longrightarrow> filter (\<lambda>l. l \<in> set announcement) ls = []"
  by (auto simp: concluded_def announcement_def split: option.splits if_splits)

lemma main_step_inv: "main_step s t \<Longrightarrow> ctl_inv s \<Longrightarrow> ctl_inv t"
proof (induction rule: main_step.induct)
  case (mainLog s l ls err)
  have "l \<in> set announcement" using mainLog by (auto simp: ctl_inv_def split: if_splits dest!: arg_cong [of _ _ set])
  then show ?case using mainLog by (auto simp: ctl_inv_def announced_def split: if_splits)
next
  case (observerLog s l ls)
  have "l \<in> set announcement" using observerLog by (auto simp: ctl_inv_def split: if_splits dest!: arg_cong [of _ _ set])
  then show ?case using observerLog by (auto simp: ctl_inv_def announced_def split: if_splits)
next
  case (conclude s err ls x)
  then show ?case using concluded_lines [OF conclude(2)] by (auto simp: ctl_inv_def announced_def)
next
  case (notCancelled s err ls x)
  then show ?case using concluded_lines [OF notCancelled(3)] concluded_signal [OF notCancelled(3)] by (auto simp: ctl_inv_def announced_def)
qed (auto simp: ctl_inv_def announced_def logStarted_def announcement_def split: if_splits)

lemma main_run_inv: "main_step\<^sup>*\<^sup>* s t \<Longrightarrow> ctl_inv s \<Longrightarrow> ctl_inv t"
  by (induction rule: rtranclp_induct) (auto intro: main_step_inv)

lemma observe_inv: "ctl_inv observeGracefulShutdown"
  by (simp add: ctl_inv_def observeGracefulShutdown_def announced_def)

section \<open>The URL in the log\<close>

text \<open>\<open>net/url\<close> reads the texts it prints for URLs of the schemes \<open>http\<close> and \<open>https\<close> with a host.\<close>

locale url_text = url_printing +
  assumes reads_back: "url_Parse lib raw = Inr u \<Longrightarrow> webURL u \<Longrightarrow> \<exists>u'. url_Parse lib (url_String lib u) = Inr u'"
begin

lemma loaded_url_parses:
  assumes "Load lib env = Inr cfg" "ProviderMode cfg = ProviderModeDataplaneAPI"
  shows "\<exists>u. url_Parse lib (DataplaneAPIURL cfg) = Inr u"
  using Load_valid [OF assms(1)] assms(2) reads_back unfolding validURL_def webURL_def by metis

end

definition withoutSecrets :: "go_url \<Rightarrow> go_url" where
  "withoutSecrets u = u\<lparr>u_User := [], RawQuery := [], Fragment := []\<rparr>"

lemma provider_line_url:
  assumes "l \<in> set (logProviderConfiguration lib cfg)" "(''dataplaneAPIURL'', v) \<in> set (snd l)"
  shows "ProviderMode cfg = ProviderModeDataplaneAPI \<and> v = LText (redactURLForLog lib (DataplaneAPIURL cfg))"
  using assms by (auto simp: logProviderConfiguration_def split: if_splits)

lemma run_line_url:
  assumes "l \<in> set (snd (runController lib mgr cfg))" "(''dataplaneAPIURL'', v) \<in> set (snd l)"
  shows "l \<in> set (logProviderConfiguration lib cfg)"
  using assms
  by (auto simp: runController_def logManagerConfiguration_def Let_def split: option.splits sum.splits prod.splits)

lemma preflight_line_url: "l \<in> set (snd (preflight cmd stat args env)) \<Longrightarrow> (''dataplaneAPIURL'', v) \<notin> set (snd l)"
  by (auto simp: preflight_def logPreflightKubeconfigDiagnostic_def
      split: if_splits sum.splits option.splits kubeconfig_diagnostic_kind.splits)

lemma main_line_url:
  assumes "l \<in> set (snd (controllerMain lib cmd stat mgr file args env))" "(''dataplaneAPIURL'', v) \<in> set (snd l)"
  obtains b env' cfg where "LoadDotEnv file env = (b, env')" "Load lib env' = Inr cfg" "l \<in> set (logProviderConfiguration lib cfg)"
proof -
  obtain b env' where d: "LoadDotEnv file env = (b, env')" by force
  from assms obtain cfg where c: "Load lib env' = Inr cfg"
    by (cases b; cases "Load lib env'") (simp_all add: controllerMain_def d)
  have "l \<in> set (snd (runController lib mgr cfg))"
    using assms d c preflight_line_url [of l cmd stat args env' v]
    by (auto simp: controllerMain_def logDotEnvStatus_def Let_def split: sum.splits prod.splits option.splits if_splits)
  then show ?thesis using that d c run_line_url assms(2) by blast
qed

text \<open>A library that knows one host, with and without credentials.\<close>

definition secretURL :: go_url where
  "secretURL = sampleURL\<lparr>u_User := ''admin:pw''\<rparr>"

definition secretURLs :: url_lib where
  "secretURLs = \<lparr>url_Parse = (\<lambda>s. if s = ''http://admin:pw@dataplane:8090'' then Inr secretURL
       else if s = ''http://dataplane:8090'' then Inr sampleURL else if s = [] then Inr emptyURL else Inl ''invalid''),
     url_String = (\<lambda>u. if Host u = [] then [] else if u_User u = [] then ''http://dataplane:8090'' else ''http://admin:pw@dataplane:8090'')\<rparr>"

interpretation secreturls: url_text secretURLs
  by unfold_locales
    (auto simp: secretURLs_def secretURL_def sampleURL_def emptyURL_def webURL_def TrimSpace_plain plain_def split: if_splits)

section \<open>Properties\<close>

text \<open>
  C11: In every state the dataplane process reaches from its start, whatever requests arrive
  from whomever, whether the listener fails and whenever the signal comes: the invariant of
  the dataplane holds, so that every stored address is attached; the server goroutine never
  blocks on the channel; the main routine never finds the server closed before it has asked
  for it; and when the process ends with a completed shutdown, every accepted request has
  been answered.
\<close>

theorem dataplane_process_invariant:
  assumes "engine_attach m view app active ok" "dpOk m view app ok (h, w)" "dp_run txt (dp_started h w) s"
  shows "dpOk m view app ok (dp_sys s) \<and>
    (\<forall>e. dp_server s = Returned e \<longrightarrow> dp_errors s = None) \<and>
    \<not> (dp_main s = Selecting \<and> dp_errors s = Some None) \<and>
    (dp_main s = Exited DPShutdownCompleted \<longrightarrow> dp_accepted s = [])"
proof -
  have "dp_inv m view app ok (dp_started h w)" using assms(2) by (simp add: dp_inv_def dp_started_def)
  from dp_run_inv [OF assms(1,3) this] show ?thesis by (auto simp: dp_inv_def)
qed

lemma sample_shutdown:
  "dp_run txt (dp_started h w) ((dp_started h w)\<lparr>dp_signal := True, dp_main := Exited DPShutdownCompleted\<rparr>)"
proof -
  let ?s = "dp_started h w"
  have "dp_step txt ?s (?s\<lparr>dp_signal := True\<rparr>)" by (rule dp_step.signalled) (simp_all add: dp_running_def dp_started_def)
  moreover have "dp_step txt (?s\<lparr>dp_signal := True\<rparr>) (?s\<lparr>dp_signal := True, dp_main := ShuttingDown\<rparr>)"
    using dp_step.selectSignal [of "?s\<lparr>dp_signal := True\<rparr>" "txt"] by (simp add: dp_started_def)
  moreover have "dp_step txt (?s\<lparr>dp_signal := True, dp_main := ShuttingDown\<rparr>)
      (?s\<lparr>dp_signal := True, dp_main := Exited DPShutdownCompleted\<rparr>)"
    using dp_step.shutdownDone [of "?s\<lparr>dp_signal := True, dp_main := ShuttingDown\<rparr>" "txt"]
    by (simp add: dp_started_def dataplaneStop_def)
  ultimately show ?thesis by (meson rtranclp.rtrancl_into_rtrancl rtranclp.rtrancl_refl)
qed

theorem dataplane_process_invariant_witness:
  "\<exists>s. dp_run (\<lambda>_. []) (dp_started (fst hostDataplane) (snd hostDataplane)) s \<and>
    dp_main s = Exited DPShutdownCompleted \<and> dp_accepted s = [] \<and>
    dpOk hostManager hostView hostApplier (\<lambda>w. os_ok (snd w)) (dp_sys s)"
proof -
  let ?s = "(dp_started (fst hostDataplane) (snd hostDataplane))\<lparr>dp_signal := True, dp_main := Exited DPShutdownCompleted\<rparr>"
  note run = sample_shutdown [of "\<lambda>_. []" "fst hostDataplane" "snd hostDataplane"]
  have e: "dp_main ?s = Exited DPShutdownCompleted" by simp
  have k: "dpOk hostManager hostView hostApplier (\<lambda>w. os_ok (snd w)) (fst hostDataplane, snd hostDataplane)"
    using hostDataplane_ok by simp
  from dataplane_process_invariant [OF host.engine_attach_axioms k run] run e show ?thesis by blast
qed

text \<open>
  However the main routine and the observer of the controller interleave, the shutdown is
  announced at most once and in order, never without the signal, and a process that ends
  after the signal has the announcement complete in its log unless the observer was still
  writing it.
\<close>

theorem shutdown_announced_once:
  assumes "main_step\<^sup>*\<^sup>* observeGracefulShutdown s"
  shows "prefix (announced s) announcement \<and> (announced s \<noteq> [] \<longrightarrow> ctl_done s) \<and>
    (\<forall>x. ctl_main s = MainExited x \<longrightarrow> afterSignal x \<longrightarrow>
      announced s = announcement \<or> (\<exists>ls. ctl_observer s = ObserverAnnouncing ls \<and> ls \<noteq> []))"
proof -
  note i = main_run_inv [OF assms observe_inv]
  have "prefix (announced s) (announced s @ mainPending (ctl_main s) @ observerPending (ctl_observer s))" by simp
  moreover have "announced s @ mainPending (ctl_main s) @ observerPending (ctl_observer s) = (if ctl_started s then announcement else [])"
    using i by (simp add: ctl_inv_def)
  ultimately have "prefix (announced s) announcement" by (cases "ctl_started s") auto
  moreover have "announced s \<noteq> [] \<longrightarrow> ctl_done s" using i by (auto simp: ctl_inv_def split: if_splits)
  moreover have "announced s = announcement \<or> (\<exists>ls. ctl_observer s = ObserverAnnouncing ls \<and> ls \<noteq> [])"
    if "ctl_main s = MainExited x" "afterSignal x" for x
    using i that by (cases "ctl_observer s") (auto simp: ctl_inv_def)
  ultimately show ?thesis by blast
qed

text \<open>One step after another, for concrete runs.\<close>

lemma run_step: "main_step\<^sup>*\<^sup>* s t \<Longrightarrow> main_step t u \<Longrightarrow> main_step\<^sup>*\<^sup>* s u"
  by (rule rtranclp.rtrancl_into_rtrancl)

lemma lost_run:
  "main_step\<^sup>*\<^sup>* observeGracefulShutdown \<lparr>ctl_done = True, ctl_started = True, ctl_main = MainExited (Inr ShutdownCompleted),
     ctl_observer = ObserverAnnouncing announcement, ctl_log = [''graceful shutdown completed'']\<rparr>"
proof -
  let ?s = "\<lambda>d f m ob l. \<lparr>ctl_done = d, ctl_started = f, ctl_main = m, ctl_observer = ob, ctl_log = l\<rparr>"
  let ?ob = "ObserverAnnouncing announcement"
  have "main_step observeGracefulShutdown (?s True False Managing Waiting [])"
    using main_step.cancelled [of observeGracefulShutdown] by (simp add: observeGracefulShutdown_def ctl_running_def)
  moreover have "main_step (?s True False Managing Waiting []) (?s True True Managing ?ob [])"
    using main_step.observerSwap [of "?s True False Managing Waiting []" True True] by (simp add: ctl_running_def logStarted_def)
  moreover have "main_step (?s True True Managing ?ob []) (?s True True (StartReturned None) ?ob [])"
    using main_step.startReturns [of "?s True True Managing ?ob []" None] by simp
  moreover have "main_step (?s True True (StartReturned None) ?ob []) (?s True True (Concluding None) ?ob [])"
    using main_step.mainSwap [of "?s True True (StartReturned None) ?ob []" None True False] by (simp add: logStarted_def)
  moreover have "main_step (?s True True (Concluding None) ?ob [])
      (?s True True (MainExited (Inr ShutdownCompleted)) ?ob [''graceful shutdown completed''])"
    using main_step.conclude [of "?s True True (Concluding None) ?ob []" None "[''graceful shutdown completed'']" "Inr ShutdownCompleted"]
    by (simp add: concluded_def)
  ultimately show ?thesis by (meson run_step rtranclp.rtrancl_refl)
qed

theorem shutdown_announced_once_witness:
  "\<exists>s. main_step\<^sup>*\<^sup>* observeGracefulShutdown s \<and> ctl_main s = MainExited (Inr ShutdownCompleted) \<and>
    (announced s = announcement \<or> (\<exists>ls. ctl_observer s = ObserverAnnouncing ls \<and> ls \<noteq> []))"
  by (rule exI, rule conjI, rule lost_run) (use shutdown_announced_once [OF lost_run] in simp)

text \<open>
  The announcement can be lost: the observer has set the flag but written nothing, the main
  routine therefore skips the announcement, logs the end and ends the process.
\<close>

theorem announcement_can_be_lost:
  "\<exists>s. main_step\<^sup>*\<^sup>* observeGracefulShutdown s \<and> ctl_main s = MainExited (Inr ShutdownCompleted) \<and>
    ctl_log s = [''graceful shutdown completed'']"
  by (rule exI, rule conjI, rule lost_run) simp

text \<open>
  C33: The controller never logs the credentials, the query or the fragment of the dataplane's
  URL: whatever it logs as that URL, in whatever way its start ends, is the text of the
  configured URL from which they have been removed; the case in which the URL is logged as
  it is cannot occur.
\<close>

theorem dataplane_url_logged_redacted:
  assumes "url_text lib" "l \<in> set (snd (controllerMain lib cmd stat mgr file args env))"
    and "(''dataplaneAPIURL'', v) \<in> set (snd l)"
  shows "\<exists>b env' cfg u. LoadDotEnv file env = (b, env') \<and> Load lib env' = Inr cfg \<and> url_Parse lib (DataplaneAPIURL cfg) = Inr u \<and>
    v = LText (url_String lib (withoutSecrets u))"
proof -
  obtain b env' cfg where d: "LoadDotEnv file env = (b, env')"
    and l: "Load lib env' = Inr cfg" "l \<in> set (logProviderConfiguration lib cfg)"
    using main_line_url [OF assms(2,3)] by blast
  note p = provider_line_url [OF l(2) assms(3)]
  obtain u where u: "url_Parse lib (DataplaneAPIURL cfg) = Inr u"
    using url_text.loaded_url_parses [OF assms(1) l(1)] p by blast
  then have "v = LText (url_String lib (withoutSecrets u))" using p by (simp add: redactURLForLog_def withoutSecrets_def)
  with d l(1) u show ?thesis by blast
qed

definition secretEnv :: environ where
  "secretEnv = sampleEnv(EnvDataplaneAPIURL \<mapsto> ''http://admin:pw@dataplane:8090'', ''KUBERNETES_SERVICE_HOST'' \<mapsto> ''10.96.0.1'',
     ''KUBERNETES_SERVICE_PORT'' \<mapsto> ''443'')"

definition quietManager :: manager_lib where
  "quietManager = \<lparr>GetConfig = None, NewManager_err = (\<lambda>_. None), SetupControllers_err = (\<lambda>_ _. None),
     AddHealthzCheck = None, AddReadyzCheck = None, Start = (\<lambda>_ _. (None, True))\<rparr>"

definition noKubeconfig :: clientcmd_lib where
  "noKubeconfig = \<lparr>GetLoadingPrecedence = (\<lambda>_. []), cmd_Load = (\<lambda>_. Inl [])\<rparr>"

lemma secret_log:
  "(''provider configuration'', [(''providerMode'', LText ''dataplane-api''), (''dataplaneAPIURL'', LText ''http://dataplane:8090''),
     (''dataplaneAPITimeout'', LDuration (10 * Second))])
   \<in> set (snd (controllerMain secretURLs noKubeconfig (\<lambda>_. None) quietManager NoDotEnv [] secretEnv))"
  by code_simp

theorem dataplane_url_logged_redacted_witness:
  "\<exists>env cfg u. Load secretURLs env = Inr cfg \<and> url_Parse secretURLs (DataplaneAPIURL cfg) = Inr u \<and>
    ''http://dataplane:8090'' = url_String secretURLs (withoutSecrets u)"
proof -
  have "(''dataplaneAPIURL'', LText ''http://dataplane:8090'') \<in> set (snd
      (''provider configuration'', [(''providerMode'', LText ''dataplane-api''),
       (''dataplaneAPIURL'', LText ''http://dataplane:8090''), (''dataplaneAPITimeout'', LDuration (10 * Second))]))" by simp
  from dataplane_url_logged_redacted [OF secreturls.url_text_axioms secret_log this] show ?thesis by blast
qed

end
