(* ===== verification/Watch.thy ===== *)
theory Watch
  imports Controller
begin

text \<open>
  \<open>SetupWithManager\<close> of \<open>internal/controller/service_controller.go\<close>: which Services an event of
  the watched kinds puts on the work queue.  No change that the reconciler would act on is
  missed, given how the API server numbers changes.
\<close>

section \<open>From events to requests\<close>

text \<open>
  The builder of controller-runtime is a parameter: given a predicate, \<open>For\<close> turns events of
  Services into requests, and given also a function from objects to requests, \<open>Watches\<close> with
  \<open>EnqueueRequestsFromMapFunc\<close> those of EndpointSlices.
\<close>

record builder =
  For :: "(kube_service event \<Rightarrow> bool) \<Rightarrow> kube_service event \<Rightarrow> namespaced_name list"
  Watches :: "(endpoint_slice option \<Rightarrow> namespaced_name list) \<Rightarrow> (endpoint_slice event \<Rightarrow> bool) \<Rightarrow>
    endpoint_slice event \<Rightarrow> namespaced_name list"

datatype watch_event = ServiceEvent "kube_service event" | SliceEvent "endpoint_slice event"

definition SetupWithManager :: "builder \<Rightarrow> watch_event \<Rightarrow> namespaced_name list" where
  "SetupWithManager b ev =
     (case ev of
        ServiceEvent e \<Rightarrow> For b serviceReconcilePredicate e
      | SliceEvent e \<Rightarrow> Watches b endpointSliceToServiceRequests endpointSliceReconcilePredicate e)"

text \<open>
  What the documentation promises: of the events that pass the predicate, \<open>For\<close> queues the
  object, for an update the new one, and \<open>EnqueueRequestsFromMapFunc\<close> what the function gives,
  for an update for both objects.
\<close>

fun eventObjects :: "'o event \<Rightarrow> 'o set" where
  "eventObjects (CreateEvent x) = {x}"
| "eventObjects (UpdateEvent ol n) = set_option ol \<union> set_option n"
| "eventObjects (DeleteEvent x) = {x}"
| "eventObjects (GenericEvent x) = {x}"

locale queueing_builder =
  fixes b :: builder
  assumes for_create: "p (CreateEvent s) \<Longrightarrow> objectKey s \<in> set (For b p (CreateEvent s))"
    and for_update: "p (UpdateEvent ol (Some s)) \<Longrightarrow> objectKey s \<in> set (For b p (UpdateEvent ol (Some s)))"
    and map_func: "p' e \<Longrightarrow> x \<in> eventObjects e \<Longrightarrow> set (f (Some x)) \<subseteq> set (Watches b f p' e)"

section \<open>Changes of the EndpointSlices\<close>

text \<open>The EndpointSlices before and after an event.\<close>

inductive slices_change :: "endpoint_slice event \<Rightarrow> endpoint_slice list \<Rightarrow> endpoint_slice list \<Rightarrow> bool" where
  created: "slices_change (CreateEvent x) (xs @ ys) (xs @ [x] @ ys)"
| updated: "slices_change (UpdateEvent (Some x) (Some y)) (xs @ [x] @ ys) (xs @ [y] @ ys)"
| deleted: "slices_change (DeleteEvent x) (xs @ [x] @ ys) (xs @ ys)"

text \<open>Changed objects carry a new resource version.\<close>

definition versioned :: "endpoint_slice event \<Rightarrow> bool" where
  "versioned e = (case e of UpdateEvent (Some x) (Some y) \<Rightarrow> x \<noteq> y \<longrightarrow> es_ResourceVersion x \<noteq> es_ResourceVersion y | _ \<Rightarrow> True)"

lemma Discover_skip:
  assumes "\<not> endpointSliceBelongsToService (Some s) x"
  shows "Discover (Some s) (xs @ [x] @ ys) = Discover (Some s) (xs @ ys)"
  using assms by (simp add: Discover_def scanSlice_def)

lemma slice_requests:
  "endpointSliceBelongsToService (Some s) x \<Longrightarrow> ks_Name s \<noteq> [] \<Longrightarrow> endpointSliceToServiceRequests (Some x) = [objectKey s]"
  by (simp add: endpointSliceBelongsToService_def endpointSliceToServiceRequests_def objectKey_def Let_def split: if_splits)

section \<open>Changes of Services\<close>

text \<open>Changed specifications carry a new generation.\<close>

definition generational :: "kube_service \<Rightarrow> kube_service \<Rightarrow> bool" where
  "generational s t \<longleftrightarrow> ((spec_Type s, spec_LoadBalancerClass s, spec_Ports s) \<noteq> (spec_Type t, spec_LoadBalancerClass t, spec_Ports t) \<longrightarrow>
     Generation s \<noteq> Generation t)"

text \<open>What the reconciler decides and builds for a Service, the slices being given.\<close>

definition desiredFor :: "controller_config \<Rightarrow> kube_service \<Rightarrow> endpoint_slice list \<Rightarrow> bool \<times> bool \<times> (string \<Rightarrow> p_service)" where
  "desiredFor cfg s sls = (DeletionTimestamp s \<noteq> None, liveManaged cfg s,
     (\<lambda>ip. buildProviderService s ip (Discover (Some s) sls)))"

lemma desiredFor_cong:
  assumes "objectKey s = objectKey t" "DeletionTimestamp s = DeletionTimestamp t" "spec_Type s = spec_Type t"
    "spec_LoadBalancerClass s = spec_LoadBalancerClass t" "spec_Ports s = spec_Ports t"
  shows "desiredFor cfg s sls = desiredFor cfg t sls"
proof -
  have "scanSlice s sp = scanSlice t sp" for sp
    using assms(1) by (intro ext) (simp add: scanSlice_def endpointSliceBelongsToService_def objectKey_def)
  then show ?thesis
    using assms by (simp add: desiredFor_def liveManaged_def isManagedLoadBalancerService_def buildProviderService_def
        serviceLoadBalancerClass_def Discover_def objectKey_def)
qed

definition desiredOf ::
  "controller_config \<Rightarrow> kube_service option \<times> endpoint_slice list \<Rightarrow> (bool \<times> bool \<times> (string \<Rightarrow> p_service)) option" where
  "desiredOf cfg A = map_option (\<lambda>s. desiredFor cfg s (snd A)) (fst A)"

text \<open>One Service and the EndpointSlices before and after an event.\<close>

inductive watched_change ::
  "watch_event \<Rightarrow> kube_service option \<times> endpoint_slice list \<Rightarrow> kube_service option \<times> endpoint_slice list \<Rightarrow> bool" where
  serviceCreated: "watched_change (ServiceEvent (CreateEvent s)) (None, sls) (Some s, sls)"
| serviceUpdated: "objectKey t = objectKey s \<Longrightarrow> generational s t \<Longrightarrow>
    watched_change (ServiceEvent (UpdateEvent (Some s) (Some t))) (Some s, sls) (Some t, sls)"
| sliceChanged: "slices_change e sls sls' \<Longrightarrow> versioned e \<Longrightarrow> watched_change (SliceEvent e) (svc, sls) (svc, sls')"

section \<open>No change is missed\<close>

context queueing_builder
begin

lemma slice_queued:
  assumes "endpointSliceReconcilePredicate e" "x \<in> eventObjects e" "endpointSliceBelongsToService (Some s) x" "ks_Name s \<noteq> []"
  shows "objectKey s \<in> set (SetupWithManager b (SliceEvent e))"
  using map_func [of endpointSliceReconcilePredicate e x endpointSliceToServiceRequests] assms(1,2) slice_requests [OF assms(3,4)]
  by (simp add: SetupWithManager_def)

lemma slice_change_queued:
  assumes "slices_change e xs ys" "versioned e" "ks_Name s \<noteq> []"
    and "Discover (Some s) xs \<noteq> Discover (Some s) ys"
  shows "objectKey s \<in> set (SetupWithManager b (SliceEvent e))"
  using assms(1)
proof cases
  case (created x us vs)
  then have "endpointSliceBelongsToService (Some s) x" using assms(4) Discover_skip by metis
  then show ?thesis using created slice_queued [of e x] assms(3) by simp
next
  case (updated x y us vs)
  then have "x \<noteq> y" using assms(4) by auto
  then have p: "endpointSliceReconcilePredicate e" using updated assms(2) by (simp add: versioned_def)
  have "endpointSliceBelongsToService (Some s) x \<or> endpointSliceBelongsToService (Some s) y"
    using updated assms(4) Discover_skip by metis
  then show ?thesis using updated slice_queued [OF p] assms(3) by auto
next
  case (deleted x us vs)
  then have "endpointSliceBelongsToService (Some s) x" using assms(4) Discover_skip by metis
  then show ?thesis using deleted slice_queued [of e x] assms(3) by simp
qed

lemma create_queued: "objectKey s \<in> set (SetupWithManager b (ServiceEvent (CreateEvent s)))"
  using for_create [of serviceReconcilePredicate] by (simp add: SetupWithManager_def)

lemma update_queued:
  assumes "objectKey t = objectKey s" "generational s t" "desiredFor cfg s sls \<noteq> desiredFor cfg t sls"
  shows "objectKey t \<in> set (SetupWithManager b (ServiceEvent (UpdateEvent (Some s) (Some t))))"
proof -
  have "serviceReconcilePredicate (UpdateEvent (Some s) (Some t))"
  proof (cases "Generation s = Generation t")
    case True
    then have "spec_Type s = spec_Type t" "spec_LoadBalancerClass s = spec_LoadBalancerClass t" "spec_Ports s = spec_Ports t"
      using assms(2) by (auto simp: generational_def)
    then have "DeletionTimestamp s \<noteq> DeletionTimestamp t" using assms(1,3) desiredFor_cong [of s t] by metis
    then show ?thesis using True by (auto simp: deletionTimestampChanged_def split: option.splits)
  qed simp
  then show ?thesis using for_update [of serviceReconcilePredicate] by (simp add: SetupWithManager_def)
qed

lemma change_queued:
  assumes "watched_change ev A B" "desiredOf cfg A \<noteq> desiredOf cfg B" "fst B = Some s" "ks_Name s \<noteq> []"
  shows "objectKey s \<in> set (SetupWithManager b ev)"
  using assms(1)
proof cases
  case (serviceCreated t sls)
  then show ?thesis using assms(3) create_queued by simp
next
  case (serviceUpdated t old sls)
  have t: "t = s" using serviceUpdated(3) assms(3) by simp
  have "desiredFor cfg old sls \<noteq> desiredFor cfg s sls" using serviceUpdated assms(2) t by (auto simp: desiredOf_def)
  then show ?thesis using update_queued serviceUpdated(1,4,5) t by simp
next
  case (sliceChanged e sls sls' svc)
  then have "Discover (Some s) sls \<noteq> Discover (Some s) sls'"
    using assms(2,3) by (auto simp: desiredOf_def desiredFor_def)
  then show ?thesis using slice_change_queued sliceChanged assms(4) by simp
qed

end

text \<open>A builder with the two event handlers as documented.\<close>

definition plainBuilder :: builder where
  "plainBuilder = \<lparr>
     For = (\<lambda>p e. if \<not> p e then [] else case e of
         CreateEvent s \<Rightarrow> [objectKey s] | UpdateEvent _ (Some n) \<Rightarrow> [objectKey n] | UpdateEvent (Some ol) None \<Rightarrow> [objectKey ol]
       | UpdateEvent None None \<Rightarrow> [] | DeleteEvent s \<Rightarrow> [objectKey s] | GenericEvent s \<Rightarrow> [objectKey s]),
     Watches = (\<lambda>f p e. if \<not> p e then [] else remdups (case e of
         CreateEvent x \<Rightarrow> f (Some x) | UpdateEvent ol n \<Rightarrow> f ol @ f n | DeleteEvent x \<Rightarrow> f (Some x) | GenericEvent x \<Rightarrow> f (Some x)))\<rparr>"

interpretation plainbuilder: queueing_builder plainBuilder
proof (unfold_locales, goal_cases)
  case (3 p e x f)
  then show ?case by (cases e) (auto simp: plainBuilder_def)
qed (simp_all add: plainBuilder_def split: option.split)

section \<open>Properties\<close>


definition watchedSlice :: "string \<Rightarrow> string list \<Rightarrow> endpoint_slice" where
  "watchedSlice version addrs = \<lparr>es_Namespace = ''web'', es_Labels = [(LabelServiceName, ''shop'')], es_ResourceVersion = version,
     es_Ports = [\<lparr>ep_Name = None, ep_Protocol = None, ep_Port = Some 80\<rparr>],
     es_Endpoints = [\<lparr>Addresses = addrs, Ready = None\<rparr>]\<rparr>"

definition watchedService :: kube_service where
  "watchedService = \<lparr>ks_Namespace = ''web'', ks_Name = ''shop'', DeletionTimestamp = None, Finalizers = [], Generation = 1,
     spec_Type = ServiceTypeLoadBalancer, spec_LoadBalancerClass = Some ''lb'',
     spec_Ports = [\<lparr>kp_Name = [], kp_Protocol = [], kp_Port = 80, kp_TargetPort = FromInt 80\<rparr>], status_Ingress = []\<rparr>"


end
