(* ===== verification/Cache.thy ===== *)
theory Cache
  imports Cluster
begin

text \<open>
  Late reads.  \<open>internal/controller/setup.go\<close> gives the reconciler the client of the manager,
  which reads from a cache that follows the API server with a delay, while the theorems of
  \<open>Cluster\<close> are about fresh reads.  This theory shows what is lost: between two updates of the
  cache the allocator gives the same address to every Service that waits for one.
\<close>

section \<open>Allocation from what is listed\<close>

lemma taken_listed:
  assumes "set ss = ran st" "\<And>key s. st key = Some s \<Longrightarrow> objectKey s = key" "objectKey s = key"
  shows "taken (allocatorOf cfg) s ss a \<longleftrightarrow> \<not> freeFor cfg key st a"
proof -
  have c: "competes (allocatorOf cfg) key x \<longleftrightarrow> liveManaged cfg x \<and> objectKey x \<noteq> key" for x
    by (auto simp: competes_def allocatorOf_def NewAllocator_def liveManaged_def)
  have "taken (allocatorOf cfg) s ss a \<longleftrightarrow> (\<exists>x \<in> ran st. liveManaged cfg x \<and> objectKey x \<noteq> key \<and> publishes x a)"
    using assms(1,3) c by (auto simp: taken_def list_ex_iff)
  also have "\<dots> \<longleftrightarrow> \<not> freeFor cfg key st a"
    using assms(2) unfolding freeFor_def ran_def by blast
  finally show ?thesis .
qed

text \<open>A Service that publishes nothing gets the first address of the pool that is free for it.\<close>

lemma allocate_first_free:
  assumes "Allocate (allocatorOf cfg) (Some s) ss = Inr al" "status_Ingress s = []"
    and "set ss = ran st" "\<And>key s. st key = Some s \<Longrightarrow> objectKey s = key" "objectKey s = key"
  shows "find (freeFor cfg key st) (IPPool cfg) = Some (alloc_IP al)"
  using assms(1,2) taken_listed [OF assms(3-5), of cfg]
  by (auto simp: Allocate_policy alloc_policy_def allocatorOf_def NewAllocator_def split: if_splits option.splits)

lemma freeFor_quiet:
  assumes "\<not> publishesAt cfg st key1 a" "\<not> publishesAt cfg st key2 a"
  shows "freeFor cfg key1 st a \<longleftrightarrow> freeFor cfg key2 st a"
  using assms unfolding freeFor_publishesAt by metis

section \<open>The client of the manager\<close>

text \<open>
  Reads see what the cache holds; no call changes the cache, which is updated by watch events
  of its own accord; a status update that succeeds replaces the status of the stored object,
  and it only succeeds when the cached object it is based on is the stored one.
\<close>

locale cached_api =
  fixes c :: "'k kube_client" and objs seen :: "'k \<Rightarrow> namespaced_name \<rightharpoonup> kube_service"
  assumes seen_key: "seen k key = Some s \<Longrightarrow> objectKey s = key"
    and get_state: "client_Get c key k = (k', g) \<Longrightarrow> objs k' = objs k \<and> seen k' = seen k"
    and get_found: "client_Get c key k = (k', Inr s) \<Longrightarrow> seen k key = Some s"
    and get_missing: "client_Get c key k = (k', Inl NotFound) \<Longrightarrow> seen k key = None"
    and list_state: "client_ListServices c k = (k', l) \<Longrightarrow> objs k' = objs k \<and> seen k' = seen k"
    and list_seen: "client_ListServices c k = (k', Inr ss) \<Longrightarrow> set ss = ran (seen k)"
    and slices_state: "client_ListEndpointSlices c ns name k = (k', sl) \<Longrightarrow> objs k' = objs k \<and> seen k' = seen k"
    and status_ok: "client_StatusUpdate c s k = (k', Inr t) \<Longrightarrow>
      \<exists>old. objs k (objectKey s) = Some old \<and> seen k (objectKey s) = Some old \<and>
        objs k' = (objs k)(objectKey s \<mapsto> old\<lparr>status_Ingress := status_Ingress s\<rparr>) \<and> seen k' = seen k"

locale cached_env = cached_api "Client r" objs seen + finalizer_laws "Util r"
  for r :: "('k, 'p, 'e) reconciler" and objs seen :: "'k \<Rightarrow> namespaced_name \<rightharpoonup> kube_service" +
  assumes pool_ipv4: "a \<in> set (IPPool (rec_Config r)) \<Longrightarrow> Is4 a"
begin

lemma onKube_state:
  assumes "onKube f w = (x, w')" "\<And>k' x. f (kube w) = (k', x) \<Longrightarrow> objs k' = objs (kube w) \<and> seen k' = seen (kube w)"
  shows "objs (kube w') = objs (kube w)" "seen (kube w') = seen (kube w)"
  using assms by (auto simp: onKube_def split: prod.splits)

lemma onKube_call: "onKube f w = (x, w') \<Longrightarrow> f (kube w) = (kube w', x)"
  by (auto simp: onKube_def split: prod.splits)

lemma onProv_kube: "onProv f w = (x, w') \<Longrightarrow> kube w' = kube w"
  by (auto simp: onProv_def split: prod.splits)

text \<open>What a successful publication of a Service without a status does, whatever the provider is.\<close>

lemma publish_late:
  assumes e: "publishService r key s al w = (Inr n, w')" and s: "seen (kube w) key = Some s" "status_Ingress s = []"
    and a: "Is4 (alloc_IP al)"
  shows "objs (kube w') = (objs (kube w))(key \<mapsto> s\<lparr>status_Ingress := DesiredLoadBalancerIngress (AddrString (alloc_IP al))\<rparr>)"
    "seen (kube w') = seen (kube w)" "objs (kube w) key = Some s"
proof -
  let ?d = "DesiredLoadBalancerIngress (AddrString (alloc_IP al))"
  have key: "objectKey (s\<lparr>status_Ingress := ?d\<rparr>) = key" using seen_key [OF s(1)] by (simp add: objectKey_def)
  obtain y w1 where l: "onKube (client_ListEndpointSlices (Client r) (ks_Namespace s) (ks_Name s)) w = (y, w1)" by force
  note L = onKube_state [OF l slices_state]
  obtain sl where y: "y = Inr sl" using e l by (cases y) (auto simp: publishService_def listEndpointSlicesForService_def)
  obtain z w2 where p: "onProv (prov_Ensure (Provider r)
      (buildProviderService s (AddrString (alloc_IP al)) (Discover (Some s) sl))) w1 = (z, w2)" by force
  obtain b where z: "z = Inr b"
    using e l y p by (cases z) (auto simp: publishService_def listEndpointSlicesForService_def Let_def)
  obtain so q w3 where u: "onKube (UpdateServiceLoadBalancerStatus (Client r) (Some s) ?d) w2 = ((so, q), w3)"
    by (metis surj_pair)
  have w3: "w' = w3" "\<exists>c. q = Inr c"
    using e l y p z u by (cases q; auto simp: publishService_def listEndpointSlicesForService_def Let_def)+
  have ne: "\<not> LoadBalancerIngressEqual (status_Ingress s) ?d" using s(2) Equal_desired_iff [OF a, of "[]"] by simp
  have k2: "kube w2 = kube w1" by (rule onProv_kube [OF p])
  obtain t where t: "client_StatusUpdate (Client r) (s\<lparr>status_Ingress := ?d\<rparr>) (kube w2) = (kube w3, Inr t)"
    using onKube_call [OF u] w3(2) ne by (auto simp: UpdateStatus_eq split: prod.splits sum.splits)
  from status_ok [OF t] obtain old where o: "objs (kube w2) key = Some old" "seen (kube w2) key = Some old"
    "objs (kube w3) = (objs (kube w2))(key \<mapsto> old\<lparr>status_Ingress := ?d\<rparr>)" "seen (kube w3) = seen (kube w2)"
    unfolding key by auto
  then have "old = s" using s(1) L k2 by simp
  then show "objs (kube w') = (objs (kube w))(key \<mapsto> s\<lparr>status_Ingress := ?d\<rparr>)" "seen (kube w') = seen (kube w)"
    "objs (kube w) key = Some s"
    using o L k2 w3(1) by simp_all
qed

text \<open>
  A successful reconcile of a live managed Service with the finalizer and without a status
  publishes the first address that is free according to the cache.
\<close>

lemma reconcile_late:
  assumes e: "Reconcile r key w = (Inr 0, w')" "RequeueAfter (rec_Config r) \<noteq> 0"
    and s: "seen (kube w) key = Some s" "liveManaged (rec_Config r) s" "serviceFinalizer \<in> set (Finalizers s)"
      "status_Ingress s = []"
  obtains a where "find (freeFor (rec_Config r) key (seen (kube w))) (IPPool (rec_Config r)) = Some a"
    "objs (kube w') = (objs (kube w))(key \<mapsto> s\<lparr>status_Ingress := DesiredLoadBalancerIngress (AddrString a)\<rparr>)"
    "seen (kube w') = seen (kube w)" "objs (kube w) key = Some s"
proof -
  let ?cfg = "rec_Config r" and ?w = "w\<lparr>met := IncServiceReconcile (met w)\<rparr>"
  obtain w0 where 0: "reconcileService r key ?w = (Inr 0, w0)" "kube w' = kube w0"
    using e(1) by (auto simp: Reconcile_def split: prod.splits)
  obtain y w1 where g: "onKube (client_Get (Client r) key) ?w = (y, w1)" by force
  note G = onKube_state [OF g get_state] and gc = onKube_call [OF g]
  have y: "y = Inr s"
  proof (cases y)
    case (Inl er)
    then show ?thesis using 0(1) g gc get_missing [of key "kube w"] s(1) by (cases er) (auto simp: reconcileService_def)
  next
    case (Inr t)
    then show ?thesis using get_found [of key "kube w"] gc s(1) by simp
  qed
  have m: "reconcileManaged r key s w1 = (Inr 0, w0)"
    using 0(1) g y s(2) by (simp add: reconcileService_def liveManaged_def)
  have f: "ensureServiceFinalizer r s w1 = (Inr (False, s), w1)"
    using s(3) by (simp add: ensureServiceFinalizer_def hasServiceFinalizer_def contains)
  obtain l w2 where l: "onKube (client_ListServices (Client r)) w1 = (l, w2)" by force
  have L: "objs (kube w2) = objs (kube w1)" "seen (kube w2) = seen (kube w1)"
    using list_state [OF onKube_call [OF l]] by auto
  obtain ss where ss: "l = Inr ss"
    using m f l by (cases l) (auto simp: reconcileManaged_def listServicesForAllocation_def)
  obtain al where al: "Allocate (allocatorOf ?cfg) (Some s) ss = Inr al"
  proof (cases "Allocate (allocatorOf ?cfg) (Some s) ss")
    case (Inl er)
    then show ?thesis using m f l ss e(2)
      by (cases er) (auto simp: reconcileManaged_def listServicesForAllocation_def)
  qed
  have p: "publishService r key s al (recordAllocation al w2) = (Inr 0, w0)"
    using m f l ss al by (simp add: reconcileManaged_def listServicesForAllocation_def)
  have k: "kube (recordAllocation al w2) = kube w2" by (simp add: recordAllocation_def)
  have set_ss: "set ss = ran (seen (kube w1))" using list_seen onKube_call [OF l] ss by simp
  have free: "find (freeFor ?cfg key (seen (kube w1))) (IPPool ?cfg) = Some (alloc_IP al)"
    by (rule allocate_first_free [OF al s(4) set_ss]) (use seen_key s(1) in auto)
  then have "alloc_IP al \<in> set (IPPool ?cfg)" by (auto simp: find_Some_iff)
  note P = publish_late [OF p, unfolded k, OF _ s(4) pool_ipv4 [OF this]]
  have "seen (kube w2) key = Some s" using L G s(1) by simp
  from P [OF this] free G L 0(2) show ?thesis by (intro that [of "alloc_IP al"]) simp_all
qed

end

section \<open>A cache\<close>

text \<open>The API server of \<open>Cluster\<close> with a cache in front of it.\<close>

record cached_cluster = cluster +
  cl_cache :: "kube_service list"

definition cacheOf :: "cached_cluster \<Rightarrow> cluster" where
  "cacheOf k = \<lparr>cl_services = cl_cache k, cl_slices = [], cl_answers = True\<rparr>"

definition cacheObjs :: "cached_cluster \<Rightarrow> namespaced_name \<rightharpoonup> kube_service" where
  "cacheObjs k = clusterObjs (cacheOf k)"

definition liveObjs :: "cached_cluster \<Rightarrow> namespaced_name \<rightharpoonup> kube_service" where
  "liveObjs k = clusterObjs (cluster.truncate k)"

definition onCluster :: "(cluster \<Rightarrow> cluster \<times> 'a) \<Rightarrow> cached_cluster \<Rightarrow> cached_cluster \<times> 'a" where
  "onCluster f k = (case f (cluster.truncate k) of (c, x) \<Rightarrow> (cluster.extend c (cluster.more k), x))"

definition cachedClient :: "cached_cluster kube_client" where
  "cachedClient = \<lparr>
     client_Get = (\<lambda>key k. (k, snd (client_Get clusterClient key (cacheOf k)))),
     client_ListServices = (\<lambda>k. (k, snd (client_ListServices clusterClient (cacheOf k)))),
     client_ListEndpointSlices = (\<lambda>ns name k. (k, snd (client_ListEndpointSlices clusterClient ns name (cluster.truncate k)))),
     client_StatusUpdate = (\<lambda>s k. if cacheObjs k (objectKey s) \<noteq> liveObjs k (objectKey s) then (k, Inl (APIError ''conflict''))
       else onCluster (client_StatusUpdate clusterClient s) k),
     client_Patch = (\<lambda>s t. onCluster (client_Patch clusterClient s t))\<rparr>"

lemma onCluster_cases:
  assumes "onCluster f k = (k', x)"
  shows "f (cluster.truncate k) = (cluster.truncate k', x)" "cl_cache k' = cl_cache k"
proof -
  obtain c where "f (cluster.truncate k) = (c, x)" "k' = cluster.extend c (cluster.more k)"
    using assms by (auto simp: onCluster_def split: prod.splits)
  then show "f (cluster.truncate k) = (cluster.truncate k', x)" "cl_cache k' = cl_cache k"
    by (cases k; simp add: cluster.defs)+
qed

interpretation cachedapi: cached_api cachedClient liveObjs cacheObjs
proof (unfold_locales, goal_cases)
  case (1 k key s)
  then show ?case using clusterObjs_key by (simp add: cacheObjs_def)
next
  case (3 key k k' s)
  then show ?case using apiserver.get_found [of key "cacheOf k"]
    by (cases "client_Get clusterClient key (cacheOf k)") (auto simp: cachedClient_def cacheObjs_def)
next
  case (4 key k k')
  then show ?case using apiserver.get_missing [of key "cacheOf k"]
    by (cases "client_Get clusterClient key (cacheOf k)") (auto simp: cachedClient_def cacheObjs_def)
next
  case (6 k k' ss)
  then show ?case using apiserver.list_fresh [of "cacheOf k"]
    by (cases "client_ListServices clusterClient (cacheOf k)") (auto simp: cachedClient_def cacheObjs_def)
next
  case (8 s k k' t)
  then have e: "onCluster (client_StatusUpdate clusterClient s) k = (k', Inr t)"
    "cacheObjs k (objectKey s) = liveObjs k (objectKey s)"
    by (simp_all add: cachedClient_def split: if_splits)
  have "cacheObjs k' = cacheObjs k" using onCluster_cases(2) [OF e(1)] by (simp add: cacheObjs_def cacheOf_def)
  then show ?case using apiserver.status_ok [OF onCluster_cases(1) [OF e(1)]] e(2) by (auto simp: liveObjs_def)
qed (auto simp: cachedClient_def)

definition cachedReconciler :: "(cached_cluster, mock_provider \<times> service_ref list, unit) reconciler" where
  "cachedReconciler = \<lparr>Client = cachedClient, rec_Config = sampleConfig,
     Provider = WrapProvider mockOps, Util = listFinalizers\<rparr>"

interpretation cachedenv: cached_env cachedReconciler liveObjs cacheObjs
proof -
  have r: "Client cachedReconciler = cachedClient" "Util cachedReconciler = listFinalizers"
    by (simp_all add: cachedReconciler_def)
  show "cached_env cachedReconciler liveObjs cacheObjs"
    unfolding cached_env_def r using cachedapi.cached_api_axioms listfin.finalizer_laws_axioms
    by (auto simp: cached_env_axioms_def cachedReconciler_def sampleConfig_def)
qed

definition waitingService :: "string \<Rightarrow> kube_service" where
  "waitingService name = sampleKubeService name\<lparr>Finalizers := [serviceFinalizer]\<rparr>"

definition cachedWorld :: "(cached_cluster, mock_provider \<times> service_ref list) cworld" where
  "cachedWorld =
     (let ss = [waitingService ''shop'', waitingService ''cart''] in
      \<lparr>kube = \<lparr>cl_services = ss, cl_slices = [], cl_answers = True, cl_cache = ss\<rparr>,
       prov = (NewMockProvider, []), met = noMetrics\<rparr>)"

lemma cached_runs:
  "fst (Reconcile cachedReconciler (''web'', ''shop'') cachedWorld) = Inr 0"
  "fst (Reconcile cachedReconciler (''web'', ''cart'') (snd (Reconcile cachedReconciler (''web'', ''shop'') cachedWorld))) = Inr 0"
  by code_simp+

lemma cached_objs:
  "cacheObjs (kube cachedWorld) (''web'', ''shop'') = Some (waitingService ''shop'')"
  "cacheObjs (kube cachedWorld) (''web'', ''cart'') = Some (waitingService ''cart'')"
  by code_simp+

section \<open>Properties\<close>

text \<open>
  C23: Late reads break the uniqueness of addresses.  Over any client that reads from a cache, and with any
  provider: when two live managed Services that, according to the cache, carry the finalizer
  and publish nothing are reconciled one after the other, both with success, and no update of
  the cache comes between them, then both publish the same address of the pool.  When the
  cache has caught up with the store in between, the second one shares its address with
  nobody.
\<close>

theorem late_cache_shares_address:
  assumes "cached_env r objs seen" "RequeueAfter (rec_Config r) \<noteq> 0" "key1 \<noteq> key2"
    and "seen (kube w) key1 = Some s1" "seen (kube w) key2 = Some s2"
    and "\<forall>s \<in> {s1, s2}. liveManaged (rec_Config r) s \<and> serviceFinalizer \<in> set (Finalizers s) \<and> status_Ingress s = []"
    and "Reconcile r key1 w = (Inr 0, w1)" "Reconcile r key2 w1 = (Inr 0, w2)"
  shows "(\<exists>a. (key1, key2, a) \<in> clashes (rec_Config r) (objs (kube w2))) \<and>
    (\<forall>w1' w3. objs (kube w1') = objs (kube w1) \<longrightarrow> seen (kube w1') = objs (kube w1) \<longrightarrow>
      Reconcile r key2 w1' = (Inr 0, w3) \<longrightarrow> (\<forall>other a. (key2, other, a) \<notin> clashes (rec_Config r) (objs (kube w3))))"
proof -
  let ?cfg = "rec_Config r"
  let ?put = "\<lambda>s a. s\<lparr>status_Ingress := DesiredLoadBalancerIngress (AddrString a)\<rparr>"
  have h: "liveManaged ?cfg s1" "serviceFinalizer \<in> set (Finalizers s1)" "status_Ingress s1 = []"
    "liveManaged ?cfg s2" "serviceFinalizer \<in> set (Finalizers s2)" "status_Ingress s2 = []" using assms(6) by auto
  have desired: "publishes (?put s a) b \<longleftrightarrow> b = a" if "a \<in> set (IPPool ?cfg)" for s a b
    by (rule publishes_desired [OF cached_env.pool_ipv4 [OF assms(1) that]]) simp
  obtain a1 where 1: "find (freeFor ?cfg key1 (seen (kube w))) (IPPool ?cfg) = Some a1"
    "objs (kube w1) = (objs (kube w))(key1 \<mapsto> ?put s1 a1)" "seen (kube w1) = seen (kube w)"
    using cached_env.reconcile_late [OF assms(1,7,2,4) h(1-3)] by metis
  obtain a2 where 2: "find (freeFor ?cfg key2 (seen (kube w))) (IPPool ?cfg) = Some a2"
    "objs (kube w2) = (objs (kube w1))(key2 \<mapsto> ?put s2 a2)" "objs (kube w1) key2 = Some s2"
    using cached_env.reconcile_late [OF assms(1,8,2) _ h(4-6)] assms(5) 1(3) by metis
  have "freeFor ?cfg key1 (seen (kube w)) = freeFor ?cfg key2 (seen (kube w))"
    by (rule ext) (rule freeFor_quiet; simp add: publishesAt_def assms(4,5) publishes_Nil h)
  then have a: "a2 = a1" "a1 \<in> set (IPPool ?cfg)" using 1(1) 2(1) by (auto simp: find_Some_iff)
  have "(key1, key2, a1) \<in> clashes ?cfg (objs (kube w2))"
    using desired [OF a(2)] assms(3) a h
    by (intro clashesI) (simp_all add: publishesAt_def 1(2) 2(2))
  moreover have "(key2, other, b) \<notin> clashes ?cfg (objs (kube w3))"
    if k: "objs (kube w1') = objs (kube w1)" "seen (kube w1') = objs (kube w1)" "Reconcile r key2 w1' = (Inr 0, w3)"
    for w1' w3 other b
  proof -
    have "seen (kube w1') key2 = Some s2" using k(2) 2(3) by simp
    then obtain a3 where 3: "find (freeFor ?cfg key2 (objs (kube w1))) (IPPool ?cfg) = Some a3"
      "objs (kube w3) = (objs (kube w1))(key2 \<mapsto> ?put s2 a3)"
      using cached_env.reconcile_late [OF assms(1) k(3) assms(2) _ h(4-6)] k(1,2) by metis
    then have f: "freeFor ?cfg key2 (objs (kube w1)) a3" "a3 \<in> set (IPPool ?cfg)" by (auto simp: find_Some_iff)
    have "b = a3" if "publishesAt ?cfg (objs (kube w3)) key2 b"
      using that desired [OF f(2)] by (simp add: publishesAt_def 3(2))
    moreover have "\<not> publishesAt ?cfg (objs (kube w3)) other a3" if "other \<noteq> key2"
      using f(1) that unfolding freeFor_publishesAt 3(2) publishesAt_upd by (simp del: split_paired_All)
    ultimately show ?thesis using clashesD by metis
  qed
  ultimately show ?thesis by blast
qed

theorem late_cache_shares_address_witness:
  "\<exists>w1 w2 a. Reconcile cachedReconciler (''web'', ''shop'') cachedWorld = (Inr 0, w1) \<and>
    Reconcile cachedReconciler (''web'', ''cart'') w1 = (Inr 0, w2) \<and>
    ((''web'', ''shop''), (''web'', ''cart''), a) \<in> clashes sampleConfig (liveObjs (kube w2))"
proof -
  obtain w1 where w1: "Reconcile cachedReconciler (''web'', ''shop'') cachedWorld = (Inr 0, w1)"
    using cached_runs(1) by (metis prod.collapse)
  then have e: "w1 = snd (Reconcile cachedReconciler (''web'', ''shop'') cachedWorld)" by simp
  obtain w2 where w2: "Reconcile cachedReconciler (''web'', ''cart'') w1 = (Inr 0, w2)"
    using cached_runs(2) unfolding e by (metis prod.collapse)
  have c: "rec_Config cachedReconciler = sampleConfig" by (simp add: cachedReconciler_def)
  have n: "RequeueAfter (rec_Config cachedReconciler) \<noteq> 0" "(''web'', ''shop'') \<noteq> (''web'', ''cart'')"
    by (simp_all add: c sampleConfig_def)
  have "\<forall>s \<in> {waitingService ''shop'', waitingService ''cart''}.
      liveManaged (rec_Config cachedReconciler) s \<and> serviceFinalizer \<in> set (Finalizers s) \<and> status_Ingress s = []"
    by code_simp
  from late_cache_shares_address [OF cachedenv.cached_env_axioms n cached_objs this w1 w2] w1 w2
  show ?thesis unfolding c by blast
qed

end
