(* ===== verification/Restart.thy ===== *)
theory Restart
  imports Startup Watch Cache
begin

text \<open>
  Restarts: what the two programs do not repair.  The dataplane keeps its desired state in
  memory, and the controller reconciles a Service only when something it watches changes.
\<close>

section \<open>Events that are not queued\<close>

text \<open>The builder also drops the events that the predicate refuses.\<close>

locale filtering_builder = queueing_builder +
  assumes for_filtered: "\<not> p e \<Longrightarrow> For b p e = []"
    and watches_filtered: "\<not> p' e' \<Longrightarrow> Watches b f p' e' = []"
begin

lemma unchanged_not_queued:
  assumes "Generation s = Generation t" "DeletionTimestamp s = DeletionTimestamp t"
  shows "SetupWithManager b (ServiceEvent (UpdateEvent (Some s) (Some t))) = []"
proof -
  have "\<not> serviceReconcilePredicate (UpdateEvent (Some s) (Some t))"
    using assms by (auto simp: deletionTimestampChanged_def split: option.splits)
  then show ?thesis using for_filtered by (simp add: SetupWithManager_def)
qed

lemma slice_resync_not_queued: "SetupWithManager b (SliceEvent (UpdateEvent (Some x) (Some x))) = []"
  using watches_filtered [of endpointSliceReconcilePredicate] by (simp add: SetupWithManager_def)

end

interpretation plainbuilder: filtering_builder plainBuilder
  by unfold_locales (simp_all add: plainBuilder_def)

section \<open>Properties\<close>

text \<open>
  C24: A restart of the dataplane is not repaired.  The restarted dataplane stores nothing and
  its active configuration is the rendering of no Services; the first Service that is then
  ensured leaves no other managed address attached; and the periodic resync, which delivers
  every object once more unchanged, queues no Service.
\<close>

theorem restart_forgets_services:
  assumes "dataplaneStart deps mk file env w = (Inr (cfg, h), w')"
    and "NewManager (attachConfigOf cfg) deps = Inr m" "NewApplier (applyConfigOf cfg) = Inr ac"
    and "engine_attach m view (mk ac) active ok" "ok w" "filtering_builder b"
  shows "dpStore (h, w') = Map.empty \<and> (\<exists>conf. Render [] = Inr conf \<and> active w' = Some conf) \<and>
    (\<forall>v c e w2. Engine_Ensure v (h_engine h) w' = (Inr c, e, w2) \<longrightarrow> view w2 = wantedIPs [normalizeService v]) \<and>
    (\<forall>s. SetupWithManager b (ServiceEvent (UpdateEvent (Some s) (Some s))) = []) \<and>
    (\<forall>x. SetupWithManager b (SliceEvent (UpdateEvent (Some x) (Some x))) = [])"
proof -
  note S = start_establishes [OF assms(1-5)]
  note env = engine_attach.axioms(1) [OF assms(4)]
  have k: "wired m (mk ac) (h_engine h)" "ok w'" "engine_ok (h_engine h)" "Store_Get (eng_store (h_engine h)) = Map.empty"
    using S by (auto simp: dpOk_def dpStore_def simp del: Store_Get_map_of)
  have "view w2 = wantedIPs [normalizeService v]" if e: "Engine_Ensure v (h_engine h) w' = (Inr c, e, w2)" for v c e w2
  proof -
    have h: "handle (EnsureReq v) (h_engine h) w' = (Inr c, e, w2)" using e by simp
    then have n: "nextStore (EnsureReq v) (h_engine h) \<noteq> None" by (cases rule: handle_cases) auto
    have E: "engine_ok e" "Store_Get (eng_store e) = [Ref v \<mapsto> normalizeService v]"
      using engine_env.handle_keeps [OF env k(1-3) h] k(4) by (simp_all del: Store_Get_map_of)
    have "set (Store_List (eng_store e)) = {normalizeService v}"
      using ds.set_listing E by (simp add: engine_ok_def del: Store_Get_map_of)
    then show ?thesis using engine_attach.handle_view [OF assms(4) k(1,2) h n] by (simp add: wantedIPs_def)
  qed
  then show ?thesis
    using S filtering_builder.unchanged_not_queued [OF assms(6)] filtering_builder.slice_resync_not_queued [OF assms(6)]
    by blast
qed

theorem restart_forgets_services_witness:
  "\<exists>h w. dataplaneStart hostDeps makeHostApplier NoDotEnv hostEnv hostWorld = (Inr (hostConfig, h), w) \<and>
    dpStore (h, w) = Map.empty \<and>
    (\<forall>s. SetupWithManager plainBuilder (ServiceEvent (UpdateEvent (Some s) (Some s))) = [])"
proof -
  obtain h w where s: "dataplaneStart hostDeps makeHostApplier NoDotEnv hostEnv hostWorld = (Inr (hostConfig, h), w)"
    using host_starts by blast
  have a: "makeHostApplier sampleApply = hostApplier" by (simp add: makeHostApplier_def hostApplier_def)
  from restart_forgets_services [OF s hostManager_made hostEnv_loads(2), unfolded a,
      OF host.engine_attach_axioms hostEngine_ok(3) plainbuilder.filtering_builder_axioms] s
  show ?thesis by blast
qed

end
