(* ===== verification/Test_Utils.thy ===== *)
theory Test_Utils
  imports Go_Strings
begin

text \<open>
  \<open>test/utils/utils.go\<close>: the helpers of the end-to-end tests, over an operating system that
  is a parameter: running commands in the project directory, the commands on cert-manager
  and kind, the lines of an output, and removing the comment marks of a block of a file.
\<close>

section \<open>Text\<close>

text \<open>\<open>strings.Index\<close>, \<open>strings.Contains\<close> and \<open>strings.TrimPrefix\<close>.\<close>

fun strings_Index :: "string \<Rightarrow> string \<Rightarrow> nat option" where
  "strings_Index [] sub = (if sub = [] then Some 0 else None)"
| "strings_Index (c # s) sub = (if prefix sub (c # s) then Some 0 else map_option Suc (strings_Index s sub))"

definition strings_Contains :: "string \<Rightarrow> string \<Rightarrow> bool" where
  "strings_Contains s sub = (strings_Index s sub \<noteq> None)"

definition TrimPrefix :: "string \<Rightarrow> string \<Rightarrow> string" where
  "TrimPrefix s p = (if prefix p s then drop (length p) s else s)"

text \<open>
  The tokens of a \<open>bufio.Scanner\<close> over a text: its lines without a carriage return at their
  end, up to the first one that does not fit in the buffer of 64 KiB; an empty rest after
  the last newline is no line.
\<close>

definition MaxScanTokenSize :: nat where
  "MaxScanTokenSize = 64 * 1024"

definition dropCR :: "string \<Rightarrow> string" where
  "dropCR l = (if l \<noteq> [] \<and> last l = CHR 0x0D then butlast l else l)"

definition scanTokens :: "string \<Rightarrow> string list" where
  "scanTokens t =
     (let parts = Split CHR 0x0A t; ls = (if last parts = [] then butlast parts else parts) in
      map dropCR (takeWhile (\<lambda>l. length l < MaxScanTokenSize) ls))"

definition GetNonEmptyLines :: "string \<Rightarrow> string list" where
  "GetNonEmptyLines out = filter (\<lambda>element. element \<noteq> []) (Split CHR 0x0A out)"

section \<open>Commands\<close>

record 'w test_os =
  t_Getwd :: "'w \<Rightarrow> string \<times> string option"
  t_Chdir :: "string \<Rightarrow> 'w \<Rightarrow> string option \<times> 'w"
  t_CombinedOutput :: "string \<Rightarrow> string list \<Rightarrow> 'w \<Rightarrow> (string \<times> string option) \<times> 'w"
  t_LookupEnv :: "string \<Rightarrow> 'w \<Rightarrow> string option"
  t_ReadFile :: "string \<Rightarrow> 'w \<Rightarrow> (string, string) result"
  t_WriteFile :: "string \<Rightarrow> string \<Rightarrow> 'w \<Rightarrow> string option \<times> 'w"

datatype test_error =
    GetwdFailed string
  | CommandFailed string string string
  | ReadFileFailed string string
  | CodeNotFound string
  | WriteFileFailed string string

definition GetProjectDir :: "'w test_os \<Rightarrow> 'w \<Rightarrow> string \<times> test_error option" where
  "GetProjectDir os w =
     (case t_Getwd os w of
        (wd, Some err) \<Rightarrow> (wd, Some (GetwdFailed err))
      | (wd, None) \<Rightarrow> (ReplaceAll wd ''/test/e2e'' [], None))"

text \<open>The environment of the command is that of the process with \<open>GO111MODULE=on\<close> appended.\<close>

definition Run :: "'w test_os \<Rightarrow> string list \<Rightarrow> 'w \<Rightarrow> (string \<times> test_error option) \<times> 'w" where
  "Run os args w =
     (let dir = fst (GetProjectDir os w);
          (_, w) = t_Chdir os dir w;
          command = Join '' '' args
      in case t_CombinedOutput os dir args w of
           ((output, Some err), w) \<Rightarrow> ((output, Some (CommandFailed command output err)), w)
         | ((output, None), w) \<Rightarrow> ((output, None), w))"

definition certmanagerVersion :: string where
  "certmanagerVersion = ''v1.19.2''"

definition certmanagerURL :: string where
  "certmanagerURL = ''https://github.com/cert-manager/cert-manager/releases/download/'' @ certmanagerVersion @
     ''/cert-manager.yaml''"

definition defaultKindBinary :: string where
  "defaultKindBinary = ''kind''"

definition defaultKindCluster :: string where
  "defaultKindCluster = ''kind''"

text \<open>Errors are only printed as warnings here.\<close>

definition UninstallCertManager :: "'w test_os \<Rightarrow> 'w \<Rightarrow> 'w" where
  "UninstallCertManager os w =
     foldl (\<lambda>w args. snd (Run os args w)) w
       ([''kubectl'', ''delete'', ''-f'', certmanagerURL] #
        map (\<lambda>lease. [''kubectl'', ''delete'', ''lease'', lease, ''-n'', ''kube-system'', ''--ignore-not-found'',
            ''--force'', ''--grace-period=0''])
          [''cert-manager-cainjector-leader-election'', ''cert-manager-controller''])"

definition InstallCertManager :: "'w test_os \<Rightarrow> 'w \<Rightarrow> test_error option \<times> 'w" where
  "InstallCertManager os w =
     (case Run os [''kubectl'', ''apply'', ''-f'', certmanagerURL] w of
        ((_, Some err), w) \<Rightarrow> (Some err, w)
      | ((_, None), w) \<Rightarrow>
          (case Run os [''kubectl'', ''wait'', ''deployment.apps/cert-manager-webhook'', ''--for'', ''condition=Available'',
               ''--namespace'', ''cert-manager'', ''--timeout'', ''5m''] w of
             ((_, err), w) \<Rightarrow> (err, w)))"

definition certManagerCRDs :: "string list" where
  "certManagerCRDs = [''certificates.cert-manager.io'', ''issuers.cert-manager.io'', ''clusterissuers.cert-manager.io'',
     ''certificaterequests.cert-manager.io'', ''orders.acme.cert-manager.io'', ''challenges.acme.cert-manager.io'']"

definition IsCertManagerCRDsInstalled :: "'w test_os \<Rightarrow> 'w \<Rightarrow> bool \<times> 'w" where
  "IsCertManagerCRDsInstalled os w =
     (case Run os [''kubectl'', ''get'', ''crds''] w of
        ((_, Some err), w) \<Rightarrow> (False, w)
      | ((output, None), w) \<Rightarrow>
          (list_ex (\<lambda>crd. list_ex (\<lambda>line. strings_Contains line crd) (GetNonEmptyLines output)) certManagerCRDs, w))"

definition LoadImageToKindClusterWithName :: "'w test_os \<Rightarrow> string \<Rightarrow> 'w \<Rightarrow> test_error option \<times> 'w" where
  "LoadImageToKindClusterWithName os name w =
     (let cluster = (case t_LookupEnv os ''KIND_CLUSTER'' w of Some v \<Rightarrow> v | None \<Rightarrow> defaultKindCluster);
          kindBinary = (case t_LookupEnv os ''KIND'' w of Some v \<Rightarrow> v | None \<Rightarrow> defaultKindBinary)
      in case Run os [kindBinary, ''load'', ''docker-image'', name, ''--name'', cluster] w of ((_, err), w) \<Rightarrow> (err, w))"

section \<open>Comment marks\<close>

text \<open>Writing to the \<open>bytes.Buffer\<close> never fails; a target without any line is left alone.\<close>

definition UncommentCode :: "'w test_os \<Rightarrow> string \<Rightarrow> string \<Rightarrow> string \<Rightarrow> 'w \<Rightarrow> test_error option \<times> 'w" where
  "UncommentCode os filename target pre w =
     (case t_ReadFile os filename w of
        Inl err \<Rightarrow> (Some (ReadFileFailed filename err), w)
      | Inr content \<Rightarrow>
          (case strings_Index content target of
             None \<Rightarrow> (Some (CodeNotFound target), w)
           | Some idx \<Rightarrow>
               (case scanTokens target of
                  [] \<Rightarrow> (None, w)
                | tokens \<Rightarrow>
                    let out = take idx content @ Join [CHR 0x0A] (map (\<lambda>l. TrimPrefix l pre) tokens) @
                          drop (idx + length target) content
                    in (case t_WriteFile os filename out w of
                          (Some err, w) \<Rightarrow> (Some (WriteFileFailed filename err), w)
                        | (None, w) \<Rightarrow> (None, w)))))"

lemma Index_spec:
  "strings_Index s sub = Some i \<longleftrightarrow> prefix sub (drop i s) \<and> i \<le> length s \<and> (\<forall>j < i. \<not> prefix sub (drop j s))"
proof (induction s arbitrary: i)
  case (Cons c s)
  show ?case
  proof (cases i)
    case 0
    then show ?thesis by (auto split: option.splits)
  next
    case (Suc n)
    have "(\<forall>j < Suc n. \<not> prefix sub (drop j (c # s))) \<longleftrightarrow> \<not> prefix sub (c # s) \<and> (\<forall>j < n. \<not> prefix sub (drop j s))"
      by (auto simp: less_Suc_eq_0_disj)
    then show ?thesis using Suc Cons.IH [of n] by (auto split: option.splits)
  qed
qed auto

lemma scanTokens_Join:
  assumes "ls \<noteq> []" "\<forall>l \<in> set ls. CHR 0x0A \<notin> set l \<and> length l < MaxScanTokenSize \<and> (l = [] \<or> last l \<noteq> CHR 0x0D)"
    and "last ls \<noteq> []"
  shows "scanTokens (Join [CHR 0x0A] ls) = ls"
proof -
  have "Split CHR 0x0A (Join [CHR 0x0A] ls) = ls" using assms(1,2) by (intro Split_Join) auto
  then have "scanTokens (Join [CHR 0x0A] ls) = map dropCR (takeWhile (\<lambda>l. length l < MaxScanTokenSize) ls)"
    using assms(3) by (simp add: scanTokens_def)
  also have "takeWhile (\<lambda>l. length l < MaxScanTokenSize) ls = ls" using assms(2) by simp
  also have "map dropCR ls = ls" using assms(2) by (intro map_idI) (auto simp: dropCR_def)
  finally show ?thesis .
qed

section \<open>Properties\<close>

text \<open>
  Uncommenting undoes commenting: when the first occurrence of the commented lines in the
  file is where they stand, the file is written with exactly those lines restored and all
  other text kept.
\<close>

theorem uncomment_restores:
  assumes "ls \<noteq> []" "pre \<noteq> []"
    and "\<forall>l \<in> set ls. CHR 0x0A \<notin> set (pre @ l) \<and> length (pre @ l) < MaxScanTokenSize \<and> last (pre @ l) \<noteq> CHR 0x0D"
    and "target = Join [CHR 0x0A] (map (\<lambda>l. pre @ l) ls)" "t_ReadFile os file w = Inr (a @ target @ b)"
    and "strings_Index (a @ target @ b) target = Some (length a)"
  shows "UncommentCode os file target pre w =
    (case t_WriteFile os file (a @ Join [CHR 0x0A] ls @ b) w of
       (Some err, w) \<Rightarrow> (Some (WriteFileFailed file err), w) | (None, w) \<Rightarrow> (None, w))"
proof -
  have "last (map (\<lambda>l. pre @ l) ls) \<noteq> []" using assms(1,2) by (simp add: last_map)
  then have t: "scanTokens target = map (\<lambda>l. pre @ l) ls"
    unfolding assms(4) using assms(1-3) by (intro scanTokens_Join) auto
  have "map (\<lambda>l. TrimPrefix l pre) (scanTokens target) = ls"
    unfolding t by (simp add: TrimPrefix_def comp_def)
  moreover have "scanTokens target \<noteq> []" using t assms(1) by simp
  ultimately show ?thesis
    using assms(5,6) by (cases "scanTokens target") (simp_all add: UncommentCode_def Let_def)
qed

definition notebook :: "(string \<rightharpoonup> string) test_os" where
  "notebook = \<lparr>t_Getwd = (\<lambda>_. (''/k8s-lb-controller/test/e2e'', None)), t_Chdir = (\<lambda>_ w. (None, w)),
     t_CombinedOutput = (\<lambda>_ _ w. (([], None), w)), t_LookupEnv = (\<lambda>_ _. None),
     t_ReadFile = (\<lambda>f w. case w f of None \<Rightarrow> Inl ''no such file'' | Some t \<Rightarrow> Inr t),
     t_WriteFile = (\<lambda>f t w. (None, w(f \<mapsto> t)))\<rparr>"

theorem uncomment_restores_witness:
  "fst (UncommentCode notebook ''k.yaml'' (''#a'' @ [CHR 0x0A] @ ''#b'') ''#''
      [''k.yaml'' \<mapsto> ''x #a'' @ [CHR 0x0A] @ ''#b y'']) = None"
proof -
  have m: "\<forall>l \<in> set [''a'', ''b'']. CHR 0x0A \<notin> set (''#'' @ l) \<and> length (''#'' @ l) < MaxScanTokenSize \<and>
      last (''#'' @ l) \<noteq> CHR 0x0D" by (simp add: MaxScanTokenSize_def)
  have r: "t_ReadFile notebook ''k.yaml'' [''k.yaml'' \<mapsto> ''x #a'' @ [CHR 0x0A] @ ''#b y''] =
      Inr (''x '' @ (''#a'' @ [CHR 0x0A] @ ''#b'') @ '' y'')" by (simp add: notebook_def)
  have i: "strings_Index (''x '' @ (''#a'' @ [CHR 0x0A] @ ''#b'') @ '' y'') (''#a'' @ [CHR 0x0A] @ ''#b'') = Some (length ''x '')"
    by code_simp
  from uncomment_restores [OF _ _ m _ r i] show ?thesis by (simp add: notebook_def)
qed

text \<open>
  A newline at the end of the target is lost: the scanner does not tell whether the last
  line ended with one.
\<close>

theorem uncomment_drops_newline:
  "snd (UncommentCode notebook ''k.yaml'' (''#a'' @ [CHR 0x0A]) ''#'' [''k.yaml'' \<mapsto> ''#a'' @ [CHR 0x0A] @ ''b'']) ''k.yaml'' =
     Some ''ab''"
  by (simp add: UncommentCode_def notebook_def scanTokens_def MaxScanTokenSize_def dropCR_def TrimPrefix_def)

end
