(* ===== verification/Spec2Isabelle.thy ===== *)
theory Spec2Isabelle
  imports Provider_Haproxy Live Exec_Host Processes Restart Test_Utils
begin

text \<open>
  \<^bold>\<open>k8s-lb-controller.\<close>  The program gives Kubernetes Services of type LoadBalancer an
  address and traffic.  It has two binaries.  The controller (\<open>cmd/main.go\<close>) watches Services
  and EndpointSlices; for each Service of its load-balancer class it puts a finalizer on the
  object, allocates an address from a configured pool, discovers the ready endpoints, hands
  the desired state to a provider and publishes the address in the Service's status.  The
  provider either writes the HAProxy configuration itself (mode \<open>local-haproxy\<close>) or sends the
  desired state over HTTP to the dataplane (\<open>cmd/dataplane/main.go\<close>), which stores it, attaches
  the external addresses to a network interface, renders one HAProxy configuration for all
  Services, validates it, moves it in place and reloads HAProxy.

  \<^bold>\<open>Theories and sources\<close> (all paths under \<open>src/\<close>), bottom up.

  \<^item> \<open>Prelude\<close>: results as sums, comparator sorts, Go maps as association lists.  \<open>Go_Strings\<close>,
    \<open>Netip\<close>, \<open>Go_Time\<close>, \<open>Json\<close>: what the program uses of \<open>strings\<close>, \<open>strconv\<close>, \<open>unicode/utf8\<close>,
    \<open>net/netip\<close>, \<open>time.ParseDuration\<close> and \<open>encoding/json\<close>, on byte strings and on words.
    \<open>Kube\<close>: the fields of Services and EndpointSlices that the program touches.
  \<^item> \<open>Provider_Model\<close> and \<open>Provider_Contract\<close>: \<open>internal/provider\<close>, the desired state, the
    interface \<open>Provider\<close> as the locales \<open>provider_effects\<close> and \<open>service_provider\<close>, the mock.
    \<open>Provider_Haproxy\<close>: \<open>internal/provider/haproxy\<close>.  \<open>Dataplane_Api\<close>:
    \<open>internal/provider/dataplaneapi\<close>.
  \<^item> \<open>Store\<close>, \<open>Render\<close>, \<open>Apply\<close>, \<open>Engine\<close>, \<open>Http\<close>, \<open>Dataplane_Config\<close>: the files \<open>store.go\<close>,
    \<open>render.go\<close>, \<open>apply.go\<close>, \<open>engine.go\<close> with \<open>externalips.go\<close>, \<open>http.go\<close> and \<open>config.go\<close> of
    \<open>internal/dataplane\<close>.  \<open>Ip_Attach\<close>, \<open>Exec_Attach\<close> and \<open>Exec_Host\<close>: \<open>internal/dataplane/ipattach\<close>.
  \<^item> \<open>Ipam\<close>, \<open>Backends\<close>, \<open>Status\<close>, \<open>Metrics\<close>, \<open>Config\<close>: \<open>internal/ipam\<close>, \<open>internal/backends\<close>,
    \<open>internal/status\<close>, \<open>internal/metrics\<close>, \<open>internal/config\<close>.  \<open>Controller\<close> and \<open>Watch\<close>:
    \<open>internal/controller\<close>, the reconciler and the watches that feed it.  \<open>Startup\<close> and
    \<open>Processes\<close>: both binaries up to the point where they serve, and from there to their end.
    \<open>Test_Utils\<close>: \<open>test/utils\<close>, the helpers of the end-to-end tests.
  \<^item> Compositions: \<open>Cluster\<close> (the controller among other writers of the cluster),
    \<open>Dataplane_Link\<close> (client, network and handler), \<open>Deployment\<close> (controller, client, network,
    dataplane and host together), \<open>Progress\<close>, \<open>Calm\<close> and \<open>Live\<close> (the same with retries),
    \<open>Restart\<close> (a restarted dataplane), \<open>Cache\<close> (a controller that reads from a cache).

  \<^bold>\<open>How the code is modelled.\<close>  A struct is a record, a Go error a constructor of the
  component's error type that names the wrapping message, and a fallible operation returns a
  sum.  An operation with effects takes and returns the world it acts on: the engine its
  record and the host, the reconciler a record of cluster state, provider state and metrics.
  Every early return is a branch.  Code outside the repository is a parameter: the Kubernetes
  client, the builder and the finalizer helpers of controller-runtime, \<open>net/url\<close>, \<open>godotenv\<close>,
  the HTTP transport, the netlink package, the operating system with its processes, and the
  texts of library errors (\<open>txt\<close>).  What a theorem needs of them is a locale; each locale is
  interpreted, on the components that provide it or, for what lies outside, on an executable
  instance: an API server in memory, a network that loses messages on schedule, a kernel with
  an address table, a file tree whose calls may fail, an \<open>ip\<close> command.

  \<^bold>\<open>What is shown.\<close>

  \<^item> Deployment: whatever fails, the system never makes two live managed Services publish the
    same address and never leaves something on the dataplane without a finalizer in the
    cluster: every clash and every orphan was there at the start or was brought by somebody
    else's change; stored addresses stay attached; a reconcile without an error means that the Service is served on the host;
    with finitely many failures retries come to that point, or to an exhausted pool, for a
    Service that the dataplane accepts, and a Service under deletion is released.
  \<^item> Controller: a reconcile is a sequence of atomic steps of an abstract controller; by rule
    induction over the sequences of reconciles, restarts and arbitrary changes by others it is
    not to blame for a clash or an orphan; a successful reconcile repairs a clash of its
    Service; the watches miss no change of what is asked of it, though edits of status and
    finalizers by others are not queued.
  \<^item> Remote provider: whatever the network loses or repeats, a call does nothing or what was
    asked; over a reliable network it is the engine called directly; payloads survive the
    trip, and decoding terminates.
  \<^item> Engine: the store refines an abstract map of committed requests; success attaches exactly
    the wanted addresses and activates the rendering; failure rolls back.
  \<^item> Applier, renderer, attachment, allocation, discovery, configuration: atomic replacement
    of the active file; the rendered text line by line, no injection, independence of order;
    the two attachment backends alike and correct; the allocation policy; the exact set of
    backends; well-formed configurations from which everything builds.
  \<^item> Processes: in every interleaving of requests, signal, listener and main routine the
    dataplane keeps its invariant, its goroutine never blocks, a completed shutdown has answered
    every request; the controller announces its shutdown at most once, and logs no credentials
    of the dataplane's URL.
  \<^item> Flaws, each with a theorem: a failed reload and a failed detach that are not retried,
    colliding section names, a port without a name that never gets backends, an address given
    twice when the cache lags behind, a restarted dataplane that is not filled again, an
    announcement that can be lost, and a newline that \<open>UncommentCode\<close> drops.

  \<^bold>\<open>Bounds.\<close>  The JSON decoder has fuel, twice the length of the text and three more: \<open>Json\<close>
  shows that it is enough and that more changes nothing.  \<open>retry\<close> has a bound, the number of
  failures still to come, which \<open>Progress\<close> shows to be enough.  Every other recursion is
  structural or has a measure.  Ports are checked against 32 bits where the code decodes them
  into \<open>int32\<close>; octets, address order and the arithmetic of durations are on words or
  with the wrap-around written out.

  \<^bold>\<open>Assumptions.\<close>  Reads of the API server are fresh in the theorems of \<open>Cluster\<close>, \<open>Deployment\<close>
  and \<open>Live\<close>, although the manager's client reads from a cache: \<open>Cache\<close> shows what happens when the cache is
  late.  Others change Services between reconciles, not inside one.  A failed write to the
  API server may or may not have been carried out.  That the watches miss no change needs an
  API server that numbers the specifications of Services (\<open>metadata.generation\<close>).  Restarts of
  both programs are steps of the system.  A request that the network carries is delivered
  before the call returns.  The theorems on deployments are for attachment switched on and a
  dataplane URL without a path of its own.  The netlink manager is correct also when answers
  of the kernel are lost; the rollback of the engine, and so the theorems on hosts, need a
  kernel and an \<open>ip\<close> command whose failed changes have not been made.  Deleting an address
  deletes no other (prefix length 32, or secondary addresses are promoted).  The configured
  validation and reload commands leave the file tree alone.  Of \<open>net/url\<close> only URLs of the
  schemes \<open>http\<close> and \<open>https\<close> with a host need to be read back from their texts.  Progress needs a
  host on which nothing fails, an API server and a network with finitely many failures, and a
  Service that the dataplane accepts under every address of the pool: a Service with a UDP
  port is managed, but refused for ever.  Each operation of the engine, the mock and the
  file-based provider holds its mutex throughout, so it is one step.

  \<^bold>\<open>Not modelled.\<close>  Log output, except the lines of the controller's start and shutdown; the
  leader election of the manager; durations in metrics; contexts and timeouts, except as
  failures of the calls they end; the interruption of an engine operation by the end of the
  process.  What remains uncovered of the sources is imports, interface assertions, licence
  headers and the one-line wrappers of conversions.
\<close>

text \<open>
  C1: In the end a Service is served.  When only finitely many calls to the API and messages
  on the network fail, the dataplane's host works, and the dataplane accepts the Service
  under every address of the pool, then the reconcile of a live managed Service, retried as
  often as failures are still to come, ends without an error: either the Service publishes
  an address of the pool that the dataplane serves and its host has attached, or every
  address of the pool is published by another live managed Service and the reconcile is to
  be repeated after the configured delay.
\<close>

theorem service_eventually_served:
  assumes "live_deployment C objs U send txt srv m view app active ok p cfg kf ends calm faults"
    and "dpOk m view app ok (srv (fst (prov w)))" "calm (snd (srv (fst (prov w))))"
    and "maxRequestBodyBytes (fst (srv (fst (prov w)))) = limit"
    and "noOrphans (absState objs (\<lambda>q. dpStore (dpOf srv q)) w)"
    and "objs (kube w) key = Some s" "liveManaged cfg s"
    and "\<forall>a \<in> set (IPPool cfg). acceptable limit
      (EnsureReq (buildProviderService s (AddrString a) (Discover (Some s) (ends (kube w) key))))"
  shows "\<exists>d w'. retry (kf (kube w) + faults (fst (prov w))) (stackReconciler C U send p cfg) key w = (Inr d, w') \<and>
    (d = 0 \<and> onHost objs srv view cfg key w' \<and> synced view active (srv (fst (prov w'))) \<or>
     d = RequeueAfter cfg \<and> (\<forall>a \<in> set (IPPool cfg). \<not> freeFor cfg key (objs (kube w')) a))"
  by (rule live_deployment.eventually_served [OF assms])

theorem service_eventually_served_witness:
  "\<exists>d w. retry 3 liveStack (''web'', ''shop'') (liveWorld [shop] [True, False, True, False] [Lost]) = (Inr d, w) \<and>
    (d = 0 \<and> onHost scheduledObjs snd hostView sampleConfig (''web'', ''shop'') w \<or>
     d = RequeueAfter sampleConfig \<and> \<not> freeFor sampleConfig (''web'', ''shop'') (scheduledObjs (kube w)) (V4 203 0 113 10))"
proof -
  let ?w = "liveWorld [shop] [True, False, True, False] [Lost]" and ?key = "(''web'', ''shop'')"
  have o: "scheduledObjs (kube ?w) ?key = Some shop" "liveManaged sampleConfig shop" by code_simp+
  have e: "scheduledSlices (kube ?w) ?key = []" by (simp add: scheduledSlices_def liveWorld_def sampleCluster_def)
  have n: "scheduledFailures (kube ?w) + length (fst (fst (prov ?w))) = 3"
    by (simp add: scheduledFailures_def liveWorld_def)
  have p: "V4 203 0 113 10 \<in> set (IPPool sampleConfig)" by (simp add: sampleConfig_def)
  show ?thesis
    using service_eventually_served [OF livedep.live_deployment_axioms liveWorld_start o] shop_acceptable p
    unfolding e n by blast
qed

text \<open>
  C2: The deployed system does no harm of its own.  In every state it reaches, from any start
  in which the dataplane keeps its invariant, however whole reconciles, failures of the API,
  losses of the network, failures on the host, restarts of both programs and arbitrary
  changes of the stored Services by others between reconciles follow each other, and as long as reads of the API are
  fresh: two live managed Services publish the same pool address only if they did so at the
  start or a change by somebody else made them; the dataplane stores something for a name
  without a Service that carries the finalizer only if it did so at the start or somebody
  else removed that Service or its finalizer; and the external address of everything the
  dataplane stores is attached on its host.
\<close>

theorem deployment_invariants:
  assumes "deployment C objs U send txt srv m view app active ok p cfg"
    and "system (stackReconciler C U send p cfg) objs (\<lambda>q. dpStore (dpOf srv q)) (\<lambda>q. dpOk m view app ok (dpOf srv q)) Cs Os w"
  shows "clashes cfg (objs (kube w)) \<subseteq> Cs \<and> orphans (absState objs (\<lambda>q. dpStore (dpOf srv q)) w) \<subseteq> Os \<and>
    wantedIPs (dpServices (srv (fst (prov w)))) \<subseteq> view (snd (srv (fst (prov w))))"
  using deployment.system_holds [OF assms] by (simp add: dpOk_def)

theorem deployment_invariants_witness:
  "\<exists>x w. Reconcile sampleStack (''web'', ''shop'') (stackWorld [shop] [AnswerLost 2]) = (x, w) \<and>
    uniqueIPs sampleConfig (clusterObjs (kube w)) \<and>
    wantedIPs (dpServices (snd (fst (prov w)))) \<subseteq> hostView (snd (snd (fst (prov w))))"
proof -
  let ?dp = "\<lambda>q. dpStore (dpOf snd q)" and ?ok = "\<lambda>q. dpOk hostManager hostView hostApplier (\<lambda>w. os_ok (snd w)) (dpOf snd q)"
  let ?sys = "system sampleStack clusterObjs ?dp ?ok"
  let ?w0 = "stackWorld [] [AnswerLost 2]" and ?w1 = "stackWorld [shop] [AnswerLost 2]"
  obtain x w where r: "Reconcile sampleStack (''web'', ''shop'') ?w1 = (x, w)" by (rule prod.exhaust)
  have o: "clusterObjs (kube ?w0) = Map.empty" "clusterObjs (kube ?w1) = [objectKey shop \<mapsto> shop]"
    by (auto simp: clusterObjs_def stackWorld_def sampleCluster_def sampleKubeService_def objectKey_def fun_eq_iff)
  have d: "?dp (prov (stackWorld ss fs), met (stackWorld ss fs)) = Map.empty" for ss fs
    using ds.get_empty by (simp add: stackWorld_def dpOf_def dpStore_def hostDataplane_def NewHandler_def hostEngine_def
        del: Store_Get_map_of)
  have none: "clashes sampleConfig (clusterObjs (kube ?w0)) = {}" "clashes sampleConfig (clusterObjs (kube ?w1)) = {}"
    "orphans (absState clusterObjs ?dp ?w0) = {}" "orphans (absState clusterObjs ?dp ?w1) = {}"
    unfolding o absState_def d
    by (auto simp: clashes_def publishesAt_def orphans_def sampleKubeService_def publishes_Nil split: if_splits)
  have "?ok (prov ?w0, met ?w0)" using hostDataplane_ok by (simp add: stackWorld_def dpOf_def)
  from system.start [of ?ok ?w0 sampleStack clusterObjs ?dp, OF this] have "?sys {} {} ?w0" using none by simp
  from system.others [OF this, of ?w1 "kube ?w1"] have "?sys {} {} ?w1" using none by (simp add: stackWorld_def)
  then have "?sys {} {} w" by (rule system.reconcile) (rule r)
  from deployment_invariants [OF dep.deployment_axioms this] r show ?thesis unfolding uniqueIPs_def by auto
qed

text \<open>
  C3: End to end: when the reconcile of a live managed Service succeeds without asking for a
  requeue, over any network and any host that keep their laws, the stored Service publishes
  exactly one address of the pool, the dataplane stores the Service with that address, the
  address is attached on the dataplane's host, and the host's active HAProxy configuration
  is the rendering of everything the dataplane stores.
\<close>

theorem service_reaches_the_host:
  assumes "deployment C objs U send txt srv m view app active ok p cfg"
    and "dpOk m view app ok (srv (fst (prov w)))"
    and "Reconcile (stackReconciler C U send p cfg) key w = (Inr 0, w')" "RequeueAfter cfg \<noteq> 0"
    and "objs (kube w) key = Some s" "liveManaged cfg s"
  shows "onHost objs srv view cfg key w' \<and> synced view active (srv (fst (prov w')))"
  by (rule deployment.reaches_host [OF assms])

theorem service_reaches_the_host_witness:
  "\<exists>w. Reconcile sampleStack (''web'', ''shop'') (stackWorld [shop] []) = (Inr 0, w) \<and>
    onHost clusterObjs snd hostView sampleConfig (''web'', ''shop'') w"
proof -
  obtain w where r: "Reconcile sampleStack (''web'', ''shop'') (stackWorld [shop] []) = (Inr 0, w)"
    using sample_stack_reconcile by blast
  have h: "RequeueAfter sampleConfig \<noteq> 0" "liveManaged sampleConfig shop"
    "clusterObjs (kube (stackWorld [shop] [])) (''web'', ''shop'') = Some shop"
    by code_simp+
  have d: "dpOk hostManager hostView hostApplier (\<lambda>w. os_ok (snd w)) (snd (fst (prov (stackWorld [shop] []))))"
    using hostDataplane_ok by (simp add: stackWorld_def)
  from service_reaches_the_host [OF dep.deployment_axioms d r h(1,3,2)] r show ?thesis by blast
qed

text \<open>
  C4: In the end a deleted Service is released.  Under the same conditions the reconcile of a
  Service that is marked for deletion, retried as often as failures are still to come, ends
  without an error, the dataplane no longer stores the Service, and the controller's
  finalizer no longer keeps the object from being removed.
\<close>

theorem deletion_eventually_completes:
  assumes "live_deployment C objs U send txt srv m view app active ok p cfg kf ends calm faults"
    and "dpOk m view app ok (srv (fst (prov w)))" "calm (snd (srv (fst (prov w))))"
    and "maxRequestBodyBytes (fst (srv (fst (prov w)))) = limit"
    and "noOrphans (absState objs (\<lambda>q. dpStore (dpOf srv q)) w)"
    and "objs (kube w) key = Some s" "DeletionTimestamp s \<noteq> None"
  shows "\<exists>d w'. retry (kf (kube w) + faults (fst (prov w))) (stackReconciler C U send p cfg) key w = (Inr d, w') \<and>
    dpStore (srv (fst (prov w'))) (refOf key) = None \<and>
    (\<forall>t. objs (kube w') key = Some t \<longrightarrow> serviceFinalizer \<notin> set (Finalizers t))"
  by (rule live_deployment.eventually_released [OF assms])

theorem deletion_eventually_completes_witness:
  "\<exists>d w. retry 2 liveStack (''web'', ''shop'') (liveWorld [shopHeld\<lparr>DeletionTimestamp := Some 0\<rparr>] [False] [AnswerLost 1]) =
      (Inr d, w) \<and>
    dpStore (snd (fst (prov w))) (refOf (''web'', ''shop'')) = None"
proof -
  let ?s = "shopHeld\<lparr>DeletionTimestamp := Some 0\<rparr>" and ?key = "(''web'', ''shop'')"
  let ?w = "liveWorld [?s] [False] [AnswerLost 1]"
  have o: "scheduledObjs (kube ?w) ?key = Some ?s" by code_simp
  have n: "scheduledFailures (kube ?w) + length (fst (fst (prov ?w))) = 2"
    by (simp add: scheduledFailures_def liveWorld_def)
  show ?thesis
    using deletion_eventually_completes [OF livedep.live_deployment_axioms liveWorld_start o]
    unfolding n by auto
qed

end
